(* ===== verification/Prelude.thy ===== *)
theory Prelude
  imports Main "HOL-Library.Word"
begin

unbundle bit_operations_syntax

section \<open>Prelude: outcomes, bytes and the automation shared by every component\<close>

text \<open>
  The C code of the repository can go wrong in two ways. It can \<^emph>\<open>report\<close> an error
  (a return value of -1, 0 or NULL), which every model returns as an ordinary value; and it
  can \<^emph>\<open>misbehave\<close> (dereference NULL or freed memory, run over a buffer, read an
  uninitialised variable, fail an assertion). The second kind has no value in C, so it is a
  value of \<^theory_text>\<open>fault\<close> here: a model whose C counterpart can misbehave returns
  an \<^theory_text>\<open>outcome\<close>, \<open>Inl\<close> of the fault or \<open>Inr\<close> of the result.
\<close>

datatype fault =
    Null_Deref       \<comment> \<open>a NULL pointer is dereferenced\<close>
  | Dangling         \<comment> \<open>memory that was freed (or never allocated) is used\<close>
  | Out_Of_Bounds    \<comment> \<open>a read or write outside a buffer\<close>
  | Bad_Shift        \<comment> \<open>a shift by a negative amount\<close>
  | Assert_Failed    \<comment> \<open>assert() aborts the process\<close>
  | Uninitialised    \<comment> \<open>a variable is read before it is written\<close>
  | Hangs            \<comment> \<open>a loop inside a callback never ends\<close>

type_synonym 'a outcome = "fault + 'a"

definition and_then :: "'a outcome \<Rightarrow> ('a \<Rightarrow> 'b outcome) \<Rightarrow> 'b outcome" where
  "and_then r f = (case r of Inl e \<Rightarrow> Inl e | Inr x \<Rightarrow> f x)"

lemma and_then_Inl [simp]: "and_then (Inl e) f = Inl e"
  by (simp add: and_then_def)

lemma and_then_Inr [simp]: "and_then (Inr x) f = f x"
  by (simp add: and_then_def)

lemma and_then_eq_Inr: "and_then r f = Inr y \<longleftrightarrow> (\<exists>x. r = Inr x \<and> f x = Inr y)"
  by (cases r) simp_all

lemma and_then_eq_Inl:
  "and_then r f = Inl e \<longleftrightarrow> r = Inl e \<or> (\<exists>x. r = Inr x \<and> f x = Inl e)"
  by (cases r) simp_all

lemma and_then_assoc: "and_then (and_then r f) g = and_then r (\<lambda>x. and_then (f x) g)"
  by (cases r) simp_all

lemma and_then_cong [fundef_cong]:
  "r = r' \<Longrightarrow> (\<And>x. r' = Inr x \<Longrightarrow> f x = f' x) \<Longrightarrow> and_then r f = and_then r' f'"
  by (cases r') (simp_all)

text \<open>Whatever a computation returns satisfies \<open>P\<close>; one rule for each way to compute.\<close>

definition returns :: "('a \<Rightarrow> bool) \<Rightarrow> 'a option outcome \<Rightarrow> bool" where
  "returns P r \<longleftrightarrow> (\<forall>x. r = Inr (Some x) \<longrightarrow> P x)"

lemma returns_rules:
  "returns P (Inr None)"
  "P x \<Longrightarrow> returns P (Inr (Some x))"
  "(\<And>x. returns P (f x)) \<Longrightarrow> returns P (and_then r f)"
  "(c \<Longrightarrow> returns P r1) \<Longrightarrow> (\<not> c \<Longrightarrow> returns P r2) \<Longrightarrow> returns P (if c then r1 else r2)"
  "returns P r1 \<Longrightarrow> (\<And>x. returns P (g x)) \<Longrightarrow> returns P (case y of None \<Rightarrow> r1 | Some x \<Rightarrow> g x)"
  by (auto simp: returns_def and_then_eq_Inr split: option.splits)

text \<open>Reading through a pointer: NULL and freed addresses fault.\<close>

definition deref :: "('a \<rightharpoonup> 'b) \<Rightarrow> 'a option \<Rightarrow> 'b outcome" where
  "deref h p =
     (case p of
        None \<Rightarrow> Inl Null_Deref
      | Some a \<Rightarrow> (case h a of None \<Rightarrow> Inl Dangling | Some x \<Rightarrow> Inr x))"

lemma deref_None [simp]: "deref h None = Inl Null_Deref"
  by (simp add: deref_def)

lemma deref_Some [simp]: "h a = Some x \<Longrightarrow> deref h (Some a) = Inr x"
  by (simp add: deref_def)

lemma deref_dangling [simp]: "h a = None \<Longrightarrow> deref h (Some a) = Inl Dangling"
  by (simp add: deref_def)

lemma deref_eq_Inr: "deref h p = Inr x \<longleftrightarrow> (\<exists>a. p = Some a \<and> h a = Some x)"
  by (auto simp: deref_def split: option.splits)


subsection \<open>Bytes and the layout of integers in memory\<close>

text \<open>
  The library is written for little-endian Linux targets: an integer of type
  \<open>uint16_t\<close>, \<open>uint64_t\<close>, \<open>size_t\<close> is copied into a buffer with its least
  significant byte first. Only the length header of a message is in network order.
\<close>

type_synonym byte = "8 word"

definition le16 :: "16 word \<Rightarrow> byte list" where
  "le16 w = [ucast w, ucast (drop_bit 8 w)]"

definition le32 :: "32 word \<Rightarrow> byte list" where
  "le32 w = [ucast w, ucast (drop_bit 8 w), ucast (drop_bit 16 w), ucast (drop_bit 24 w)]"

definition le64 :: "64 word \<Rightarrow> byte list" where
  "le64 w = le32 (ucast w) @ le32 (ucast (drop_bit 32 w))"

fun of_le16 :: "byte list \<Rightarrow> 16 word" where
  "of_le16 (a # b # bs) = ucast a OR push_bit 8 (ucast b)"
| "of_le16 bs = 0"

fun of_le32 :: "byte list \<Rightarrow> 32 word" where
  "of_le32 (a # b # c # d # bs) =
     ucast a OR push_bit 8 (ucast b) OR push_bit 16 (ucast c) OR push_bit 24 (ucast d)"
| "of_le32 bs = 0"

definition of_le64 :: "byte list \<Rightarrow> 64 word" where
  "of_le64 bs = ucast (of_le32 bs) OR push_bit 32 (ucast (of_le32 (drop 4 bs)))"

definition htonl :: "32 word \<Rightarrow> 32 word" where
  "htonl w = of_le32 (rev (le32 w))"

lemma length_le [simp]: "length (le16 w) = 2" "length (le32 v) = 4" "length (le64 u) = 8"
  by (simp_all add: le16_def le32_def le64_def)

lemma le_not_Nil [simp]: "le16 w \<noteq> []" "le32 v \<noteq> []" "le64 u \<noteq> []"
  by (simp_all add: le16_def le32_def le64_def)

lemma of_le16_le16 [simp]: "of_le16 (le16 w @ bs) = w"
  by (rule bit_word_eqI) (auto simp: le16_def bit_simps not_less)

lemma of_le32_le32 [simp]: "of_le32 (le32 w @ bs) = w"
proof (rule bit_word_eqI)
  fix n assume n: "n < LENGTH(32)"
  consider "n < 8" | "8 \<le> n" "n < 16" | "16 \<le> n" "n < 24" | "24 \<le> n" by linarith
  then show "bit (of_le32 (le32 w @ bs)) n = bit w n"
    using n by cases (auto simp: le32_def bit_simps)
qed

lemma of_le32_le32_Nil [simp]: "of_le32 (le32 w) = w"
  using of_le32_le32 [of w "[]"] by simp

lemma of_le64_le64 [simp]: "of_le64 (le64 w @ bs) = w"
  by (rule bit_word_eqI) (auto simp: of_le64_def le64_def bit_simps not_less)

lemma bit_byte_high [simp]: "8 \<le> n \<Longrightarrow> \<not> bit (b :: byte) n"
  by (auto dest: bit_imp_le_length)

lemma htonl_bytes: "le32 (htonl w) = rev (le32 w)"
proof -
  have "le32 (of_le32 [a, b, c, d]) = [a, b, c, d]" for a b c d
    by (auto simp: le32_def bit_simps intro!: bit_word_eqI)
  then show ?thesis by (simp add: htonl_def le32_def)
qed

lemma htonl_htonl [simp]: "htonl (htonl w) = w"
proof -
  have "htonl (htonl w) = of_le32 (rev (rev (le32 w)))"
    by (simp only: htonl_def [of "htonl w"] htonl_bytes)
  then show ?thesis by simp
qed


subsection \<open>Text\<close>

text \<open>A C string is its characters up to, and without, the terminating NUL.\<close>

abbreviation NUL :: char where
  "NUL \<equiv> CHR 0x00"

definition bytes_of :: "string \<Rightarrow> byte list" where
  "bytes_of s = map of_char s"

definition text_of :: "byte list \<Rightarrow> string" where
  "text_of bs = map (\<lambda>b. char_of (unat b)) bs"

lemma char_of_unat_of_char [simp]: "char_of (unat (of_char c :: byte)) = c"
proof -
  have "(of_char c :: byte) = of_nat (of_char c)"
    by (simp add: of_nat_of_char)
  moreover have "(of_char c :: nat) < 256"
    by simp
  ultimately have "unat (of_char c :: byte) = of_char c"
    by (simp add: unat_of_nat)
  then show ?thesis by simp
qed

lemma of_char_char_of_unat [simp]: "of_char (char_of (unat (b :: byte))) = b"
proof -
  have "unat b < 256"
    by (rule less_le_trans [OF unsigned_less]) simp
  then have *: "(of_char (char_of (unat b)) :: nat) = unat b" by simp
  have "(of_char (char_of (unat b)) :: byte) = of_nat (of_char (char_of (unat b)))"
    by (simp only: of_nat_of_char)
  also have "\<dots> = b" unfolding * by simp
  finally show ?thesis .
qed

lemma text_of_bytes_of [simp]: "text_of (bytes_of s) = s"
  by (simp add: text_of_def bytes_of_def comp_def)

lemma bytes_of_text_of [simp]: "bytes_of (text_of bs) = bs"
  by (simp add: text_of_def bytes_of_def comp_def)

lemma length_bytes_of [simp]: "length (bytes_of s) = length s"
  by (simp add: bytes_of_def)

lemma length_text_of [simp]: "length (text_of bs) = length bs"
  by (simp add: text_of_def)

definition c_string :: "string \<Rightarrow> string" where
  "c_string buf = takeWhile (\<lambda>c. c \<noteq> NUL) buf"

lemma c_string_id [simp]: "NUL \<notin> set s \<Longrightarrow> c_string s = s"
  by (auto simp: c_string_def takeWhile_eq_all_conv)

end
