(* ===== verification/Lists.thy ===== *)
theory Lists
  imports Prelude
begin

section \<open>Intrusive doubly linked lists (src/src/list.c, src/src/list.h)\<close>

text \<open>
  A \<open>node_t\<close> lives inside a client's structure; here a node is a cell of a store indexed by
  addresses, \<open>None\<close> being an address that is not allocated. Every operation follows the C
  statements in their order and faults where the C code would dereference NULL or memory
  that is not there. \<open>dll h l xs\<close> is the abstraction: the list header \<open>l\<close> in store
  \<open>h\<close> holds exactly the nodes \<open>xs\<close>, in this order, correctly linked both ways.
  The other theories use the abstract sequences that this theory justifies: push is
  append, remove deletes the one occurrence, iteration visits the nodes in order.
\<close>

type_synonym addr = nat

record node =
  node_prev :: "addr option"
  node_next :: "addr option"

record dlist =
  dl_head :: "addr option"
  dl_tail :: "addr option"

type_synonym node_heap = "addr \<rightharpoonup> node"

definition set_prev :: "addr option \<Rightarrow> addr option \<Rightarrow> node_heap \<Rightarrow> node_heap outcome" where
  "set_prev p q h = and_then (deref h p) (\<lambda>n. Inr (h(the p \<mapsto> n\<lparr>node_prev := q\<rparr>)))"

definition set_next :: "addr option \<Rightarrow> addr option \<Rightarrow> node_heap \<Rightarrow> node_heap outcome" where
  "set_next p q h = and_then (deref h p) (\<lambda>n. Inr (h(the p \<mapsto> n\<lparr>node_next := q\<rparr>)))"

definition list_init :: dlist where
  "list_init = \<lparr>dl_head = None, dl_tail = None\<rparr>"

definition list_empty :: "dlist \<Rightarrow> bool" where
  "list_empty l \<longleftrightarrow> dl_head l = None"

definition list_push :: "dlist \<Rightarrow> addr option \<Rightarrow> node_heap \<Rightarrow> (dlist \<times> node_heap) outcome" where
  "list_push l nd h =
     (if nd = None then Inr (l, h)
      else if list_empty l then
        and_then (set_next nd None h) (\<lambda>h1.
        and_then (set_prev nd None h1) (\<lambda>h2.
        Inr (\<lparr>dl_head = nd, dl_tail = nd\<rparr>, h2)))
      else
        and_then (set_prev nd (dl_tail l) h) (\<lambda>h1.
        and_then (set_next nd None h1) (\<lambda>h2.
        and_then (set_next (dl_tail l) nd h2) (\<lambda>h3.
        Inr (l\<lparr>dl_tail := nd\<rparr>, h3)))))"

definition list_pop ::
  "dlist \<Rightarrow> node_heap \<Rightarrow> (addr option \<times> dlist \<times> node_heap) outcome" where
  "list_pop l h =
     (let nd = dl_tail l in
      if list_empty l then Inr (None, l, h)
      else
        and_then (deref h nd) (\<lambda>n.
        and_then
          (if node_prev n \<noteq> None
           then and_then (set_next (node_prev n) None h) (\<lambda>h1.
                  Inr (l\<lparr>dl_tail := node_prev n\<rparr>, h1))
           else Inr (\<lparr>dl_head = None, dl_tail = None\<rparr>, h)) (\<lambda>(l', h1).
        and_then (set_prev nd None h1) (\<lambda>h2.
        and_then (set_next nd None h2) (\<lambda>h3.
        Inr (nd, l', h3))))))"

definition list_remove :: "dlist \<Rightarrow> addr option \<Rightarrow> node_heap \<Rightarrow> (dlist \<times> node_heap) outcome" where
  "list_remove l nd h =
     and_then (deref h nd) (\<lambda>n.
     and_then
       (if node_prev n \<noteq> None
        then and_then (set_next (node_prev n) (node_next n) h) (\<lambda>h1. Inr (l, h1))
        else Inr (l\<lparr>dl_head := node_next n\<rparr>, h)) (\<lambda>(l1, h1).
     and_then
       (if node_next n \<noteq> None
        then and_then (set_prev (node_next n) (node_prev n) h1) (\<lambda>h2. Inr (l1, h2))
        else Inr (l1\<lparr>dl_tail := node_prev n\<rparr>, h1)) (\<lambda>(l2, h2).
     and_then (set_prev nd None h2) (\<lambda>h3.
     and_then (set_next nd None h3) (\<lambda>h4.
     Inr (l2, h4))))))"

text \<open>
  An iterator is a heap cell that malloc may refuse: \<open>None\<close> is the NULL iterator, which
  \<open>iterator_next\<close> dereferences without a check.
\<close>

definition iterator_new :: "bool \<Rightarrow> dlist \<Rightarrow> addr option option" where
  "iterator_new malloc_ok l = (if malloc_ok then Some (dl_head l) else None)"

definition iterator_next ::
  "addr option option \<Rightarrow> node_heap \<Rightarrow> (addr option \<times> addr option option) outcome" where
  "iterator_next it h =
     (case it of
        None \<Rightarrow> Inl Null_Deref
      | Some cur \<Rightarrow>
          (if cur = None then Inr (None, it)
           else and_then (deref h cur) (\<lambda>n. Inr (cur, Some (node_next n)))))"

text \<open>
  \<open>list_each\<close>: the body gets the node and the caller's variables; it answers whether
  the loop goes on (\<open>False\<close>: the body left the loop with break or return).
\<close>

partial_function (option) list_each ::
  "(addr \<Rightarrow> 's \<Rightarrow> bool \<times> 's) \<Rightarrow> addr option option \<Rightarrow> node_heap \<Rightarrow> 's \<Rightarrow> 's outcome option"
where
  "list_each body it h s =
     (case iterator_next it h of
        Inl e \<Rightarrow> Some (Inl e)
      | Inr (cur, it') \<Rightarrow>
          (case cur of
             None \<Rightarrow> Some (Inr s)
           | Some a \<Rightarrow>
               (case body a s of
                  (go_on, s') \<Rightarrow> if go_on then list_each body it' h s' else Some (Inr s'))))"


subsection \<open>The abstraction\<close>

definition first_of :: "addr option \<Rightarrow> addr list \<Rightarrow> addr option" where
  "first_of q xs = (case xs of [] \<Rightarrow> q | x # _ \<Rightarrow> Some x)"

definition last_of :: "addr option \<Rightarrow> addr list \<Rightarrow> addr option" where
  "last_of p xs = (if xs = [] then p else Some (last xs))"

fun seg :: "node_heap \<Rightarrow> addr option \<Rightarrow> addr list \<Rightarrow> addr option \<Rightarrow> bool" where
  "seg h p [] q \<longleftrightarrow> True"
| "seg h p (x # xs) q \<longleftrightarrow>
     h x = Some \<lparr>node_prev = p, node_next = first_of q xs\<rparr> \<and> seg h (Some x) xs q"

definition dll :: "node_heap \<Rightarrow> dlist \<Rightarrow> addr list \<Rightarrow> bool" where
  "dll h l xs \<longleftrightarrow>
     dl_head l = first_of None xs \<and> dl_tail l = last_of None xs \<and>
     seg h None xs None \<and> distinct xs"

text \<open>What iteration over the abstract sequence computes.\<close>

fun visit :: "('a \<Rightarrow> 's \<Rightarrow> bool \<times> 's) \<Rightarrow> 'a list \<Rightarrow> 's \<Rightarrow> 's" where
  "visit body [] s = s"
| "visit body (x # xs) s =
     (case body x s of (go_on, s') \<Rightarrow> if go_on then visit body xs s' else s')"

lemma first_of_simps [simp]:
  "first_of q [] = q" "first_of q (x # xs) = Some x"
  "first_of q (xs @ ys) = first_of (first_of q ys) xs"
  by (simp_all add: first_of_def split: list.split)

lemma first_of_Some [simp]: "first_of (Some t) xs \<noteq> None" "\<exists>y. first_of (Some t) xs = Some y"
  by (simp_all add: first_of_def split: list.split)

lemma last_of_simps [simp]:
  "last_of p [] = p" "last_of p (xs @ [x]) = Some x" "last_of p (x # xs) = last_of (Some x) xs"
  by (simp_all add: last_of_def)

lemma last_of_append [simp]: "last_of p (xs @ ys) = last_of (last_of p xs) ys"
  by (simp add: last_of_def)

lemma seg_append [simp]:
  "seg h p (xs @ ys) q \<longleftrightarrow> seg h p xs (first_of q ys) \<and> seg h (last_of p xs) ys q"
  by (induction xs arbitrary: p) auto

lemma seg_update [simp]: "a \<notin> set xs \<Longrightarrow> seg (h(a := v)) p xs q = seg h p xs q"
  by (induction xs arbitrary: p) auto

lemma seg_allocated: "seg h p xs q \<Longrightarrow> x \<in> set xs \<Longrightarrow> h x \<noteq> None"
  by (induction xs arbitrary: p) auto

lemma dll_Nil [simp]: "dll h l [] \<longleftrightarrow> l = list_init"
  by (cases l) (auto simp: dll_def list_init_def)

lemma dll_empty_iff: "dll h l xs \<Longrightarrow> list_empty l \<longleftrightarrow> xs = []"
  by (cases xs) (auto simp: dll_def list_empty_def)

lemma dll_frame: "dll h l xs \<Longrightarrow> a \<notin> set xs \<Longrightarrow> dll (h(a := v)) l xs"
  by (simp add: dll_def)

lemmas list_op_defs =
  list_push_def list_pop_def list_remove_def set_prev_def set_next_def list_empty_def Let_def


subsection \<open>Every operation implements the one on sequences\<close>

definition same_cells :: "node_heap \<Rightarrow> node_heap \<Rightarrow> addr set \<Rightarrow> bool" where
  "same_cells h h' A \<longleftrightarrow> dom h' = dom h \<and> (\<forall>b. b \<notin> A \<longrightarrow> h' b = h b)"

lemma list_push_refines:
  assumes "dll h l xs" and "h a \<noteq> None" and "a \<notin> set xs"
  shows "\<exists>l' h'. list_push l (Some a) h = Inr (l', h') \<and> dll h' l' (xs @ [a]) \<and>
           same_cells h h' (insert a (set xs))"
proof (cases xs rule: rev_cases)
  case Nil
  with assms show ?thesis
    by (auto simp: list_op_defs dll_def list_init_def deref_def same_cells_def)
next
  case (snoc ys t)
  with assms show ?thesis
    by (auto simp: list_op_defs dll_def deref_def same_cells_def)
qed

lemma list_pop_refines:
  assumes "dll h l (xs @ [a])"
  shows "\<exists>l' h'. list_pop l h = Inr (Some a, l', h') \<and> dll h' l' xs \<and>
           h' a = Some \<lparr>node_prev = None, node_next = None\<rparr> \<and>
           same_cells h h' (insert a (set xs))"
proof (cases xs rule: rev_cases)
  case Nil
  with assms show ?thesis
    by (auto simp: list_op_defs dll_def list_init_def same_cells_def)
next
  case (snoc ys t)
  with assms show ?thesis
    by (auto simp: list_op_defs dll_def same_cells_def)
qed

lemma list_pop_Nil: "dll h l [] \<Longrightarrow> list_pop l h = Inr (None, l, h)"
  by (simp add: list_op_defs list_init_def)

lemma list_remove_refines:
  assumes "dll h l (xs @ a # ys)"
  shows "\<exists>l' h'. list_remove l (Some a) h = Inr (l', h') \<and> dll h' l' (xs @ ys) \<and>
           h' a = Some \<lparr>node_prev = None, node_next = None\<rparr> \<and>
           same_cells h h' (insert a (set xs \<union> set ys))"
proof (cases xs rule: rev_cases)
  case Nil
  with assms show ?thesis
    by (cases ys) (auto simp: list_op_defs dll_def list_init_def same_cells_def)
next
  case (snoc zs t)
  with assms show ?thesis
    by (cases ys) (auto simp: list_op_defs dll_def same_cells_def)
qed

lemma list_each_visit:
  "seg h p xs None \<Longrightarrow>
   list_each body (Some (first_of None xs)) h s = Some (Inr (visit body xs s))"
proof (induction xs arbitrary: p s)
  case Nil
  show ?case by (subst list_each.simps) (simp add: iterator_next_def)
next
  case (Cons x xs)
  then show ?case
    by (subst list_each.simps) (auto simp: iterator_next_def split: prod.splits)
qed


subsection \<open>The interface the clients use\<close>

text \<open>
  The clients (the descriptor table, the loopback list, the daemon's domains and
  interfaces, the argument lists of the command line) see a list as a sequence of nodes:
  \<open>holds st xs\<close> says that state \<open>st\<close> stores sequence \<open>xs\<close>, \<open>cell st a\<close> that
  node \<open>a\<close> is allocated.
\<close>

locale node_sequence =
  fixes holds :: "'st \<Rightarrow> 'a list \<Rightarrow> bool"
    and cell :: "'st \<Rightarrow> 'a \<Rightarrow> bool"
    and push :: "'a \<Rightarrow> 'st \<Rightarrow> 'st outcome"
    and pop :: "'st \<Rightarrow> ('a option \<times> 'st) outcome"
    and unlink :: "'a \<Rightarrow> 'st \<Rightarrow> 'st outcome"
  assumes push_law: "holds st xs \<Longrightarrow> cell st a \<Longrightarrow> a \<notin> set xs \<Longrightarrow>
      \<exists>st'. push a st = Inr st' \<and> holds st' (xs @ [a]) \<and> cell st' = cell st"
    and pop_Nil_law: "holds st [] \<Longrightarrow> pop st = Inr (None, st)"
    and pop_law: "holds st (xs @ [a]) \<Longrightarrow>
      \<exists>st'. pop st = Inr (Some a, st') \<and> holds st' xs \<and> cell st' = cell st"
    and unlink_law: "holds st (xs @ a # ys) \<Longrightarrow>
      \<exists>st'. unlink a st = Inr st' \<and> holds st' (xs @ ys) \<and> cell st' = cell st"
    and holds_distinct: "holds st xs \<Longrightarrow> distinct xs"

text \<open>The two loops over the interface: pushing nodes in turn, and popping until empty.\<close>

fun push_all :: "('a \<Rightarrow> 'st \<Rightarrow> 'st outcome) \<Rightarrow> 'a list \<Rightarrow> 'st \<Rightarrow> 'st outcome" where
  "push_all push [] st = Inr st"
| "push_all push (a # as) st = and_then (push a st) (push_all push as)"

partial_function (option) pop_all ::
  "('st \<Rightarrow> ('a option \<times> 'st) outcome) \<Rightarrow> 'st \<Rightarrow> 'a list \<Rightarrow> ('a list \<times> 'st) outcome option"
where
  "pop_all pop st acc =
     (case pop st of
        Inl e \<Rightarrow> Some (Inl e)
      | Inr (r, st') \<Rightarrow>
          (case r of
             None \<Rightarrow> Some (Inr (acc, st'))
           | Some a \<Rightarrow> pop_all pop st' (acc @ [a])))"

context node_sequence
begin

lemma push_all_appends:
  "holds st xs \<Longrightarrow> \<forall>a \<in> set as. cell st a \<Longrightarrow> distinct (xs @ as) \<Longrightarrow>
   \<exists>st'. push_all push as st = Inr st' \<and> holds st' (xs @ as) \<and> cell st' = cell st"
proof (induction as arbitrary: st xs)
  case Nil
  then show ?case by simp
next
  case (Cons a as)
  then obtain st1 where st1: "push a st = Inr st1" "holds st1 (xs @ [a])" "cell st1 = cell st"
    using push_law [of st xs a] by auto
  with Cons.prems have "\<forall>b \<in> set as. cell st1 b" "distinct ((xs @ [a]) @ as)" by auto
  from Cons.IH [OF st1(2) this] st1 show ?case by auto
qed

lemma pop_all_drains:
  "holds st xs \<Longrightarrow>
   \<exists>st'. pop_all pop st acc = Some (Inr (acc @ rev xs, st')) \<and> holds st' [] \<and> cell st' = cell st"
proof (induction xs arbitrary: st acc rule: rev_induct)
  case Nil
  then show ?case by (subst pop_all.simps) (simp add: pop_Nil_law)
next
  case (snoc a xs)
  then obtain st1 where st1: "pop st = Inr (Some a, st1)" "holds st1 xs" "cell st1 = cell st"
    using pop_law by blast
  from snoc.IH [OF st1(2), of "acc @ [a]"] st1 show ?case by (subst pop_all.simps) simp
qed

lemma unlink_removes:
  assumes "holds st xs" "a \<in> set xs"
  shows "\<exists>st'. unlink a st = Inr st' \<and> holds st' (remove1 a xs) \<and> cell st' = cell st"
proof -
  obtain ys zs where "xs = ys @ a # zs" "a \<notin> set ys"
    using assms(2) by (meson split_list_first)
  with assms(1) unlink_law show ?thesis by (auto simp: remove1_append)
qed

end

abbreviation dl_holds :: "dlist \<times> node_heap \<Rightarrow> addr list \<Rightarrow> bool" where
  "dl_holds st xs \<equiv> dll (snd st) (fst st) xs"

abbreviation dl_cell :: "dlist \<times> node_heap \<Rightarrow> addr \<Rightarrow> bool" where
  "dl_cell st a \<equiv> a \<in> dom (snd st)"

abbreviation dl_push :: "addr \<Rightarrow> dlist \<times> node_heap \<Rightarrow> (dlist \<times> node_heap) outcome" where
  "dl_push a st \<equiv> list_push (fst st) (Some a) (snd st)"

abbreviation dl_pop :: "dlist \<times> node_heap \<Rightarrow> (addr option \<times> dlist \<times> node_heap) outcome" where
  "dl_pop st \<equiv> list_pop (fst st) (snd st)"

abbreviation dl_unlink :: "addr \<Rightarrow> dlist \<times> node_heap \<Rightarrow> (dlist \<times> node_heap) outcome" where
  "dl_unlink a st \<equiv> list_remove (fst st) (Some a) (snd st)"

interpretation dl: node_sequence dl_holds dl_cell dl_push dl_pop dl_unlink
proof unfold_locales
  fix st :: "dlist \<times> node_heap" and xs ys a
  show "\<exists>st'. dl_push a st = Inr st' \<and> dl_holds st' (xs @ [a]) \<and> dl_cell st' = dl_cell st"
    if "dl_holds st xs" "dl_cell st a" "a \<notin> set xs"
    using list_push_refines [of "snd st" "fst st" xs a] that
    by (fastforce simp: same_cells_def)
  show "dl_pop st = Inr (None, st)" if "dl_holds st []"
    using list_pop_Nil [of "snd st" "fst st"] that by (cases st) simp
  show "\<exists>st'. dl_pop st = Inr (Some a, st') \<and> dl_holds st' xs \<and> dl_cell st' = dl_cell st"
    if "dl_holds st (xs @ [a])"
    using list_pop_refines [OF that] by (fastforce simp: same_cells_def)
  show "\<exists>st'. dl_unlink a st = Inr st' \<and> dl_holds st' (xs @ ys) \<and> dl_cell st' = dl_cell st"
    if "dl_holds st (xs @ a # ys)"
    using list_remove_refines [OF that] by (fastforce simp: same_cells_def)
  show "distinct xs" if "dl_holds st xs"
    using that by (simp add: dll_def)
qed


subsection \<open>What the list promises\<close>

text \<open>
  C24: nodes pushed one after the other onto an empty list are visited by \<open>list_each\<close> in
  the order they were pushed, each exactly once, and the loop ends; popping until the list is
  empty hands them back in reverse order.
\<close>

theorem list_push_order:
  assumes "distinct as" and "set as \<subseteq> dom h"
  shows "\<exists>l h' st. push_all dl_push as (list_init, h) = Inr (l, h') \<and>
           list_each (\<lambda>a seen. (True, seen @ [a])) (iterator_new True l) h' [] = Some (Inr as) \<and>
           pop_all dl_pop (l, h') [] = Some (Inr (rev as, st)) \<and> fst st = list_init"
proof -
  have visit: "visit (\<lambda>a seen. (True, seen @ [a])) xs s = s @ xs" for xs s :: "addr list"
    by (induction xs arbitrary: s) auto
  obtain l h' where st: "push_all dl_push as (list_init, h) = Inr (l, h')" "dll h' l as"
    using dl.push_all_appends [of "(list_init, h)" "[]" as] assms by fastforce
  then have "list_each (\<lambda>a seen. (True, seen @ [a])) (iterator_new True l) h' [] = Some (Inr as)"
    using list_each_visit [of h' None as "\<lambda>a seen. (True, seen @ [a])" "[]"]
    by (simp add: dll_def iterator_new_def visit)
  moreover obtain st' where pop: "pop_all dl_pop (l, h') [] = Some (Inr (rev as, st'))"
      and "dl_holds st' []"
    using dl.pop_all_drains [of "(l, h')" as "[]"] st(2) by auto
  then have "fst st' = list_init" by simp
  ultimately show ?thesis using st(1) pop by blast
qed

theorem list_push_order_witness:
  "\<exists>l h' st. push_all dl_push [7, 3]
       (list_init, [3 \<mapsto> \<lparr>node_prev = None, node_next = None\<rparr>,
                    7 \<mapsto> \<lparr>node_prev = Some 9, node_next = None\<rparr>]) = Inr (l, h') \<and>
     list_each (\<lambda>a seen. (True, seen @ [a])) (iterator_new True l) h' [] = Some (Inr [7, 3]) \<and>
     pop_all dl_pop (l, h') [] = Some (Inr (rev [7, 3], st)) \<and> fst st = list_init"
  by (rule list_push_order) simp_all

text \<open>
  Removing a member of a well-formed list succeeds: the walk from the new head visits the
  other members in their old order, the removed node no longer points into the list, and no
  node outside the list is touched.
\<close>

theorem list_remove_member:
  assumes "dll h l xs" and "a \<in> set xs"
  shows "\<exists>l' h'. list_remove l (Some a) h = Inr (l', h') \<and> dll h' l' (remove1 a xs) \<and>
           list_each (\<lambda>b seen. (True, seen @ [b])) (iterator_new True l') h' [] =
             Some (Inr (remove1 a xs)) \<and>
           h' a = Some \<lparr>node_prev = None, node_next = None\<rparr> \<and>
           (\<forall>b. b \<notin> set xs \<longrightarrow> h' b = h b)"
proof -
  have visit: "visit (\<lambda>b seen. (True, seen @ [b])) xs s = s @ xs" for xs s :: "addr list"
    by (induction xs arbitrary: s) auto
  obtain ys zs where xs: "xs = ys @ a # zs" "a \<notin> set ys"
    using assms(2) by (meson split_list_first)
  then obtain l' h' where r: "list_remove l (Some a) h = Inr (l', h')" "dll h' l' (ys @ zs)"
      "h' a = Some \<lparr>node_prev = None, node_next = None\<rparr>"
      "same_cells h h' (insert a (set ys \<union> set zs))"
    using list_remove_refines assms(1) by blast
  moreover have "list_each (\<lambda>b seen. (True, seen @ [b])) (iterator_new True l') h' [] =
      Some (Inr (ys @ zs))"
    using list_each_visit [of h' None "ys @ zs" "\<lambda>b seen. (True, seen @ [b])" "[]"] r(2)
    by (simp add: dll_def iterator_new_def visit)
  ultimately show ?thesis using xs by (auto simp: same_cells_def remove1_append)
qed

theorem list_remove_member_witness:
  "\<exists>l' h'. list_remove \<lparr>dl_head = Some 1, dl_tail = Some 2\<rparr> (Some 1)
       [1 \<mapsto> \<lparr>node_prev = None, node_next = Some 2\<rparr>,
        2 \<mapsto> \<lparr>node_prev = Some 1, node_next = None\<rparr>] = Inr (l', h') \<and>
     dll h' l' [2]"
  using list_remove_member
    [of "[1 \<mapsto> \<lparr>node_prev = None, node_next = Some 2\<rparr>,
          2 \<mapsto> \<lparr>node_prev = Some 1, node_next = None\<rparr>]"
        "\<lparr>dl_head = Some 1, dl_tail = Some 2\<rparr>" "[1, 2]" 1]
  by (auto simp: dll_def)

end
