(* ===== verification/Text.thy ===== *)
theory Text
  imports Prelude "HOL-Library.Char_ord"
begin

section \<open>C strings, sscanf and strtol as the sources use them\<close>

text \<open>
  A string argument is its characters without the terminating NUL. \<open>sscanf\<close> is modelled by
  one function per conversion that the sources use, composed in the order of the format: each
  returns what was converted and the rest of the input, or \<open>None\<close> when nothing matched, which
  ends the scan and leaves the remaining variables as they were. A conversion without a width
  into an array of \<open>n\<close> characters overflows it when it yields \<open>n\<close> characters or more
  (\<open>fit\<close>).
\<close>

definition scan_not :: "string \<Rightarrow> string \<Rightarrow> (string \<times> string) option" where
  "scan_not stops s =
     (let t = takeWhile (\<lambda>c. c \<notin> set stops) s
      in if t = [] then None else Some (t, drop (length t) s))"

definition scan_not_width :: "nat \<Rightarrow> string \<Rightarrow> string \<Rightarrow> (string \<times> string) option" where
  "scan_not_width w stops s =
     (let t = take w (takeWhile (\<lambda>c. c \<notin> set stops) s)
      in if t = [] then None else Some (t, drop (length t) s))"

fun scan_lit :: "string \<Rightarrow> string \<Rightarrow> string option" where
  "scan_lit [] s = Some s"
| "scan_lit (p # ps) (c # cs) = (if p = c then scan_lit ps cs else None)"
| "scan_lit (p # ps) [] = None"

definition fit :: "nat \<Rightarrow> string \<Rightarrow> string outcome" where
  "fit n s = (if length s < n then Inr s else Inl Out_Of_Bounds)"

definition isspace :: "char \<Rightarrow> bool" where
  "isspace c \<longleftrightarrow> c \<in> {CHR '' '', CHR 0x09, CHR 0x0A, CHR 0x0B, CHR 0x0C, CHR 0x0D}"

definition digit :: "char \<Rightarrow> nat option" where
  "digit c =
     (let n = of_char c :: nat in
      if 48 \<le> n \<and> n \<le> 57 then Some (n - 48)
      else if 97 \<le> n \<and> n \<le> 122 then Some (n - 87)
      else if 65 \<le> n \<and> n \<le> 90 then Some (n - 55)
      else None)"

definition digit_in :: "nat \<Rightarrow> char \<Rightarrow> bool" where
  "digit_in b c = (case digit c of None \<Rightarrow> False | Some d \<Rightarrow> d < b)"

fun digits_val :: "nat \<Rightarrow> nat \<Rightarrow> string \<Rightarrow> nat" where
  "digits_val b acc [] = acc"
| "digits_val b acc (c # cs) =
     digits_val b (acc * b + (case digit c of None \<Rightarrow> 0 | Some d \<Rightarrow> d)) cs"

text \<open>
  The subject sequence of \<open>strtol\<close>: optional white space, an optional sign, and the longest
  run of digits of the base: the sign and the digits, with what follows.
\<close>

definition scan_sign :: "string \<Rightarrow> bool \<times> string" where
  "scan_sign s =
     (case dropWhile isspace s of
        [] \<Rightarrow> (False, [])
      | c # cs \<Rightarrow> (if c = CHR ''-'' then (True, cs) else if c = CHR ''+'' then (False, cs)
                  else (False, c # cs)))"

definition scan_num :: "nat \<Rightarrow> string \<Rightarrow> (int \<times> string) option" where
  "scan_num b s =
     (case scan_sign s of
        (neg, t) \<Rightarrow>
          (let ds = takeWhile (digit_in b) t
           in if ds = [] then None
              else Some ((if neg then - int (digits_val b 0 ds) else int (digits_val b 0 ds)),
                         drop (length ds) t)))"

text \<open>\<open>strtol(s, NULL, 10)\<close> saturates at the bounds of a \<open>long\<close>; the second component is
  whether it sets \<open>errno\<close> (it does not when there are no digits). \<open>%d\<close> stores the low 32
  bits of the saturated value.\<close>

definition strtol10 :: "string \<Rightarrow> int \<times> bool" where
  "strtol10 s =
     (case scan_num 10 s of
        None \<Rightarrow> (0, False)
      | Some (v, _) \<Rightarrow>
          if v > 2 ^ 63 - 1 then (2 ^ 63 - 1, True)
          else if v < - (2 ^ 63) then (- (2 ^ 63), True)
          else (v, False))"

definition scan_d :: "string \<Rightarrow> (int \<times> string) option" where
  "scan_d s =
     (case scan_num 10 s of
        None \<Rightarrow> None
      | Some (v, rest) \<Rightarrow>
          Some (signed_take_bit 31 (max (- (2 ^ 63)) (min (2 ^ 63 - 1) v)), rest))"

text \<open>\<open>strchr\<close>: what precedes the first occurrence of a character, and what follows it.\<close>

fun split_at :: "char \<Rightarrow> string \<Rightarrow> (string \<times> string) option" where
  "split_at c [] = None"
| "split_at c (d # ds) =
     (if d = c then Some ([], ds) else map_option (\<lambda>(a, b). (d # a, b)) (split_at c ds))"

fun strstr :: "string \<Rightarrow> string \<Rightarrow> bool" where
  "strstr [] pat = (pat = [])"
| "strstr (c # cs) pat = (take (length pat) (c # cs) = pat \<or> strstr cs pat)"

definition tolower :: "char \<Rightarrow> char" where
  "tolower c =
     (let n = of_char c :: nat in if 65 \<le> n \<and> n \<le> 90 then char_of (n + 32) else c)"

text \<open>
  \<open>strncpy\<close> into an array of \<open>n\<close> characters pads with NUL, and leaves no terminator when the
  source has \<open>n\<close> characters or more; reading such an array as a string runs over its end.
\<close>

definition strncpy :: "nat \<Rightarrow> string \<Rightarrow> string" where
  "strncpy n s = take n s @ replicate (n - length s) NUL"

definition read_str :: "string \<Rightarrow> string outcome" where
  "read_str buf = (if NUL \<in> set buf then Inr (c_string buf) else Inl Out_Of_Bounds)"

lemma fit_simps [simp]: "length s < n \<Longrightarrow> fit n s = Inr s" "n \<le> length s \<Longrightarrow> fit n s = Inl Out_Of_Bounds"
  by (simp_all add: fit_def)

lemma length_strncpy [simp]: "length (strncpy n s) = n"
  by (simp add: strncpy_def)

lemma read_strncpy:
  assumes "NUL \<notin> set s"
  shows "read_str (strncpy n s) = (if length s < n then Inr s else Inl Out_Of_Bounds)"
proof (cases "length s < n")
  case True
  have "takeWhile (\<lambda>c. c \<noteq> NUL) (s @ replicate (n - length s) NUL) = s"
    using assms by (subst takeWhile_append2) (auto simp: takeWhile_eq_Nil_iff)
  with True show ?thesis by (simp add: read_str_def strncpy_def c_string_def)
next
  case False
  with assms show ?thesis by (auto simp: read_str_def strncpy_def dest: in_set_takeD)
qed

lemma split_at_None: "split_at c s = None \<longleftrightarrow> c \<notin> set s"
  by (induction s) auto

lemma split_at_append: "c \<notin> set a \<Longrightarrow> split_at c (a @ c # b) = Some (a, b)"
  by (induction a) auto

lemma split_at_Some: "split_at c s = Some (a, b) \<longleftrightarrow> s = a @ c # b \<and> c \<notin> set a"
proof
  show "split_at c s = Some (a, b) \<Longrightarrow> s = a @ c # b \<and> c \<notin> set a"
    by (induction s arbitrary: a) (auto split: if_splits)
qed (auto simp: split_at_append)

end
