(* ===== verification/Numbers.thy ===== *)
theory Numbers
  imports Text
begin

section \<open>Numbers as text: printf and strtoul\<close>

text \<open>
  The conversions \<open>%d\<close>, \<open>%u\<close> and \<open>%02x\<close> of \<open>printf\<close> and the function \<open>strtoul\<close>, whose base 0
  stands for 16 after \<open>0x\<close>, for 8 after \<open>0\<close> and for 10 otherwise, and whose base 16 accepts
  \<open>0x\<close>. It saturates at \<open>ULONG_MAX\<close> and negates modulo \<open>2 ^ 64\<close> after a minus sign.
\<close>

definition digit_char :: "nat \<Rightarrow> char" where
  "digit_char d = (if d < 10 then char_of (48 + d) else char_of (87 + d))"

function show_base :: "nat \<Rightarrow> nat \<Rightarrow> string" where
  "show_base b n =
     (if b < 2 \<or> n < b then [digit_char n] else show_base b (n div b) @ [digit_char (n mod b)])"
  by pat_completeness auto
termination
  by (relation "measure snd") (auto intro: div_less_dividend)

declare show_base.simps [simp del]

definition show_d :: "int \<Rightarrow> string" where
  "show_d i = (if i < 0 then CHR ''-'' # show_base 10 (nat (- i)) else show_base 10 (nat i))"

definition show_02x :: "byte \<Rightarrow> string" where
  "show_02x v = (if unat v < 16 then ''0'' else []) @ show_base 16 (unat v)"

definition hex_prefixed :: "string \<Rightarrow> bool" where
  "hex_prefixed t \<longleftrightarrow>
     3 \<le> length t \<and> t ! 0 = CHR ''0'' \<and> (t ! 1 = CHR ''x'' \<or> t ! 1 = CHR ''X'') \<and> digit_in 16 (t ! 2)"

definition base_and_digits :: "nat \<Rightarrow> string \<Rightarrow> nat \<times> string" where
  "base_and_digits b t =
     (if (b = 0 \<or> b = 16) \<and> hex_prefixed t then (16, drop 2 t)
      else if b = 0 then (if t \<noteq> [] \<and> hd t = CHR ''0'' then 8 else 10, t)
      else (b, t))"

definition strtoul :: "nat \<Rightarrow> string \<Rightarrow> 64 word" where
  "strtoul base s =
     (case scan_sign s of
        (neg, t) \<Rightarrow>
          (case base_and_digits base t of
             (b, ds) \<Rightarrow>
               (let v = digits_val b 0 (takeWhile (digit_in b) ds)
                in if v \<ge> 2 ^ 64 then - 1
                   else if neg then - of_nat v else of_nat v)))"

text \<open>The C conversions of an \<open>unsigned long\<close> to \<open>int\<close> and to \<open>uint16_t\<close>.\<close>

definition as_int :: "64 word \<Rightarrow> int" where
  "as_int w = signed_take_bit 31 (uint w)"

definition is_int :: "int \<Rightarrow> bool" where
  "is_int i \<longleftrightarrow> - (2 ^ 31) \<le> i \<and> i < 2 ^ 31"


lemma as_int_is_int: "is_int (as_int w)"
  using signed_take_bit_int_greater_eq_minus_exp [of 31 "uint w"] signed_take_bit_int_less_exp [of 31 "uint w"]
  by (simp add: as_int_def is_int_def)


subsection \<open>Reading what was printed\<close>

lemma digit_char_0 [simp]: "digit_char 0 = CHR ''0''"
proof -
  have "(of_char (digit_char 0) :: nat) = of_char (CHR ''0'')" by (simp add: digit_char_def)
  then show ?thesis by (simp only: of_char_eq_iff)
qed

lemma digit_digit_char: "d < 16 \<Longrightarrow> digit (digit_char d) = Some d"
  by (auto simp: digit_def digit_char_def Let_def)

lemma digit_in_digit_char: "b \<le> 16 \<Longrightarrow> d < b \<Longrightarrow> digit_in b (digit_char d)"
  by (simp add: digit_in_def digit_digit_char)

lemma digits_val_append: "digits_val b acc (xs @ ys) = digits_val b (digits_val b acc xs) ys"
  by (induction xs arbitrary: acc) auto

lemma show_base_digits:
  assumes "2 \<le> b" "b \<le> 16"
  shows "\<forall>c \<in> set (show_base b n). digit_in b c"
  using assms
proof (induction b n rule: show_base.induct)
  case (1 b n)
  then show ?case
    by (subst show_base.simps) (auto simp: digit_in_digit_char)
qed

lemma digits_val_show_base:
  assumes "2 \<le> b" "b \<le> 16"
  shows "digits_val b 0 (show_base b n) = n"
  using assms
proof (induction b n rule: show_base.induct)
  case (1 b n)
  show ?case
  proof (cases "n < b")
    case True
    with 1 show ?thesis by (subst show_base.simps) (simp add: digit_digit_char)
  next
    case False
    with 1 have "digits_val b 0 (show_base b (n div b)) = n div b" by simp
    moreover have "n mod b < 16" using 1 by (meson mod_less_divisor order.strict_trans2 less_le_trans zero_less_numeral)
    ultimately show ?thesis using False 1
      by (subst show_base.simps) (simp add: digits_val_append digit_digit_char)
  qed
qed

lemma show_base_not_Nil [simp]: "show_base b n \<noteq> []"
  by (subst show_base.simps) simp

lemma hd_show_base:
  assumes "2 \<le> b" "b \<le> 16" "0 < n"
  shows "hd (show_base b n) \<noteq> CHR ''0''"
  using assms
proof (induction b n rule: show_base.induct)
  case (1 b n)
  show ?case
  proof (cases "n < b")
    case True
    then have "show_base b n = [digit_char n]" by (subst show_base.simps) simp
    moreover have "digit_char n \<noteq> CHR ''0''"
    proof
      assume "digit_char n = CHR ''0''"
      then have "digit (digit_char n) = Some 0" by (simp add: digit_def)
      with True 1 show False by (simp add: digit_digit_char)
    qed
    ultimately show ?thesis by simp
  next
    case False
    with 1 have "hd (show_base b (n div b)) \<noteq> CHR ''0''" by (simp add: div_greater_zero_iff)
    with False 1 show ?thesis by (subst show_base.simps) (simp add: hd_append)
  qed
qed

lemma digit_not_special:
  assumes "digit_in b c"
  shows "\<not> isspace c" "c \<noteq> CHR ''-''" "c \<noteq> CHR ''+''" "c \<noteq> NUL" "c \<noteq> CHR '' ''"
  using assms by (auto simp: digit_in_def digit_def isspace_def)

lemma takeWhile_all [simp]: "\<forall>c \<in> set s. P c \<Longrightarrow> takeWhile P s = s"
  by (simp add: takeWhile_eq_all_conv)

lemma scan_sign_digits:
  assumes "s \<noteq> []" "\<forall>c \<in> set s. digit_in b c"
  shows "scan_sign s = (False, s)"
proof -
  obtain c cs where s: "s = c # cs" using assms(1) by (cases s) auto
  with assms(2) have "digit_in b c" by simp
  with digit_not_special [OF this] s show ?thesis by (simp add: scan_sign_def)
qed

lemma scan_sign_minus:
  "scan_sign (CHR ''-'' # s) = (True, s)"
  by (simp add: scan_sign_def isspace_def)

lemma show_10_base:
  "base_and_digits 0 (show_base 10 n) = (if n = 0 then 8 else 10, show_base 10 n)"
proof (cases "n = 0")
  case True
  then have "show_base 10 n = [CHR ''0'']"
    by (subst show_base.simps) simp
  with True show ?thesis by (simp add: base_and_digits_def hex_prefixed_def)
next
  case False
  then have "hd (show_base 10 n) \<noteq> CHR ''0''" by (intro hd_show_base) simp_all
  moreover from this have "show_base 10 n ! 0 \<noteq> CHR ''0''"
    by (simp add: hd_conv_nth)
  ultimately show ?thesis using False by (simp add: base_and_digits_def hex_prefixed_def)
qed

lemma show_10_value:
  "digits_val (if n = 0 then 8 else 10) 0
     (takeWhile (digit_in (if n = 0 then 8 else 10)) (show_base 10 n)) = n"
proof (cases "n = 0")
  case True
  have "show_base 10 (0 :: nat) = [CHR ''0'']"
    by (subst show_base.simps) simp
  with True show ?thesis by (simp add: digit_def)
next
  case False
  then show ?thesis using digits_val_show_base [of 10 n] show_base_digits [of 10 n] by simp
qed

lemma strtoul_show_nat:
  assumes "n < 2 ^ 64"
  shows "strtoul 0 (show_base 10 n) = of_nat n"
  using scan_sign_digits [OF show_base_not_Nil show_base_digits, of 10 n] assms
    show_10_value [of n]
  by (simp add: strtoul_def show_10_base)

lemma strtoul_show_d:
  assumes "is_int i"
  shows "as_int (strtoul 0 (show_d i)) = i"
proof -
  have "strtoul 0 (show_d i) = of_int i"
  proof (cases "i < 0")
    case True
    then have "nat (- i) < 2 ^ 64" using assms by (simp add: is_int_def)
    with True show ?thesis
      using scan_sign_minus show_10_value [of "nat (- i)"]
      by (simp add: strtoul_def show_d_def show_10_base)
  next
    case False
    then have "nat i < 2 ^ 64" using assms by (simp add: is_int_def)
    with strtoul_show_nat [OF this] False show ?thesis by (simp add: show_d_def)
  qed
  moreover have "signed_take_bit 31 (take_bit 64 i) = i"
    using assms by (simp add: signed_take_bit_take_bit is_int_def signed_take_bit_int_eq_self)
  ultimately show ?thesis by (simp add: as_int_def unsigned_of_int)
qed

end
