(* ===== verification/Rtemgr_Data.thy ===== *)
theory Rtemgr_Data
  imports Numbers
begin

section \<open>Packets of the route manager (src/src/rtemgr/rtemgr-common.h, librtemgr.c)\<close>

text \<open>
  Client and daemon exchange a \<open>struct rtemgr_managed_data\<close> as YAML text, with the value in
  base64. libyaml and libb64 are not under src/: the emitter is an argument that says, for the
  events emitted so far and the size of the output, whether the last one was accepted
  (\<open>yaml_emits\<close>) and what text they make (\<open>yaml_text\<close>); the parser is an argument that lists
  the events of a text, ending early where \<open>yaml_parser_parse\<close> fails. malloc is \<open>heap\<close>, by
  size. Blocks that are only freed or leaked are not tracked.

  An \<open>int\<close> is an \<open>int\<close> in the range of 32 bits, a character array the list of its characters.
  \<open>interfaces\<close> is NULL when the list is empty; the value \<open>v\<close> is its block, or \<open>None\<close> for NULL.
\<close>

datatype yaml_style = Plain | Double_Quoted | Literal

datatype yaml_event =
    Stream_Start | Document_Start | Mapping_Start | Sequence_Start
  | Scalar yaml_style string | Alias string
  | Mapping_End | Sequence_End | Document_End | Stream_End

record libs =
  heap :: "nat \<Rightarrow> bool"
  yaml_emits :: "nat \<Rightarrow> yaml_event list \<Rightarrow> bool"
  yaml_text :: "yaml_event list \<Rightarrow> byte list"
  yaml_events :: "byte list \<Rightarrow> yaml_event list"
  b64_encode :: "byte list \<Rightarrow> string"
  b64_decode :: "string \<Rightarrow> byte list"

abbreviation (input) RTECMD_LIST :: int where "RTECMD_LIST \<equiv> 1"
abbreviation (input) RTECMD_OPEN :: int where "RTECMD_OPEN \<equiv> 2"
abbreviation (input) RTECMD_CLOSE :: int where "RTECMD_CLOSE \<equiv> 3"
abbreviation (input) RTECMD_ROUTE :: int where "RTECMD_ROUTE \<equiv> 4"
abbreviation (input) RTECMD_FORGET :: int where "RTECMD_FORGET \<equiv> 5"
abbreviation (input) RTECMD_XFER :: int where "RTECMD_XFER \<equiv> 6"
abbreviation (input) RTECMD_CAT :: int where "RTECMD_CAT \<equiv> 7"

record rtemgr_intf =
  if_id :: int
  if_bus :: int
  if_name :: string
  if_path :: string
  if_domain :: int
  if_managed :: int
  if_partner :: string

record rtecmd =
  action :: int
  cmd_error :: int
  val_v :: "byte list option"
  val_s :: "64 word"
  extra_addr :: "16 word"
  extra_rsize :: "16 word"

record rtemgr_data =
  cmd :: rtecmd
  nr_intf :: int
  interfaces :: "rtemgr_intf list"

definition new_intf :: rtemgr_intf where
  "new_intf = \<lparr>if_id = -1, if_bus = -1, if_name = replicate 16 NUL, if_path = replicate 128 NUL,
     if_domain = 0, if_managed = 0, if_partner = replicate 16 NUL\<rparr>"

text \<open>The result is \<open>None\<close> where the C function returns NULL and changes nothing.\<close>

definition rtemgr_data_alloc_interface :: "libs \<Rightarrow> rtemgr_data \<Rightarrow> rtemgr_data option" where
  "rtemgr_data_alloc_interface Y d =
     (let i = nat (nr_intf d) in
      if heap Y (176 * (i + 1)) then
        Some (d\<lparr>interfaces := take i (interfaces d) @ [new_intf], nr_intf := nr_intf d + 1\<rparr>)
      else None)"

definition rtemgr_data_remove_interface :: "rtemgr_data \<Rightarrow> int \<times> rtemgr_data" where
  "rtemgr_data_remove_interface d =
     (if nr_intf d \<noteq> 0 then
        (let n = nr_intf d - 1
         in (n, if n = 0 then d\<lparr>nr_intf := 0, interfaces := []\<rparr> else d\<lparr>nr_intf := n\<rparr>))
      else (0, d))"

partial_function (option) rtemgr_data_cleanup_interfaces :: "rtemgr_data \<Rightarrow> rtemgr_data option" where
  "rtemgr_data_cleanup_interfaces d =
     (case rtemgr_data_remove_interface d of
        (n, d') \<Rightarrow> if n = 0 then Some d' else rtemgr_data_cleanup_interfaces d')"

definition rtemgr_data_alloc :: "libs \<Rightarrow> rtemgr_data option" where
  "rtemgr_data_alloc Y =
     (if heap Y 48 then
        Some \<lparr>cmd = \<lparr>action = 0, cmd_error = 0, val_v = None, val_s = 0, extra_addr = 0, extra_rsize = 0\<rparr>,
              nr_intf = 0, interfaces = []\<rparr>
      else None)"

lemma cleanup_interfaces:
  assumes "0 \<le> nr_intf d"
  shows "rtemgr_data_cleanup_interfaces d =
    Some (if nr_intf d = 0 then d else d\<lparr>nr_intf := 0, interfaces := []\<rparr>)"
  using assms
proof (induction "nat (nr_intf d)" arbitrary: d)
  case 0
  then show ?case
    by (subst rtemgr_data_cleanup_interfaces.simps) (simp add: rtemgr_data_remove_interface_def)
next
  case (Suc n)
  show ?case
  proof (cases "nr_intf d = 1")
    case True
    then show ?thesis
      by (subst rtemgr_data_cleanup_interfaces.simps) (simp add: rtemgr_data_remove_interface_def Let_def)
  next
    case False
    let ?d = "d\<lparr>nr_intf := nr_intf d - 1\<rparr>"
    have "nr_intf d \<noteq> 0" using Suc.hyps(2) by auto
    then have "rtemgr_data_cleanup_interfaces d = rtemgr_data_cleanup_interfaces ?d"
      using False
      by (subst rtemgr_data_cleanup_interfaces.simps) (simp add: rtemgr_data_remove_interface_def Let_def)
    with Suc.hyps(1) [of ?d] Suc.hyps(2) False Suc.prems show ?thesis by simp
  qed
qed


subsection \<open>Emitting\<close>

text \<open>
  A step of \<open>rtemgr_data_emit\<close> takes the events emitted so far; \<open>None\<close> is the jump to \<open>error\<close>.
\<close>

type_synonym emit_step = "yaml_event list \<Rightarrow> yaml_event list option outcome"

fun emits :: "libs \<Rightarrow> nat \<Rightarrow> yaml_event list \<Rightarrow> yaml_event list \<Rightarrow> yaml_event list option" where
  "emits Y sz [] h = Some h"
| "emits Y sz (e # es) h =
     (if yaml_emits Y sz (h @ [e]) then emits Y sz es (h @ [e]) else None)"

definition puts :: "libs \<Rightarrow> nat \<Rightarrow> yaml_event list \<Rightarrow> emit_step" where
  "puts Y sz es h = Inr (emits Y sz es h)"

definition on_ok :: "emit_step \<Rightarrow> emit_step \<Rightarrow> emit_step" where
  "on_ok f g h = and_then (f h) (\<lambda>r. case r of None \<Rightarrow> Inr None | Some h' \<Rightarrow> g h')"

definition encode_base64 :: "libs \<Rightarrow> nat \<Rightarrow> byte list option \<Rightarrow> nat \<Rightarrow> string outcome" where
  "encode_base64 Y room data sz =
     and_then
       (if sz = 0 then Inr []
        else (case data of
                None \<Rightarrow> Inl Null_Deref
              | Some bs \<Rightarrow> if length bs < sz then Inl Out_Of_Bounds else Inr (take sz bs)))
       (\<lambda>bs. let out = b64_encode Y bs
             in if length out + 1 \<le> room then Inr out else Inl Out_Of_Bounds)"

definition estimated :: "64 word \<Rightarrow> 64 word" where
  "estimated s = and ((4 * s div 3) + 3) (not 3) + 256"

text \<open>The buffer for the text of the value, 4096 bytes or the next multiple that is estimated.\<close>

definition value_room :: "rtecmd \<Rightarrow> 64 word" where
  "value_room c =
     (if val_v c \<noteq> None \<and> estimated (val_s c) > 4096
      then 4096 * ((estimated (val_s c) + 4096 - 1) div 4096) else 4096)"

definition emit_value :: "libs \<Rightarrow> nat \<Rightarrow> rtecmd \<Rightarrow> emit_step" where
  "emit_value Y sz c h =
     (if value_room c \<noteq> 4096 \<and> \<not> heap Y (unat (value_room c)) then Inr None
      else and_then (encode_base64 Y (unat (value_room c)) (val_v c) (unat (val_s c))) (\<lambda>text.
        puts Y sz [Scalar Literal (c_string text)] h))"

definition start_events :: "yaml_event list" where
  "start_events =
     [Stream_Start, Document_Start, Mapping_Start, Scalar Plain ''cmd'', Sequence_Start, Mapping_Start]"

definition emit_start :: "libs \<Rightarrow> nat \<Rightarrow> emit_step" where
  "emit_start Y sz = puts Y sz start_events"

definition action_events :: "rtecmd \<Rightarrow> yaml_event list" where
  "action_events c =
     [Scalar Plain ''action'', Scalar Plain (show_d (action c)),
      Scalar Plain ''error'', Scalar Plain (show_d (cmd_error c)),
      Scalar Plain ''val'', Sequence_Start, Mapping_Start, Scalar Plain ''v'']"

definition emit_action :: "libs \<Rightarrow> nat \<Rightarrow> rtecmd \<Rightarrow> emit_step" where
  "emit_action Y sz c = puts Y sz (action_events c)"

text \<open>\<open>%u\<close> prints the low 32 bits of the \<open>size_t\<close> it is given.\<close>

definition emit_extra :: "libs \<Rightarrow> nat \<Rightarrow> rtecmd \<Rightarrow> emit_step" where
  "emit_extra Y sz c =
     puts Y sz
       [Scalar Plain ''s'', Scalar Plain (show_base 10 (unat (val_s c) mod 2 ^ 32)),
        Scalar Plain ''extra'', Sequence_Start, Mapping_Start,
        Scalar Plain ''addr'', Scalar Plain (show_base 10 (unat (extra_addr c))),
        Scalar Plain ''rsize'', Scalar Plain (show_base 10 (unat (extra_rsize c))),
        Mapping_End, Sequence_End, Mapping_End, Sequence_End, Mapping_End, Sequence_End]"

definition emit_count :: "libs \<Rightarrow> nat \<Rightarrow> rtemgr_data \<Rightarrow> emit_step" where
  "emit_count Y sz d =
     puts Y sz [Scalar Plain ''nr_intf'', Scalar Plain (show_d (nr_intf d)),
       Scalar Plain ''interfaces'', Sequence_Start]"

definition emit_text :: "libs \<Rightarrow> nat \<Rightarrow> string \<Rightarrow> emit_step" where
  "emit_text Y sz buf h = and_then (read_str buf) (\<lambda>s. puts Y sz [Scalar Double_Quoted s] h)"

definition emit_interface :: "libs \<Rightarrow> nat \<Rightarrow> rtemgr_intf \<Rightarrow> emit_step" where
  "emit_interface Y sz f =
     on_ok (puts Y sz
       [Mapping_Start, Scalar Plain ''id'', Scalar Plain (show_d (if_id f)),
        Scalar Plain ''bus_type'', Scalar Plain (show_d (if_bus f)), Scalar Plain ''name''])
    (on_ok (emit_text Y sz (if_name f))
    (on_ok (puts Y sz [Scalar Plain ''path''])
    (on_ok (emit_text Y sz (if_path f))
    (on_ok (puts Y sz
       [Scalar Plain ''domain'', Scalar Plain (show_d (if_domain f)),
        Scalar Plain ''managed'', Scalar Plain (show_d (if_managed f)), Scalar Plain ''partner''])
    (on_ok (emit_text Y sz (if_partner f))
    (puts Y sz [Mapping_End]))))))"

text \<open>The loop over \<open>d->interfaces[i]\<close> for \<open>i < d->nr_intf\<close>.\<close>

fun emit_interfaces :: "libs \<Rightarrow> nat \<Rightarrow> nat \<Rightarrow> rtemgr_intf list \<Rightarrow> emit_step" where
  "emit_interfaces Y sz 0 fs h = Inr (Some h)"
| "emit_interfaces Y sz (Suc n) [] h = Inl Out_Of_Bounds"
| "emit_interfaces Y sz (Suc n) (f # fs) h =
     on_ok (emit_interface Y sz f) (emit_interfaces Y sz n fs) h"

definition emit_end :: "libs \<Rightarrow> nat \<Rightarrow> emit_step" where
  "emit_end Y sz = puts Y sz [Sequence_End, Mapping_End, Document_End, Stream_End]"

definition rtemgr_data_emit :: "libs \<Rightarrow> rtemgr_data \<Rightarrow> nat \<Rightarrow> byte list option outcome" where
  "rtemgr_data_emit Y d sz =
     (if \<not> heap Y 4096 then Inr None
      else and_then
        (on_ok (emit_start Y sz)
        (on_ok (emit_action Y sz (cmd d))
        (on_ok (emit_value Y sz (cmd d))
        (on_ok (emit_extra Y sz (cmd d))
        (on_ok (emit_count Y sz d)
        (on_ok (emit_interfaces Y sz (nat (nr_intf d)) (interfaces d))
        (emit_end Y sz)))))) [])
        (\<lambda>r. Inr (map_option (yaml_text Y) r)))"


subsection \<open>Parsing\<close>

datatype pfield = Top_Level | Cmd | Val | Ext | Intf

datatype pitem =
    Item_None | Nr_Intf | Cmd_Act | Cmd_Err | Val_V | Val_S | Ext_Addr | Ext_Rsize
  | Intf_Id | Intf_Bus | Intf_Name | Intf_Path | Intf_Dom | Intf_Managed | Intf_Partner

text \<open>
  The local variables of \<open>rtemgr_data_parse\<close>. \<open>p_intf\<close> is whether \<open>intf\<close> has been set; once it
  is, it is \<open>d->interfaces\<close>. A step answers \<open>None\<close> where the code jumps to \<open>error\<close>.
\<close>

record parser =
  p_field :: pfield
  p_item :: pitem
  p_nest :: int
  p_start :: int
  p_idx :: nat
  p_intf :: bool
  p_data :: rtemgr_data

definition num :: "string \<Rightarrow> int" where
  "num value = as_int (strtoul 0 value)"

definition set_cmd :: "(rtecmd \<Rightarrow> rtecmd) \<Rightarrow> parser \<Rightarrow> parser" where
  "set_cmd f p = p\<lparr>p_data := (p_data p)\<lparr>cmd := f (cmd (p_data p))\<rparr>\<rparr>"

definition set_intf :: "(rtemgr_intf \<Rightarrow> rtemgr_intf) \<Rightarrow> parser \<Rightarrow> parser outcome" where
  "set_intf f p =
     (let d = p_data p; i = p_idx p in
      if \<not> p_intf p then Inl Uninitialised
      else if interfaces d = [] then Inl Null_Deref
      else if length (interfaces d) \<le> i then Inl Out_Of_Bounds
      else Inr (p\<lparr>p_data := d\<lparr>interfaces := (interfaces d)[i := f (interfaces d ! i)]\<rparr>\<rparr>))"

fun alloc_interfaces :: "libs \<Rightarrow> nat \<Rightarrow> rtemgr_data \<Rightarrow> rtemgr_data option" where
  "alloc_interfaces Y 0 d = Some d"
| "alloc_interfaces Y (Suc n) d =
     (case rtemgr_data_alloc_interface Y d of None \<Rightarrow> None | Some d' \<Rightarrow> alloc_interfaces Y n d')"

definition scalar_key :: "string \<Rightarrow> parser \<Rightarrow> parser" where
  "scalar_key value p =
     (if value = ''nr_intf'' then p\<lparr>p_item := Nr_Intf\<rparr>
      else p\<lparr>p_field := (if value = ''cmd'' then Cmd else if value = ''interfaces'' then Intf
                         else p_field p), p_start := p_nest p\<rparr>)"

definition scalar_top :: "libs \<Rightarrow> string \<Rightarrow> parser \<Rightarrow> parser option" where
  "scalar_top Y value p =
     (case p_item p of
        Nr_Intf \<Rightarrow>
          (case alloc_interfaces Y (nat (num value - nr_intf (p_data p))) (p_data p) of
             None \<Rightarrow> None
           | Some d \<Rightarrow> Some (p\<lparr>p_data := d, p_intf := True, p_item := Item_None\<rparr>))
      | _ \<Rightarrow> Some (p\<lparr>p_item := Item_None\<rparr>))"

definition scalar_cmd :: "string \<Rightarrow> parser \<Rightarrow> parser" where
  "scalar_cmd value p =
     (case p_item p of
        Item_None \<Rightarrow>
          if value = ''action'' then p\<lparr>p_item := Cmd_Act\<rparr>
          else if value = ''error'' then p\<lparr>p_item := Cmd_Err\<rparr>
          else if value = ''val'' then p\<lparr>p_field := Val\<rparr>
          else p
      | Cmd_Act \<Rightarrow> set_cmd (\<lambda>c. c\<lparr>action := num value\<rparr>) (p\<lparr>p_item := Item_None\<rparr>)
      | Cmd_Err \<Rightarrow> set_cmd (\<lambda>c. c\<lparr>cmd_error := num value\<rparr>) (p\<lparr>p_item := Item_None\<rparr>)
      | _ \<Rightarrow> p\<lparr>p_item := Item_None\<rparr>)"

text \<open>\<open>strdup\<close> copies the text of the value, which is NULL when it fails.\<close>

definition strdup :: "libs \<Rightarrow> string \<Rightarrow> byte list option" where
  "strdup Y s = (if heap Y (length s + 1) then Some (bytes_of s @ [0]) else None)"

definition scalar_val :: "libs \<Rightarrow> string \<Rightarrow> parser \<Rightarrow> parser" where
  "scalar_val Y value p =
     (case p_item p of
        Item_None \<Rightarrow>
          if value = ''v'' then p\<lparr>p_item := Val_V\<rparr>
          else if value = ''s'' then p\<lparr>p_item := Val_S\<rparr>
          else if value = ''extra'' then p\<lparr>p_field := Ext\<rparr>
          else p
      | Val_V \<Rightarrow> set_cmd (\<lambda>c. c\<lparr>val_v := strdup Y value\<rparr>) (p\<lparr>p_item := Item_None\<rparr>)
      | Val_S \<Rightarrow> set_cmd (\<lambda>c. c\<lparr>val_s := strtoul 0 value\<rparr>) (p\<lparr>p_item := Item_None\<rparr>)
      | _ \<Rightarrow> p\<lparr>p_item := Item_None\<rparr>)"

definition scalar_ext :: "string \<Rightarrow> parser \<Rightarrow> parser" where
  "scalar_ext value p =
     (case p_item p of
        Item_None \<Rightarrow>
          if value = ''addr'' then p\<lparr>p_item := Ext_Addr\<rparr>
          else if value = ''rsize'' then p\<lparr>p_item := Ext_Rsize\<rparr>
          else p
      | Ext_Addr \<Rightarrow> set_cmd (\<lambda>c. c\<lparr>extra_addr := ucast (strtoul 0 value)\<rparr>) (p\<lparr>p_item := Item_None\<rparr>)
      | Ext_Rsize \<Rightarrow> set_cmd (\<lambda>c. c\<lparr>extra_rsize := ucast (strtoul 0 value)\<rparr>) (p\<lparr>p_item := Item_None\<rparr>)
      | _ \<Rightarrow> p\<lparr>p_item := Item_None\<rparr>)"

definition intf_item :: "string \<Rightarrow> pitem" where
  "intf_item value =
     (if value = ''id'' then Intf_Id
      else if value = ''bus_type'' then Intf_Bus
      else if value = ''name'' then Intf_Name
      else if value = ''path'' then Intf_Path
      else if value = ''domain'' then Intf_Dom
      else if value = ''managed'' then Intf_Managed
      else if value = ''partner'' then Intf_Partner
      else Item_None)"

definition intf_update :: "pitem \<Rightarrow> string \<Rightarrow> (rtemgr_intf \<Rightarrow> rtemgr_intf) option" where
  "intf_update item value =
     (case item of
        Intf_Id \<Rightarrow> Some (\<lambda>f. f\<lparr>if_id := num value\<rparr>)
      | Intf_Bus \<Rightarrow> Some (\<lambda>f. f\<lparr>if_bus := num value\<rparr>)
      | Intf_Name \<Rightarrow> Some (\<lambda>f. f\<lparr>if_name := strncpy 16 value\<rparr>)
      | Intf_Path \<Rightarrow> Some (\<lambda>f. f\<lparr>if_path := strncpy 128 value\<rparr>)
      | Intf_Dom \<Rightarrow> Some (\<lambda>f. f\<lparr>if_domain := num value\<rparr>)
      | Intf_Managed \<Rightarrow> Some (\<lambda>f. f\<lparr>if_managed := num value\<rparr>)
      | Intf_Partner \<Rightarrow> Some (\<lambda>f. f\<lparr>if_partner := strncpy 16 value\<rparr>)
      | _ \<Rightarrow> None)"

definition scalar_intf :: "string \<Rightarrow> parser \<Rightarrow> parser outcome" where
  "scalar_intf value p =
     (if p_item p = Item_None then Inr (p\<lparr>p_item := intf_item value\<rparr>)
      else (case intf_update (p_item p) value of
              None \<Rightarrow> Inr (p\<lparr>p_item := Item_None\<rparr>)
            | Some f \<Rightarrow> and_then (set_intf f p) (\<lambda>p'. Inr (p'\<lparr>p_item := Item_None\<rparr>))))"

definition scalar_event :: "libs \<Rightarrow> string \<Rightarrow> parser \<Rightarrow> parser option outcome" where
  "scalar_event Y value p =
     (if p_field p = Top_Level \<and> p_item p = Item_None then Inr (Some (scalar_key value p))
      else (case p_field p of
              Top_Level \<Rightarrow> Inr (scalar_top Y value p)
            | Cmd \<Rightarrow> Inr (Some (scalar_cmd value p))
            | Val \<Rightarrow> Inr (Some (scalar_val Y value p))
            | Ext \<Rightarrow> Inr (Some (scalar_ext value p))
            | Intf \<Rightarrow> and_then (scalar_intf value p) (\<lambda>p'. Inr (Some p'))))"

definition sequence_end :: "parser \<Rightarrow> parser" where
  "sequence_end p =
     (let n = p_nest p - 1;
          f1 = (if n \<le> p_start p then Top_Level else p_field p);
          f2 = (if f1 = Val then Cmd else f1);
          f3 = (if f2 = Ext then Val else f2)
      in p\<lparr>p_nest := n, p_field := f3\<rparr>)"

definition parse_event :: "libs \<Rightarrow> yaml_event \<Rightarrow> parser \<Rightarrow> parser option outcome" where
  "parse_event Y e p =
     (case e of
        Sequence_Start \<Rightarrow> Inr (Some (p\<lparr>p_nest := p_nest p + 1\<rparr>))
      | Sequence_End \<Rightarrow> Inr (Some (sequence_end p))
      | Mapping_End \<Rightarrow>
          Inr (Some (if p_field p = Intf then p\<lparr>p_idx := p_idx p + 1\<rparr> else p))
      | Scalar style value \<Rightarrow> scalar_event Y (c_string value) p
      | _ \<Rightarrow> Inr (Some p))"

fun parse_loop :: "libs \<Rightarrow> yaml_event list \<Rightarrow> parser \<Rightarrow> parser option outcome" where
  "parse_loop Y [] p = Inr None"
| "parse_loop Y (e # es) p =
     and_then (parse_event Y e p) (\<lambda>r.
     (case r of
        None \<Rightarrow> Inr None
      | Some p' \<Rightarrow> if e = Stream_End then Inr (Some p') else parse_loop Y es p'))"

text \<open>The value is decoded into a block of the announced size.\<close>

definition decode_value :: "libs \<Rightarrow> rtemgr_data \<Rightarrow> rtemgr_data option outcome" where
  "decode_value Y d =
     (case val_v (cmd d) of
        None \<Rightarrow> Inr (Some d)
      | Some text \<Rightarrow>
          if val_s (cmd d) = 0 then Inr (Some d)
          else if \<not> heap Y (unat (val_s (cmd d))) then Inr None
          else (let out = b64_decode Y (c_string (text_of text)) in
                if length out \<le> unat (val_s (cmd d))
                then Inr (Some (d\<lparr>cmd := (cmd d)\<lparr>val_v := Some out\<rparr>\<rparr>))
                else Inl Out_Of_Bounds))"

definition rtemgr_data_parse :: "libs \<Rightarrow> byte list \<Rightarrow> rtemgr_data option outcome" where
  "rtemgr_data_parse Y input =
     (case rtemgr_data_alloc Y of
        None \<Rightarrow> Inr None
      | Some d \<Rightarrow>
          and_then
            (parse_loop Y (yaml_events Y input)
               \<lparr>p_field = Top_Level, p_item = Item_None, p_nest = 0, p_start = 0, p_idx = 0,
                p_intf = False, p_data = d\<rparr>)
            (\<lambda>r. case r of None \<Rightarrow> Inr None | Some p \<Rightarrow> decode_value Y (p_data p)))"

end
