(* ===== verification/Rtemgr_Wire.thy ===== *)
theory Rtemgr_Wire
  imports Rtemgr_Data
begin

section \<open>Packets on the wire: emitting and parsing\<close>

text \<open>
  The events that \<open>rtemgr_data_emit\<close> emits, what \<open>rtemgr_data_parse\<close> makes of any packet of
  that form, the round trip, and when the buffer for the encoded value is too small.
\<close>

subsection \<open>What is emitted\<close>

lemma emits_append:
  "emits Y sz (xs @ ys) h = Option.bind (emits Y sz xs h) (emits Y sz ys)"
  by (induction xs arbitrary: h) auto

lemma emits_Some: "emits Y sz es h = Some h' \<Longrightarrow> h' = h @ es"
proof (induction es arbitrary: h)
  case (Cons e es)
  from Cons.prems have "emits Y sz es (h @ [e]) = Some h'" by (simp split: if_splits)
  from Cons.IH [OF this] show ?case by simp
qed simp

lemma c_string_terminated: "NUL \<notin> set s \<Longrightarrow> c_string (text_of (bytes_of s @ [0])) = s"
proof -
  assume "NUL \<notin> set s"
  then have "c_string (s @ [NUL]) = s"
    unfolding c_string_def by (subst takeWhile_append2) auto
  moreover have "bytes_of s @ [0] = bytes_of (s @ [NUL])" by (simp add: bytes_of_def)
  ultimately show ?thesis by simp
qed

text \<open>A step that ends without an error has emitted exactly these events.\<close>

definition emitted :: "libs \<Rightarrow> nat \<Rightarrow> emit_step \<Rightarrow> yaml_event list \<Rightarrow> bool" where
  "emitted Y sz f es \<longleftrightarrow> (\<forall>h h'. f h = Inr (Some h') \<longrightarrow> emits Y sz es h = Some h')"

lemma emitted_puts [simp]: "emitted Y sz (puts Y sz es) es"
  by (simp add: emitted_def puts_def)

lemma emitted_on_ok: "emitted Y sz f a \<Longrightarrow> emitted Y sz g b \<Longrightarrow> emitted Y sz (on_ok f g) (a @ b)"
  by (auto simp: emitted_def on_ok_def emits_append and_then_eq_Inr split: option.splits)

lemma emitted_text: "emitted Y sz (emit_text Y sz buf) [Scalar Double_Quoted (c_string buf)]"
  by (auto simp: emitted_def emit_text_def read_str_def puts_def)

definition value_text :: "libs \<Rightarrow> rtecmd \<Rightarrow> string" where
  "value_text Y c = b64_encode Y (take (unat (val_s c)) (case val_v c of None \<Rightarrow> [] | Some bs \<Rightarrow> bs))"

lemma emitted_value: "emitted Y sz (emit_value Y sz c) [Scalar Literal (c_string (value_text Y c))]"
  by (auto simp: emitted_def emit_value_def encode_base64_def puts_def value_text_def Let_def and_then_eq_Inr
      split: if_splits option.splits)

definition intf_events :: "rtemgr_intf \<Rightarrow> yaml_event list" where
  "intf_events f =
     [Mapping_Start, Scalar Plain ''id'', Scalar Plain (show_d (if_id f)),
      Scalar Plain ''bus_type'', Scalar Plain (show_d (if_bus f)),
      Scalar Plain ''name'', Scalar Double_Quoted (c_string (if_name f)),
      Scalar Plain ''path'', Scalar Double_Quoted (c_string (if_path f)),
      Scalar Plain ''domain'', Scalar Plain (show_d (if_domain f)),
      Scalar Plain ''managed'', Scalar Plain (show_d (if_managed f)),
      Scalar Plain ''partner'', Scalar Double_Quoted (c_string (if_partner f)), Mapping_End]"

lemma emitted_interface: "emitted Y sz (emit_interface Y sz f) (intf_events f)"
proof -
  have "emitted Y sz (emit_interface Y sz f)
    ([Mapping_Start, Scalar Plain ''id'', Scalar Plain (show_d (if_id f)),
      Scalar Plain ''bus_type'', Scalar Plain (show_d (if_bus f)), Scalar Plain ''name''] @
     [Scalar Double_Quoted (c_string (if_name f))] @ [Scalar Plain ''path''] @
     [Scalar Double_Quoted (c_string (if_path f))] @
     [Scalar Plain ''domain'', Scalar Plain (show_d (if_domain f)),
      Scalar Plain ''managed'', Scalar Plain (show_d (if_managed f)), Scalar Plain ''partner''] @
     [Scalar Double_Quoted (c_string (if_partner f))] @ [Mapping_End])"
    unfolding emit_interface_def by (intro emitted_on_ok emitted_puts emitted_text)
  then show ?thesis by (simp add: intf_events_def)
qed

lemma emitted_interfaces:
  "emitted Y sz (emit_interfaces Y sz n fs) (concat (map intf_events (take n fs)))"
proof (induction Y sz n fs "[] :: yaml_event list" rule: emit_interfaces.induct)
  case (3 Y sz n f fs)
  have "emit_interfaces Y sz (Suc n) (f # fs) = on_ok (emit_interface Y sz f) (emit_interfaces Y sz n fs)"
    by (intro ext) simp
  with emitted_on_ok [OF emitted_interface 3] show ?case by simp
qed (auto simp: emitted_def)

text \<open>
  A packet: the command \<open>c\<close>, the text of its value, the size \<open>n\<close> it announces, the number \<open>k\<close>
  of interfaces it announces and those it has.
\<close>

definition cmd_events :: "rtecmd \<Rightarrow> string \<Rightarrow> nat \<Rightarrow> yaml_event list" where
  "cmd_events c text n =
     [Scalar Plain ''action'', Scalar Plain (show_d (action c)),
      Scalar Plain ''error'', Scalar Plain (show_d (cmd_error c)),
      Scalar Plain ''val'', Sequence_Start, Mapping_Start,
      Scalar Plain ''v'', Scalar Literal text,
      Scalar Plain ''s'', Scalar Plain (show_base 10 n),
      Scalar Plain ''extra'', Sequence_Start, Mapping_Start,
      Scalar Plain ''addr'', Scalar Plain (show_base 10 (unat (extra_addr c))),
      Scalar Plain ''rsize'', Scalar Plain (show_base 10 (unat (extra_rsize c))),
      Mapping_End, Sequence_End, Mapping_End, Sequence_End, Mapping_End, Sequence_End]"

definition packet_events :: "rtecmd \<Rightarrow> string \<Rightarrow> nat \<Rightarrow> int \<Rightarrow> rtemgr_intf list \<Rightarrow> yaml_event list" where
  "packet_events c text n k fs =
     [Stream_Start, Document_Start, Mapping_Start, Scalar Plain ''cmd'', Sequence_Start, Mapping_Start] @
     cmd_events c text n @
     [Scalar Plain ''nr_intf'', Scalar Plain (show_d k), Scalar Plain ''interfaces'', Sequence_Start] @
     concat (map intf_events fs) @
     [Sequence_End, Mapping_End, Document_End, Stream_End]"

definition data_events :: "libs \<Rightarrow> rtemgr_data \<Rightarrow> yaml_event list" where
  "data_events Y d =
     packet_events (cmd d) (c_string (value_text Y (cmd d))) (unat (val_s (cmd d)) mod 2 ^ 32) (nr_intf d)
       (take (nat (nr_intf d)) (interfaces d))"

lemma emitted_data:
  assumes "rtemgr_data_emit Y d sz = Inr (Some out)"
  shows "emits Y sz (data_events Y d) [] = Some (data_events Y d) \<and> out = yaml_text Y (data_events Y d)"
proof -
  let ?f = "on_ok (emit_start Y sz)
        (on_ok (emit_action Y sz (cmd d))
        (on_ok (emit_value Y sz (cmd d))
        (on_ok (emit_extra Y sz (cmd d))
        (on_ok (emit_count Y sz d)
        (on_ok (emit_interfaces Y sz (nat (nr_intf d)) (interfaces d))
        (emit_end Y sz))))))"
  have "emitted Y sz ?f
    ([Stream_Start, Document_Start, Mapping_Start, Scalar Plain ''cmd'', Sequence_Start, Mapping_Start] @
     [Scalar Plain ''action'', Scalar Plain (show_d (action (cmd d))),
      Scalar Plain ''error'', Scalar Plain (show_d (cmd_error (cmd d))),
      Scalar Plain ''val'', Sequence_Start, Mapping_Start, Scalar Plain ''v''] @
     [Scalar Literal (c_string (value_text Y (cmd d)))] @
     [Scalar Plain ''s'', Scalar Plain (show_base 10 (unat (val_s (cmd d)) mod 2 ^ 32)),
      Scalar Plain ''extra'', Sequence_Start, Mapping_Start,
      Scalar Plain ''addr'', Scalar Plain (show_base 10 (unat (extra_addr (cmd d)))),
      Scalar Plain ''rsize'', Scalar Plain (show_base 10 (unat (extra_rsize (cmd d)))),
      Mapping_End, Sequence_End, Mapping_End, Sequence_End, Mapping_End, Sequence_End] @
     [Scalar Plain ''nr_intf'', Scalar Plain (show_d (nr_intf d)), Scalar Plain ''interfaces'', Sequence_Start] @
     concat (map intf_events (take (nat (nr_intf d)) (interfaces d))) @
     [Sequence_End, Mapping_End, Document_End, Stream_End])"
    unfolding emit_start_def emit_action_def emit_extra_def emit_count_def emit_end_def start_events_def action_events_def
    by (intro emitted_on_ok emitted_puts emitted_value emitted_interfaces)
  then have f: "emitted Y sz ?f (data_events Y d)"
    by (simp add: data_events_def packet_events_def cmd_events_def)
  from assms obtain h where "?f [] = Inr (Some h)" "out = yaml_text Y h"
    by (auto simp: rtemgr_data_emit_def and_then_eq_Inr split: if_splits)
  with f emits_Some [of Y sz "data_events Y d" "[]" h] show ?thesis
    by (auto simp: emitted_def)
qed


subsection \<open>What is parsed from it\<close>

text \<open>The style of a scalar does not matter to the parser.\<close>

fun yaml_value :: "yaml_event \<Rightarrow> yaml_event" where
  "yaml_value (Scalar style s) = Scalar Plain s"
| "yaml_value e = e"

lemma parse_event_value: "parse_event Y (yaml_value e) p = parse_event Y e p"
  by (cases e) (simp_all add: parse_event_def)

lemma yaml_value_end: "yaml_value e = Stream_End \<longleftrightarrow> e = Stream_End"
  by (cases e) simp_all

lemma parse_loop_value: "parse_loop Y (map yaml_value es) p = parse_loop Y es p"
proof (induction es arbitrary: p)
  case (Cons e es)
  have "(\<lambda>r. case r of None \<Rightarrow> Inr None
      | Some p' \<Rightarrow> if e = Stream_End then Inr (Some p') else parse_loop Y (map yaml_value es) p') =
    (\<lambda>r. case r of None \<Rightarrow> Inr None
      | Some p' \<Rightarrow> if e = Stream_End then Inr (Some p') else parse_loop Y es p')"
    by (intro ext) (simp add: Cons.IH split: option.splits)
  then show ?case by (simp add: parse_event_value yaml_value_end)
qed simp

text \<open>
  What is assumed of the libraries: text that the emitter made of a whole accepted stream parses to
  events with the same values, and decoding inverts encoding, which yields a C string.
\<close>

definition complete_stream :: "yaml_event list \<Rightarrow> bool" where
  "complete_stream es \<longleftrightarrow> (\<exists>body. es = Stream_Start # body @ [Stream_End])"

definition libs_ok :: "libs \<Rightarrow> bool" where
  "libs_ok Y \<longleftrightarrow>
     (\<forall>sz es. complete_stream es \<longrightarrow> emits Y sz es [] = Some es \<longrightarrow>
        map yaml_value (yaml_events Y (yaml_text Y es)) = map yaml_value es) \<and>
     (\<forall>bs. NUL \<notin> set (b64_encode Y bs) \<and> b64_decode Y (b64_encode Y bs) = bs)"

lemma data_events_complete: "complete_stream (data_events Y d)"
  by (simp add: complete_stream_def data_events_def packet_events_def)

definition fits_array :: "nat \<Rightarrow> string \<Rightarrow> bool" where
  "fits_array n buf \<longleftrightarrow> (\<exists>s. NUL \<notin> set s \<and> length s < n \<and> buf = strncpy n s)"

definition intf_ok :: "rtemgr_intf \<Rightarrow> bool" where
  "intf_ok f \<longleftrightarrow> is_int (if_id f) \<and> is_int (if_bus f) \<and> is_int (if_domain f) \<and> is_int (if_managed f) \<and>
     fits_array 16 (if_name f) \<and> fits_array 128 (if_path f) \<and> fits_array 16 (if_partner f)"

definition value_ok :: "rtecmd \<Rightarrow> bool" where
  "value_ok c \<longleftrightarrow> unat (val_s c) < 2 ^ 32 \<and>
     (val_s c \<noteq> 0 \<longrightarrow> (\<exists>bs. val_v c = Some bs \<and> length bs = unat (val_s c)))"

definition data_ok :: "rtemgr_data \<Rightarrow> bool" where
  "data_ok d \<longleftrightarrow> is_int (action (cmd d)) \<and> is_int (cmd_error (cmd d)) \<and> value_ok (cmd d) \<and>
     nr_intf d = int (length (interfaces d)) \<and> is_int (nr_intf d) \<and> (\<forall>f \<in> set (interfaces d). intf_ok f)"

lemma c_string_show [simp]:
  "c_string (show_base 10 n) = show_base 10 n" "c_string (show_d i) = show_d i"
proof -
  have base: "NUL \<notin> set (show_base 10 n)" for n
    using show_base_digits [of 10 n] digit_not_special(4) by auto
  then show "c_string (show_base 10 n) = show_base 10 n" by simp
  show "c_string (show_d i) = show_d i" using base by (simp add: show_d_def)
qed

lemma num_show_d [simp]: "is_int i \<Longrightarrow> num (show_d i) = i"
  by (simp add: num_def strtoul_show_d)

lemma strncpy_c_string:
  assumes "fits_array n buf"
  shows "strncpy n (c_string buf) = buf"
proof -
  from assms obtain s where s: "NUL \<notin> set s" "length s < n" "buf = strncpy n s"
    by (auto simp: fits_array_def)
  with read_strncpy [OF s(1), of n] have "read_str buf = Inr s" by simp
  then have "c_string buf = s" by (auto simp: read_str_def split: if_splits)
  with s show ?thesis by simp
qed

lemma c_string_c_string [simp]: "c_string (c_string s) = c_string s"
  by (simp add: c_string_def)

definition parser_at :: "pfield \<Rightarrow> int \<Rightarrow> nat \<Rightarrow> bool \<Rightarrow> rtemgr_data \<Rightarrow> parser" where
  "parser_at f n i b d = \<lparr>p_field = f, p_item = Item_None, p_nest = n, p_start = 0, p_idx = i,
     p_intf = b, p_data = d\<rparr>"

lemmas parse_step = parse_event_def scalar_event_def scalar_cmd_def scalar_val_def scalar_ext_def set_cmd_def

lemma parse_action:
  assumes "is_int a" "is_int e"
  shows "parse_loop Y (Scalar Plain ''action'' # Scalar Plain (show_d a) # Scalar Plain ''error'' #
      Scalar Plain (show_d e) # Scalar Plain ''val'' # Sequence_Start # Mapping_Start # rest) (parser_at Cmd 1 0 False d) =
    parse_loop Y rest (parser_at Val 2 0 False (d\<lparr>cmd := (cmd d)\<lparr>action := a, cmd_error := e\<rparr>\<rparr>))"
  using assms by (simp add: parser_at_def parse_step)

lemma parse_value:
  assumes "n < 2 ^ 32"
  shows "parse_loop Y (Scalar Plain ''v'' # Scalar Literal s # Scalar Plain ''s'' #
      Scalar Plain (show_base 10 n) # Scalar Plain ''extra'' # Sequence_Start # Mapping_Start # rest)
      (parser_at Val 2 0 False d) =
    parse_loop Y rest (parser_at Ext 3 0 False
      (d\<lparr>cmd := (cmd d)\<lparr>val_v := strdup Y (c_string s), val_s := of_nat n\<rparr>\<rparr>))"
  using assms by (simp add: parser_at_def parse_step strtoul_show_nat)

lemma ucast_show_16 [simp]: "ucast (strtoul 0 (show_base 10 (unat w))) = (w :: 16 word)"
proof -
  have "unat w < 2 ^ 64"
    by (rule less_le_trans [OF unsigned_less]) simp
  moreover have "ucast (ucast w :: 64 word) = w" by (rule bit_word_eqI) (simp add: bit_simps)
  ultimately show ?thesis by (simp add: strtoul_show_nat of_nat_unat)
qed

lemma parse_extra:
  "parse_loop Y (Scalar Plain ''addr'' # Scalar Plain (show_base 10 (unat addr)) #
      Scalar Plain ''rsize'' # Scalar Plain (show_base 10 (unat rsize)) # Mapping_End # Sequence_End #
      Mapping_End # Sequence_End # Mapping_End # Sequence_End # rest) (parser_at Ext 3 0 False d) =
    parse_loop Y rest (parser_at Top_Level 0 0 False
      (d\<lparr>cmd := (cmd d)\<lparr>extra_addr := addr, extra_rsize := rsize\<rparr>\<rparr>))"
  by (simp add: parser_at_def parse_step sequence_end_def Let_def)

lemma parse_cmd:
  assumes "is_int (action c)" "is_int (cmd_error c)" "n < 2 ^ 32"
  shows "parse_loop Y (cmd_events c text n @ rest) (parser_at Cmd 1 0 False d) =
    parse_loop Y rest (parser_at Top_Level 0 0 False
      (d\<lparr>cmd := c\<lparr>val_v := strdup Y (c_string text), val_s := of_nat n\<rparr>\<rparr>))"
proof -
  have whole: "(cmd d)\<lparr>action := action c, cmd_error := cmd_error c, val_v := v,
        val_s := s, extra_addr := extra_addr c, extra_rsize := extra_rsize c\<rparr> =
    c\<lparr>val_v := v, val_s := s\<rparr>" for v s
    by simp
  from parse_action [OF assms(1,2)] parse_value [OF assms(3)] parse_extra show ?thesis
    by (simp add: cmd_events_def whole del: parse_loop.simps)
qed

lemma parse_intf:
  assumes "intf_ok f" "i < length (interfaces d)"
  shows "parse_loop Y (intf_events f @ rest) (parser_at Intf 1 i True d) =
    parse_loop Y rest (parser_at Intf 1 (Suc i) True (d\<lparr>interfaces := (interfaces d)[i := f]\<rparr>))"
proof -
  have some: "interfaces d \<noteq> []" using assms(2) by auto
  have whole: "(interfaces d ! i)\<lparr>if_id := if_id f, if_bus := if_bus f, if_name := if_name f,
     if_path := if_path f, if_domain := if_domain f, if_managed := if_managed f, if_partner := if_partner f\<rparr> = f"
    by simp
  show ?thesis
    using assms some by (simp add: whole intf_events_def parser_at_def parse_event_def scalar_event_def
        scalar_intf_def intf_item_def intf_update_def set_intf_def Let_def intf_ok_def strncpy_c_string)
qed

lemma parse_intfs:
  assumes "\<forall>f \<in> set fs. intf_ok f" "i + length fs \<le> length (interfaces d)"
  shows "parse_loop Y (concat (map intf_events fs) @ rest) (parser_at Intf 1 i True d) =
    parse_loop Y rest (parser_at Intf 1 (i + length fs) True
      (d\<lparr>interfaces := take i (interfaces d) @ fs @ drop (i + length fs) (interfaces d)\<rparr>))"
  using assms
proof (induction fs arbitrary: i d)
  case Nil
  then show ?case by simp
next
  case (Cons f fs)
  let ?d = "d\<lparr>interfaces := (interfaces d)[i := f]\<rparr>"
  have i: "i < length (interfaces d)" using Cons.prems(2) by simp
  have "take (Suc i) ((interfaces d)[i := f]) = take i (interfaces d) @ [f]"
    using i by (simp add: take_Suc_conv_app_nth)
  with Cons.IH [of "Suc i" ?d] Cons.prems parse_intf [of f i d Y "concat (map intf_events fs) @ rest"] i
  show ?case by (simp del: parse_loop.simps)
qed

lemma alloc_interfaces_ok:
  assumes "\<And>n. heap Y n" "nr_intf d = int (length (interfaces d))"
  shows "alloc_interfaces Y n d =
    Some (d\<lparr>nr_intf := nr_intf d + int n, interfaces := interfaces d @ replicate n new_intf\<rparr>)"
  using assms(2)
proof (induction n arbitrary: d)
  case (Suc n)
  let ?d = "d\<lparr>interfaces := interfaces d @ [new_intf], nr_intf := nr_intf d + 1\<rparr>"
  have "rtemgr_data_alloc_interface Y d = Some ?d"
    using assms(1) Suc.prems by (simp add: rtemgr_data_alloc_interface_def Let_def)
  with Suc.IH [of ?d] Suc.prems show ?case by (simp add: replicate_append_same)
qed simp

text \<open>One interface more than there is room for.\<close>

lemma parse_intf_fault:
  assumes "length (interfaces d) \<le> i" "is_int (if_id f)"
  shows "parse_loop Y (intf_events f @ rest) (parser_at Intf 1 i True d) =
    Inl (if interfaces d = [] then Null_Deref else Out_Of_Bounds)"
  using assms by (simp add: intf_events_def parser_at_def parse_event_def scalar_event_def
        scalar_intf_def intf_item_def intf_update_def set_intf_def Let_def)

lemma parse_intfs_fault:
  assumes "\<forall>f \<in> set fs. intf_ok f" "length (interfaces d) < length fs"
  shows "parse_loop Y (concat (map intf_events fs) @ rest) (parser_at Intf 1 0 True d) =
    Inl (if interfaces d = [] then Null_Deref else Out_Of_Bounds)"
proof -
  let ?n = "length (interfaces d)"
  have split: "fs = take ?n fs @ fs ! ?n # drop (Suc ?n) fs"
    using assms(2) by (simp add: id_take_nth_drop)
  have ok: "\<forall>f \<in> set (take ?n fs). intf_ok f" "is_int (if_id (fs ! ?n))"
    using assms by (auto simp: intf_ok_def dest: in_set_takeD)
  have "concat (map intf_events fs) = concat (map intf_events (take ?n fs)) @ intf_events (fs ! ?n) @
      concat (map intf_events (drop (Suc ?n) fs))"
    by (subst split) simp
  moreover have "fs \<noteq> []" using assms(2) by auto
  ultimately show ?thesis
    using parse_intfs [OF ok(1), of 0 d Y] parse_intf_fault [OF _ ok(2)] assms(2)
    by (simp del: parse_loop.simps)
qed

lemma parse_count:
  assumes "\<And>n. heap Y n" "nr_intf d = 0" "interfaces d = []" "is_int k"
  shows "parse_loop Y (Scalar Plain ''nr_intf'' # Scalar Plain (show_d k) # Scalar Plain ''interfaces'' #
      Sequence_Start # rest) (parser_at Top_Level 0 0 False d) =
    parse_loop Y rest (parser_at Intf 1 0 True
      (d\<lparr>nr_intf := int (nat k), interfaces := replicate (nat k) new_intf\<rparr>))"
  using assms alloc_interfaces_ok [OF assms(1), of d "nat k"]
  by (simp add: parser_at_def parse_event_def scalar_event_def scalar_key_def scalar_top_def)

lemma parse_events:
  assumes mem: "\<And>n. heap Y n" and inp: "map yaml_value (yaml_events Y inp) = map yaml_value (packet_events c text n k fs)"
    and ints: "is_int (action c)" "is_int (cmd_error c)" "n < 2 ^ 32" "is_int k"
    and fs: "\<forall>f \<in> set fs. intf_ok f" and nul: "NUL \<notin> set text"
  shows "rtemgr_data_parse Y inp =
    (if nat k < length fs then Inl (if k \<le> 0 then Null_Deref else Out_Of_Bounds)
     else if n \<noteq> 0 \<and> n < length (b64_decode Y text) then Inl Out_Of_Bounds
     else Inr (Some
       \<lparr>cmd = c\<lparr>val_v := Some (if n = 0 then bytes_of text @ [0] else b64_decode Y text), val_s := of_nat n\<rparr>,
        nr_intf = int (nat k), interfaces = fs @ replicate (nat k - length fs) new_intf\<rparr>))"
proof -
  define d0 :: rtemgr_data where "d0 = \<lparr>cmd = \<lparr>action = 0, cmd_error = 0, val_v = None, val_s = 0, extra_addr = 0,
    extra_rsize = 0\<rparr>, nr_intf = 0, interfaces = []\<rparr>"
  have d0: "nr_intf d0 = 0" "interfaces d0 = []" by (simp_all add: d0_def)
  have alloc: "rtemgr_data_alloc Y = Some d0" using mem by (simp add: rtemgr_data_alloc_def d0_def)
  define d1 where "d1 = d0\<lparr>cmd := c\<lparr>val_v := Some (bytes_of text @ [0]), val_s := of_nat n\<rparr>,
    nr_intf := int (nat k), interfaces := replicate (nat k) new_intf\<rparr>"
  let ?start = "\<lparr>p_field = Top_Level, p_item = Item_None, p_nest = 0, p_start = 0, p_idx = 0,
        p_intf = False, p_data = d0\<rparr>"
  let ?rest = "[Sequence_End, Mapping_End, Document_End, Stream_End]"
  have start: "parse_loop Y ([Stream_Start, Document_Start, Mapping_Start, Scalar Plain ''cmd'', Sequence_Start,
        Mapping_Start] @ rest) ?start = parse_loop Y rest (parser_at Cmd 1 0 False d0)" for rest
    by (simp add: parser_at_def parse_event_def scalar_event_def scalar_key_def)
  have dup: "strdup Y (c_string text) = Some (bytes_of text @ [0])" using mem nul by (simp add: strdup_def)
  have run: "parse_loop Y (packet_events c text n k fs) ?start =
      parse_loop Y (concat (map intf_events fs) @ ?rest) (parser_at Intf 1 0 True d1)"
    unfolding packet_events_def start
    using parse_cmd [OF ints(1-3), of Y "text" _ d0]
      parse_count [OF mem _ _ ints(4), of "d0\<lparr>cmd := c\<lparr>val_v := Some (bytes_of text @ [0]), val_s := of_nat n\<rparr>\<rparr>"]
    by (simp add: dup d1_def d0(1,2) del: parse_loop.simps)
  have finish: "parse_loop Y ?rest (parser_at Intf 1 i True d') = Inr (Some (parser_at Top_Level 0 i True d'))" for i d'
    by (simp add: parser_at_def parse_event_def sequence_end_def Let_def)
  have same: "parse_loop Y (yaml_events Y inp) p = parse_loop Y (packet_events c text n k fs) p" for p
    using inp parse_loop_value by metis
  show ?thesis
  proof (cases "nat k < length fs")
    case True
    then have "parse_loop Y (packet_events c text n k fs) ?start = Inl (if k \<le> 0 then Null_Deref else Out_Of_Bounds)"
      using run parse_intfs_fault [OF fs, of d1] by (simp add: d1_def del: parse_loop.simps)
    with True alloc same show ?thesis by (simp add: rtemgr_data_parse_def)
  next
    case False
    let ?d = "d1\<lparr>interfaces := fs @ replicate (nat k - length fs) new_intf\<rparr>"
    have "parse_loop Y (packet_events c text n k fs) ?start = Inr (Some (parser_at Top_Level 0 (length fs) True ?d))"
      using run parse_intfs [OF fs, of 0 d1] finish False by (simp add: d1_def del: parse_loop.simps)
    then have "rtemgr_data_parse Y inp = decode_value Y ?d"
      using alloc same by (simp add: rtemgr_data_parse_def parser_at_def)
    moreover have "unat (of_nat n :: 64 word) = n"
      using ints(3) by (simp add: unat_of_nat)
    moreover from this have "(of_nat n :: 64 word) = 0 \<longleftrightarrow> n = 0"
      by (metis (no_types) unat_eq_zero)
    moreover have "c_string (text_of (bytes_of text @ [0])) = text"
      using nul by (simp add: c_string_terminated)
    moreover have "val_v (cmd ?d) = Some (bytes_of text @ [0])" "val_s (cmd ?d) = of_nat n"
      by (simp_all add: d1_def)
    ultimately have "rtemgr_data_parse Y inp =
       (if n \<noteq> 0 \<and> n < length (b64_decode Y text) then Inl Out_Of_Bounds
        else Inr (Some (if n = 0 then ?d else ?d\<lparr>cmd := (cmd ?d)\<lparr>val_v := Some (b64_decode Y text)\<rparr>\<rparr>)))"
      using mem by (simp add: decode_value_def Let_def not_le)
    also have "?d = \<lparr>cmd = c\<lparr>val_v := Some (bytes_of text @ [0]), val_s := of_nat n\<rparr>,
        nr_intf = int (nat k), interfaces = fs @ replicate (nat k - length fs) new_intf\<rparr>"
      by (simp add: d1_def)
    finally show ?thesis using False by (cases "n = 0") simp_all
  qed
qed

text \<open>
  What a packet becomes. A packet of the emitter's form is parsed into exactly its fields,
  interfaces that are announced but missing being blank. It writes outside of the interfaces
  when it has more of them than it announces (through NULL when it announces none), and
  outside of the value when this decodes to more than the announced size.
\<close>

theorem parse_packet:
  assumes mem: "\<And>n. heap Y n" and inp: "map yaml_value (yaml_events Y inp) = map yaml_value (packet_events c text n k fs)"
    and ints: "is_int (action c)" "is_int (cmd_error c)" "n < 2 ^ 32" "is_int k"
    and fs: "\<forall>f \<in> set fs. intf_ok f" and nul: "NUL \<notin> set text"
  shows "rtemgr_data_parse Y inp =
    (if nat k < length fs then Inl (if k \<le> 0 then Null_Deref else Out_Of_Bounds)
     else if n \<noteq> 0 \<and> n < length (b64_decode Y text) then Inl Out_Of_Bounds
     else Inr (Some
       \<lparr>cmd = c\<lparr>val_v := Some (if n = 0 then bytes_of text @ [0] else b64_decode Y text), val_s := of_nat n\<rparr>,
        nr_intf = int (nat k), interfaces = fs @ replicate (nat k - length fs) new_intf\<rparr>))"
  using assms by (rule parse_events)

lemma emitted_parses:
  assumes libs: "libs_ok Y" and mem: "\<And>n. heap Y n" and ok: "data_ok d"
    and emit: "rtemgr_data_emit Y d sz = Inr (Some out)"
  shows "rtemgr_data_parse Y out = Inr (Some
    (if val_s (cmd d) = 0 then d\<lparr>cmd := (cmd d)\<lparr>val_v := Some (bytes_of (b64_encode Y []) @ [0])\<rparr>\<rparr> else d))"
proof -
  let ?c = "cmd d" and ?text = "value_text Y (cmd d)"
  have b64: "NUL \<notin> set (b64_encode Y bs)" "b64_decode Y (b64_encode Y bs) = bs" for bs
    using libs by (simp_all add: libs_ok_def)
  have nul: "NUL \<notin> set ?text" by (simp add: value_text_def b64)
  have c: "is_int (action ?c)" "is_int (cmd_error ?c)" "unat (val_s ?c) < 2 ^ 32"
      "nr_intf d = int (length (interfaces d))" "is_int (nr_intf d)" "\<forall>f \<in> set (interfaces d). intf_ok f"
    using ok by (auto simp: data_ok_def value_ok_def)
  have "map yaml_value (yaml_events Y out) = map yaml_value (data_events Y d)"
    using emitted_data [OF emit] libs data_events_complete by (auto simp: libs_ok_def)
  also have "data_events Y d = packet_events ?c ?text (unat (val_s ?c)) (nr_intf d) (interfaces d)"
    using c(3,4) nul by (simp add: data_events_def)
  finally have same: "map yaml_value (yaml_events Y out) =
    map yaml_value (packet_events ?c ?text (unat (val_s ?c)) (nr_intf d) (interfaces d))" .
  have blk: "\<exists>bs. val_v ?c = Some bs \<and> length bs = unat (val_s ?c)" if "val_s ?c \<noteq> 0"
    using ok that by (auto simp: data_ok_def value_ok_def)
  show ?thesis
  proof (cases "val_s ?c = 0")
    case True
    then have "?text = b64_encode Y []" by (simp add: value_text_def)
    with True c(4) parse_events [OF mem same c(1,2,3,5,6) nul] show ?thesis by simp
  next
    case False
    then obtain bs where bs: "val_v ?c = Some bs" "length bs = unat (val_s ?c)" using blk by blast
    then have "b64_decode Y ?text = bs" by (simp add: value_text_def b64)
    moreover have "?c\<lparr>val_v := Some bs, val_s := val_s ?c\<rparr> = ?c" using bs(1) by simp
    moreover have "unat (val_s ?c) \<noteq> 0" using False by (simp add: unat_eq_zero)
    ultimately show ?thesis using False bs(2) c(4) parse_events [OF mem same c(1,2,3,5,6) nul] by simp
  qed
qed

text \<open>
  C10: packets survive the wire. What \<open>rtemgr_data_emit\<close> makes of well-formed data,
  \<open>rtemgr_data_parse\<close> turns back into the same data; only a value of no bytes comes back as the
  text that stands for it.
\<close>

theorem emit_parse:
  assumes libs: "libs_ok Y" and mem: "\<And>n. heap Y n" and ok: "data_ok d"
    and emit: "rtemgr_data_emit Y d sz = Inr (Some out)"
  shows "rtemgr_data_parse Y out = Inr (Some
    (if val_s (cmd d) = 0 then d\<lparr>cmd := (cmd d)\<lparr>val_v := Some (bytes_of (b64_encode Y []) @ [0])\<rparr>\<rparr> else d))"
  by (rule emitted_parses [OF assms])


subsection \<open>When emitting misbehaves\<close>

definition safe_step :: "emit_step \<Rightarrow> bool" where
  "safe_step f \<longleftrightarrow> (\<forall>h. \<exists>r. f h = Inr r)"

lemma safe_puts: "safe_step (puts Y sz es)"
  by (simp add: safe_step_def puts_def)

lemma safe_on_ok: "safe_step f \<Longrightarrow> safe_step g \<Longrightarrow> safe_step (on_ok f g)"
  unfolding safe_step_def on_ok_def by (metis and_then_Inr option.exhaust option.simps(4,5))

lemma safe_text: "fits_array n buf \<Longrightarrow> safe_step (emit_text Y sz buf)"
  by (auto simp: fits_array_def read_strncpy safe_step_def emit_text_def puts_def)

lemma safe_interfaces:
  assumes "\<forall>f \<in> set fs. intf_ok f" "n = length fs"
  shows "safe_step (emit_interfaces Y sz n fs)"
  using assms
proof (induction fs arbitrary: n)
  case Nil
  then show ?case by (simp add: safe_step_def)
next
  case (Cons f fs)
  have "safe_step (emit_interface Y sz f)"
    unfolding emit_interface_def using Cons.prems(1)
    by (intro safe_on_ok safe_puts) (auto simp: intf_ok_def intro: safe_text)
  moreover have "emit_interfaces Y sz n (f # fs) =
      on_ok (emit_interface Y sz f) (emit_interfaces Y sz (length fs) fs)"
    using Cons.prems(2) by (intro ext) simp
  ultimately show ?case using Cons by (simp add: safe_on_ok)
qed

lemma emit_cases:
  assumes ok: "data_ok d" and room: "value_room (cmd d) = 4096 \<or> heap Y (unat (value_room (cmd d)))"
    and mem: "heap Y 4096"
    and before: "emits Y sz (start_events @ action_events (cmd d)) [] \<noteq> None"
  shows "if length (value_text Y (cmd d)) < unat (value_room (cmd d))
    then \<exists>r. rtemgr_data_emit Y d sz = Inr r
    else rtemgr_data_emit Y d sz = Inl Out_Of_Bounds"
proof -
  let ?c = "cmd d"
  have v: "val_s ?c = 0 \<or> (\<exists>bs. val_v ?c = Some bs \<and> length bs = unat (val_s ?c))"
    using ok by (auto simp: data_ok_def value_ok_def)
  have enc: "encode_base64 Y (unat (value_room ?c)) (val_v ?c) (unat (val_s ?c)) =
      (if length (value_text Y ?c) < unat (value_room ?c) then Inr (value_text Y ?c) else Inl Out_Of_Bounds)"
    using v by (auto simp: encode_base64_def value_text_def Let_def)
  have val: "emit_value Y sz ?c h =
      (if length (value_text Y ?c) < unat (value_room ?c)
       then puts Y sz [Scalar Literal (c_string (value_text Y ?c))] h else Inl Out_Of_Bounds)" for h
    using room by (auto simp: emit_value_def enc)
  obtain h1 h2 where "emit_start Y sz [] = Inr (Some h1)" "emit_action Y sz ?c h1 = Inr (Some h2)"
    using before
    by (auto simp: emits_append emit_start_def emit_action_def puts_def split: Option.bind_splits)
  note begun = this
  let ?more = "on_ok (emit_extra Y sz ?c) (on_ok (emit_count Y sz d)
    (on_ok (emit_interfaces Y sz (nat (nr_intf d)) (interfaces d)) (emit_end Y sz)))"
  have "safe_step (on_ok (puts Y sz [Scalar Literal (c_string (value_text Y ?c))]) ?more)"
    unfolding emit_extra_def emit_count_def emit_end_def
    using ok by (intro safe_on_ok safe_puts safe_interfaces) (auto simp: data_ok_def)
  then obtain r where "on_ok (puts Y sz [Scalar Literal (c_string (value_text Y ?c))]) ?more h2 = Inr r"
    by (auto simp: safe_step_def)
  with mem begun val [of h2] show ?thesis
    by (simp add: rtemgr_data_emit_def on_ok_def)
qed


text \<open>
  The size of the buffer, in plain arithmetic: four thirds of the size of the value, rounded up to
  a multiple of four, and 256 bytes more, in blocks of 4096 bytes.
\<close>

definition buffer_size :: "nat \<Rightarrow> nat" where
  "buffer_size n = 4096 * ((4 * ((4 * n div 3 + 3) div 4) + 256 + 4095) div 4096)"

lemma and_not_3: "and w (- 4) = 4 * (w div 4)" for w :: "64 word"
proof -
  have three: "bit (3 :: 64 word) k \<longleftrightarrow> k < 2" for k
    using bit_mask_iff [of 2 k, where ?'a = "64 word"]
    by (cases "k < 64") (auto simp: mask_eq_exp_minus_1 dest: bit_imp_le_length)
  have neg: "bit (- 4 :: 64 word) k \<longleftrightarrow> k < 64 \<and> 2 \<le> k" for k
  proof -
    have "bit (not (3 :: 64 word)) k \<longleftrightarrow> k < 64 \<and> \<not> bit (3 :: 64 word) k"
      unfolding bit_not_iff by simp
    then show ?thesis unfolding three not_less by simp
  qed
  have "and w (- 4) = push_bit 2 (drop_bit 2 w)"
  proof (rule bit_eqI)
    fix n assume "possible_bit TYPE(64 word) n"
    then have n: "n < 64" by simp
    have "bit (and w (- 4)) n \<longleftrightarrow> bit w n \<and> 2 \<le> n" unfolding bit_and_iff neg using n by simp
    also have "\<dots> \<longleftrightarrow> bit (push_bit 2 (drop_bit 2 w)) n"
      unfolding bit_push_bit_iff bit_drop_bit_eq comp_def using n by (auto simp: le_iff_add)
    finally show "bit (and w (- 4)) n \<longleftrightarrow> bit (push_bit 2 (drop_bit 2 w)) n" .
  qed
  then show ?thesis by (simp add: push_bit_eq_mult drop_bit_eq_div)
qed

lemma unat_estimated:
  assumes "unat s < 2 ^ 32"
  shows "unat (estimated s) = 4 * ((4 * unat s div 3 + 3) div 4) + 256"
proof -
  have a: "unat (4 * s) = 4 * unat s" using assms by (simp add: unat_word_ariths)
  then have b: "unat (4 * s div 3 + 3) = 4 * unat s div 3 + 3" using assms by (simp add: unat_word_ariths unat_div)
  have "unat (4 * ((4 * s div 3 + 3) div 4)) = 4 * unat ((4 * s div 3 + 3) div 4)"
    using assms b by (simp add: unat_word_ariths unat_div)
  then show ?thesis using assms b by (simp add: estimated_def and_not_3 unat_word_ariths unat_div)
qed

lemma unat_value_room:
  assumes "unat (val_s c) < 2 ^ 32"
  shows "unat (value_room c) = (if val_v c = None then 4096 else buffer_size (unat (val_s c)))"
proof -
  note est = unat_estimated [OF assms]
  have less: "estimated (val_s c) > 4096 \<longleftrightarrow> 4096 < 4 * ((4 * unat (val_s c) div 3 + 3) div 4) + 256"
    by (simp add: word_less_nat_alt est)
  have "unat (4096 * ((estimated (val_s c) + 4096 - 1) div 4096)) = buffer_size (unat (val_s c))"
  proof -
    have "unat (estimated (val_s c) + 4095) = unat (estimated (val_s c)) + 4095"
      using assms est by (simp add: unat_word_ariths)
    then show ?thesis using assms est by (simp add: buffer_size_def unat_word_ariths unat_div)
  qed
  moreover have "buffer_size (unat (val_s c)) = 4096" if "\<not> 4096 < 4 * ((4 * unat (val_s c) div 3 + 3) div 4) + 256"
    using that by (simp add: buffer_size_def)
  ultimately show ?thesis using less by (auto simp: value_room_def)
qed

text \<open>
  C36: the buffer for the base64 text. Its size is computed as \<open>buffer_size\<close> says (4096 bytes when
  there is no value) although the code computes it in unsigned arithmetic. Emitting well-formed
  data never misbehaves if the text of the value and its terminator fit into it; if they do not,
  and the emitter accepts what comes before, the code writes past the end of the buffer.
\<close>

theorem emit_bounds:
  assumes ok: "data_ok d" and room: "room = (if val_v (cmd d) = None then 4096 else buffer_size (unat (val_s (cmd d))))"
    and mem: "heap Y 4096" "heap Y room"
    and before: "emits Y sz (start_events @ action_events (cmd d)) [] \<noteq> None"
  shows "if length (value_text Y (cmd d)) + 1 \<le> room
    then \<exists>r. rtemgr_data_emit Y d sz = Inr r
    else rtemgr_data_emit Y d sz = Inl Out_Of_Bounds"
proof -
  have "unat (val_s (cmd d)) < 2 ^ 32" using ok by (simp add: data_ok_def value_ok_def)
  from unat_value_room [OF this] room have same: "unat (value_room (cmd d)) = room" by simp
  with mem(2) have "value_room (cmd d) = 4096 \<or> heap Y (unat (value_room (cmd d)))" by simp
  from emit_cases [OF ok this mem(1) before] show ?thesis by (simp add: same Suc_le_eq)
qed

text \<open>Emitting fails only where the emitter refuses an event or malloc fails.\<close>

definition refusal :: "libs \<Rightarrow> bool" where
  "refusal Y \<longleftrightarrow> (\<exists>sz es. \<not> yaml_emits Y sz es) \<or> (\<exists>n. \<not> heap Y n)"

definition excused :: "libs \<Rightarrow> emit_step \<Rightarrow> bool" where
  "excused Y f \<longleftrightarrow> (\<forall>h. f h = Inr None \<longrightarrow> refusal Y)"

lemma excused_puts: "excused Y (puts Y sz es)"
proof -
  have "emits Y sz es h = None \<Longrightarrow> refusal Y" for h
    by (induction es arbitrary: h) (auto simp: refusal_def split: if_splits)
  then show ?thesis by (simp add: excused_def puts_def)
qed

lemma excused_on_ok: "excused Y f \<Longrightarrow> excused Y g \<Longrightarrow> excused Y (on_ok f g)"
  by (auto simp: excused_def on_ok_def and_then_eq_Inr split: option.splits)

lemma excused_text: "excused Y (emit_text Y sz buf)"
  using excused_puts by (auto simp: excused_def emit_text_def and_then_eq_Inr)

lemma excused_value: "excused Y (emit_value Y sz c)"
proof -
  have "refusal Y" if "\<not> heap Y n" for n using that by (auto simp: refusal_def)
  moreover have "puts Y sz es h = Inr None \<Longrightarrow> refusal Y" for es h
    using excused_puts by (auto simp: excused_def)
  ultimately show ?thesis
    by (auto simp: excused_def emit_value_def and_then_eq_Inr split: if_splits)
qed

lemma excused_interfaces: "excused Y (emit_interfaces Y sz n fs)"
proof (induction Y sz n fs "[] :: yaml_event list" rule: emit_interfaces.induct)
  case (3 Y sz n f fs)
  have "excused Y (emit_interface Y sz f)"
    unfolding emit_interface_def by (intro excused_on_ok excused_puts excused_text)
  moreover have "emit_interfaces Y sz (Suc n) (f # fs) = on_ok (emit_interface Y sz f) (emit_interfaces Y sz n fs)"
    by (intro ext) simp
  ultimately show ?case using 3 by (simp add: excused_on_ok)
qed (simp_all add: excused_def)

lemma emit_refused: "rtemgr_data_emit Y d sz = Inr None \<Longrightarrow> refusal Y"
proof -
  assume none: "rtemgr_data_emit Y d sz = Inr None"
  have "excused Y (on_ok (emit_start Y sz)
        (on_ok (emit_action Y sz (cmd d))
        (on_ok (emit_value Y sz (cmd d))
        (on_ok (emit_extra Y sz (cmd d))
        (on_ok (emit_count Y sz d)
        (on_ok (emit_interfaces Y sz (nat (nr_intf d)) (interfaces d))
        (emit_end Y sz)))))))"
    unfolding emit_start_def emit_action_def emit_extra_def emit_count_def emit_end_def
    by (intro excused_on_ok excused_puts excused_value excused_interfaces)
  with none show "refusal Y"
    by (auto simp: rtemgr_data_emit_def excused_def and_then_eq_Inr refusal_def split: if_splits)
qed


subsection \<open>Libraries that behave\<close>

text \<open>
  A text format in which events are tags and a scalar is its characters, each after a 1, and a
  0; and an encoding of a byte as two letters.
\<close>

definition event_tags :: "(yaml_event \<times> byte) list" where
  "event_tags = [(Stream_Start, 2), (Document_Start, 3), (Mapping_Start, 4), (Sequence_Start, 5),
     (Mapping_End, 6), (Sequence_End, 7), (Document_End, 8), (Stream_End, 9)]"

fun sample_text :: "yaml_event list \<Rightarrow> byte list" where
  "sample_text [] = []"
| "sample_text (Scalar style s # es) = 10 # concat (map (\<lambda>b. [1, b]) (bytes_of s)) @ [0] @ sample_text es"
| "sample_text (Alias s # es) = 11 # concat (map (\<lambda>b. [1, b]) (bytes_of s)) @ [0] @ sample_text es"
| "sample_text (e # es) = (case map_of event_tags e of None \<Rightarrow> [] | Some t \<Rightarrow> [t]) @ sample_text es"

fun read_scalar :: "byte list \<Rightarrow> byte list \<times> byte list" where
  "read_scalar (t # b # bs) =
     (if t = 1 then (let (s, r) = read_scalar bs in (b # s, r)) else ([], b # bs))"
| "read_scalar bs = ([], drop 1 bs)"

lemma read_scalar_text [simp]: "read_scalar (concat (map (\<lambda>b. [1, b]) bs) @ 0 # r) = (bs, r)"
proof (induction bs)
  case Nil
  then show ?case by (cases r) simp_all
qed simp

lemma read_scalar_shorter: "length (snd (read_scalar bs)) \<le> length bs"
  by (induction bs rule: read_scalar.induct) (auto simp: Let_def case_prod_beta)

function sample_events :: "byte list \<Rightarrow> yaml_event list" where
  "sample_events [] = []"
| "sample_events (t # bs) =
     (if t = 10 then (case read_scalar bs of (s, r) \<Rightarrow> Scalar Plain (text_of s) # sample_events r)
      else if t = 11 then (case read_scalar bs of (s, r) \<Rightarrow> Alias (text_of s) # sample_events r)
      else (case find (\<lambda>p. snd p = t) event_tags of
              None \<Rightarrow> sample_events bs | Some p \<Rightarrow> fst p # sample_events bs))"
  by pat_completeness auto
termination
proof (relation "measure length")
  fix bs r :: "byte list" and t :: byte and s
  assume "(s, r) = read_scalar bs"
  then have "length r \<le> length bs" using read_scalar_shorter [of bs] by (metis snd_conv)
  then show "(r, t # bs) \<in> measure length" "(r, t # bs) \<in> measure length" by simp_all
qed simp_all

lemma sample_events_text: "sample_events (sample_text es) = map yaml_value es"
  by (induction es rule: sample_text.induct) (simp_all add: event_tags_def)

fun sample_encode :: "byte list \<Rightarrow> string" where
  "sample_encode [] = []"
| "sample_encode (b # bs) =
     char_of (65 + unat b div 16) # char_of (65 + unat b mod 16) # sample_encode bs"

fun sample_decode :: "string \<Rightarrow> byte list" where
  "sample_decode (c # d # s) =
     of_nat ((of_char c - 65) * 16 + (of_char d - 65)) # sample_decode s"
| "sample_decode s = []"

lemma sample_encode_ok: "NUL \<notin> set (sample_encode bs) \<and> sample_decode (sample_encode bs) = bs"
proof (induction bs)
  case (Cons b bs)
  have b: "unat b < 256" by (rule less_le_trans [OF unsigned_less]) simp
  have nul: "char_of n \<noteq> NUL" if "65 \<le> n" "n < 256" for n :: nat
  proof
    assume "char_of n = NUL"
    then have "(of_char (char_of n) :: nat) = 0" by simp
    with that show False by simp
  qed
  have "NUL \<noteq> char_of (65 + unat b div 16)" "NUL \<noteq> char_of (65 + unat b mod 16)"
    by (rule nul [symmetric]; use b in simp)+
  moreover have "(65 + unat b div 16) mod 256 = 65 + unat b div 16" "(65 + unat b mod 16) mod 256 = 65 + unat b mod 16"
    using b by auto
  ultimately show ?case using Cons by simp
qed simp

definition sample_libs :: libs where
  "sample_libs = \<lparr>heap = (\<lambda>_. True), yaml_emits = (\<lambda>_ _. True), yaml_text = sample_text,
     yaml_events = sample_events, b64_encode = sample_encode, b64_decode = sample_decode\<rparr>"

lemma yaml_value_idem [simp]: "yaml_value (yaml_value e) = yaml_value e"
  by (cases e) simp_all

lemma libs_ok_sample: "libs_ok sample_libs"
  by (simp add: libs_ok_def sample_libs_def sample_events_text sample_encode_ok comp_def)

definition sample_data :: rtemgr_data where
  "sample_data = \<lparr>cmd = \<lparr>action = 6, cmd_error = -1, val_v = Some [72, 105], val_s = 2, extra_addr = 0x50,
     extra_rsize = 4\<rparr>, nr_intf = 1, interfaces = [new_intf\<lparr>if_name := strncpy 16 ''lo''\<rparr>]\<rparr>"

lemma sample_data_ok: "data_ok sample_data"
proof -
  have "fits_array n (replicate n NUL)" if "0 < n" for n
    using that unfolding fits_array_def by (intro exI [of _ "[]"]) (simp add: strncpy_def)
  moreover have "fits_array 16 (strncpy 16 ''lo'')"
    unfolding fits_array_def by (intro exI [of _ "''lo''"]) simp
  ultimately show ?thesis
    by (simp add: data_ok_def value_ok_def intf_ok_def is_int_def sample_data_def new_intf_def)
qed

lemma sample_libs_simps [simp]:
  "heap sample_libs n" "yaml_emits sample_libs sz es" "b64_encode sample_libs = sample_encode"
  by (simp_all add: sample_libs_def)

lemma emits_sample [simp]: "emits sample_libs sz es h = Some (h @ es)"
  by (induction es arbitrary: h) simp_all

lemma not_refusal_sample: "\<not> refusal sample_libs"
  by (simp add: refusal_def)

lemma length_sample_encode: "length (sample_encode bs) = 2 * length bs"
  by (induction bs) simp_all

lemma sample_emitted:
  assumes "data_ok d" "2 * unat (val_s (cmd d)) < unat (value_room (cmd d))"
  shows "\<exists>out. rtemgr_data_emit sample_libs d sz = Inr (Some out)"
proof -
  have "length (value_text sample_libs (cmd d)) \<le> 2 * unat (val_s (cmd d))"
    by (simp add: value_text_def length_sample_encode)
  with assms emit_cases [of d sample_libs sz] obtain r where "rtemgr_data_emit sample_libs d sz = Inr r"
    by auto
  with emit_refused [of sample_libs d sz] not_refusal_sample show ?thesis by (cases r) auto
qed

theorem emit_parse_witness:
  "\<exists>out. rtemgr_data_emit sample_libs sample_data 4096 = Inr (Some out) \<and>
     rtemgr_data_parse sample_libs out = Inr (Some sample_data)"
proof -
  obtain out where out: "rtemgr_data_emit sample_libs sample_data 4096 = Inr (Some out)"
    using sample_emitted [OF sample_data_ok] by (auto simp: sample_data_def value_room_def estimated_def)
  have "heap sample_libs n" for n by (simp add: sample_libs_def)
  from emit_parse [OF libs_ok_sample this sample_data_ok out] out show ?thesis
    by (simp add: sample_data_def)
qed

theorem emit_bounds_witness: "\<exists>r. rtemgr_data_emit sample_libs sample_data 4096 = Inr r"
proof -
  have "length (value_text sample_libs (cmd sample_data)) = 4"
    by (simp add: value_text_def sample_data_def)
  moreover have "val_v (cmd sample_data) \<noteq> None" "buffer_size (unat (val_s (cmd sample_data))) = 4096"
    by (simp_all add: sample_data_def buffer_size_def)
  ultimately show ?thesis
    using emit_bounds [OF sample_data_ok, of 4096 sample_libs 4096] by simp
qed

text \<open>A packet that announces one interface and has two.\<close>

theorem parse_packet_witness:
  "rtemgr_data_parse sample_libs
     (sample_text (packet_events (cmd sample_data) ''HCGJ'' 2 1 (replicate 2 (hd (interfaces sample_data))))) =
   Inl Out_Of_Bounds"
proof -
  have heap: "heap sample_libs n" for n by (simp add: sample_libs_def)
  have same: "map yaml_value (yaml_events sample_libs (sample_text es)) = map yaml_value es" for es
    by (simp add: sample_libs_def sample_events_text comp_def)
  have "is_int (action (cmd sample_data))" "is_int (cmd_error (cmd sample_data))" "(2 :: nat) < 2 ^ 32" "is_int 1"
    by (simp_all add: is_int_def sample_data_def)
  moreover have "\<forall>f \<in> set (replicate 2 (hd (interfaces sample_data))). intf_ok f"
    using sample_data_ok by (simp add: data_ok_def sample_data_def)
  moreover have "NUL \<notin> set ''HCGJ''" by simp
  ultimately show ?thesis
    using parse_packet [OF heap same] by simp
qed

end
