(* ===== verification/Rtemgr_Types.thy ===== *)
theory Rtemgr_Types
  imports Rtemgr_Wire
begin

section \<open>Packets have the types that they are declared with\<close>

text \<open>
  The model keeps integers of 32 bits and character arrays as unbounded integers and lists. That
  a parsed packet stays within the declared types, whatever text the peer has sent, is the
  invariant of the parser.
\<close>

definition intf_typed :: "rtemgr_intf \<Rightarrow> bool" where
  "intf_typed f \<longleftrightarrow> is_int (if_id f) \<and> is_int (if_bus f) \<and> is_int (if_domain f) \<and> is_int (if_managed f) \<and>
     length (if_name f) = 16 \<and> length (if_path f) = 128 \<and> length (if_partner f) = 16"

definition packet_typed :: "rtemgr_data \<Rightarrow> bool" where
  "packet_typed d \<longleftrightarrow> is_int (action (cmd d)) \<and> is_int (cmd_error (cmd d)) \<and>
     nr_intf d = int (length (interfaces d)) \<and> length (interfaces d) < 2 ^ 31 \<and>
     (\<forall>f \<in> set (interfaces d). intf_typed f)"

lemma new_intf_typed: "intf_typed new_intf"
  by (simp add: intf_typed_def new_intf_def is_int_def)

lemma num_is_int: "is_int (num v)"
  by (simp add: num_def as_int_is_int)

lemma alloc_interface_typed:
  assumes "packet_typed d" "nr_intf d + 1 < 2 ^ 31" "rtemgr_data_alloc_interface Y d = Some d'"
  shows "packet_typed d' \<and> nr_intf d' = nr_intf d + 1"
  using assms new_intf_typed
  by (auto simp: rtemgr_data_alloc_interface_def packet_typed_def is_int_def Let_def split: if_splits)

lemma alloc_interfaces_typed:
  assumes "packet_typed d" "nr_intf d + int n < 2 ^ 31" "alloc_interfaces Y n d = Some d'"
  shows "packet_typed d'"
  using assms
proof (induction n arbitrary: d)
  case (Suc n)
  then obtain d1 where d1: "rtemgr_data_alloc_interface Y d = Some d1" "alloc_interfaces Y n d1 = Some d'"
    by (auto split: option.splits)
  with alloc_interface_typed [OF Suc.prems(1) _ d1(1)] Suc.IH [of d1] Suc.prems(2) show ?case by auto
qed simp

lemma set_cmd_typed:
  assumes "packet_typed (p_data p)" "is_int (action (f (cmd (p_data p))))" "is_int (cmd_error (f (cmd (p_data p))))"
  shows "packet_typed (p_data (set_cmd f p))"
  using assms by (simp add: packet_typed_def set_cmd_def)

lemma set_intf_typed:
  assumes "packet_typed (p_data p)" "\<And>f. intf_typed f \<Longrightarrow> intf_typed (g f)" "set_intf g p = Inr p'"
  shows "packet_typed (p_data p')"
  using assms
  by (auto simp: packet_typed_def set_intf_def Let_def dest!: set_update_subset_insert [THEN subsetD] split: if_splits)

lemma intf_update_typed: "intf_update item v = Some g \<Longrightarrow> intf_typed f \<Longrightarrow> intf_typed (g f)"
  by (auto simp: intf_update_def intf_typed_def num_is_int split: pitem.splits)

lemma scalar_top_typed:
  assumes "packet_typed (p_data p)" "scalar_top Y v p = Some p'"
  shows "packet_typed (p_data p')"
proof (cases "p_item p = Nr_Intf")
  case True
  let ?d = "p_data p" and ?n = "nat (num v - nr_intf (p_data p))"
  from True assms(2) obtain d where d: "alloc_interfaces Y ?n ?d = Some d" "p_data p' = d"
    by (auto simp: scalar_top_def split: option.splits)
  have "nr_intf ?d + int ?n < 2 ^ 31" using num_is_int [of v] assms(1) by (auto simp: is_int_def packet_typed_def)
  with alloc_interfaces_typed [OF assms(1) _ d(1)] d(2) show ?thesis by simp
next
  case False
  with assms show ?thesis by (auto simp: scalar_top_def split: pitem.splits)
qed

lemma scalar_fields_typed:
  assumes "packet_typed (p_data p)"
  shows "packet_typed (p_data (scalar_cmd v p))" "packet_typed (p_data (scalar_val Y v p))"
    "packet_typed (p_data (scalar_ext v p))" "packet_typed (p_data (scalar_key v p))"
proof -
  have ints: "is_int (action (cmd (p_data p)))" "is_int (cmd_error (cmd (p_data p)))"
    using assms by (simp_all add: packet_typed_def)
  show "packet_typed (p_data (scalar_cmd v p))" "packet_typed (p_data (scalar_val Y v p))"
    "packet_typed (p_data (scalar_ext v p))" "packet_typed (p_data (scalar_key v p))"
    by (auto simp: scalar_cmd_def scalar_val_def scalar_ext_def scalar_key_def assms ints num_is_int
        intro!: set_cmd_typed split: pitem.split)
qed

lemma scalar_intf_typed:
  assumes "packet_typed (p_data p)" "scalar_intf v p = Inr p'"
  shows "packet_typed (p_data p')"
proof (cases "p_item p = Item_None")
  case True
  with assms show ?thesis by (auto simp: scalar_intf_def)
next
  case False
  show ?thesis
  proof (cases "intf_update (p_item p) v")
    case None
    with False assms show ?thesis by (auto simp: scalar_intf_def)
  next
    case (Some g)
    with False assms(2) obtain q where "set_intf g p = Inr q" "p_data p' = p_data q"
      by (auto simp: scalar_intf_def and_then_eq_Inr)
    with set_intf_typed [OF assms(1) intf_update_typed [OF Some]] show ?thesis by simp
  qed
qed

lemma parse_event_typed:
  assumes "packet_typed (p_data p)"
  shows "returns (\<lambda>p'. packet_typed (p_data p')) (parse_event Y e p)"
proof -
  have "returns (\<lambda>p'. packet_typed (p_data p')) (scalar_event Y v p)" for v
    using assms scalar_top_typed [OF assms] scalar_intf_typed [OF assms] scalar_fields_typed [OF assms]
    by (auto simp: scalar_event_def returns_def and_then_eq_Inr split: pfield.splits if_splits)
  with assms show ?thesis by (auto simp: parse_event_def sequence_end_def Let_def returns_def split: yaml_event.splits)
qed

lemma parse_loop_typed:
  assumes "packet_typed (p_data p)" "parse_loop Y es p = Inr (Some p')"
  shows "packet_typed (p_data p')"
  using assms
proof (induction es arbitrary: p)
  case (Cons e es)
  from Cons.prems(2) obtain q where q: "parse_event Y e p = Inr (Some q)"
      "q = p' \<or> parse_loop Y es q = Inr (Some p')"
    by (auto simp: and_then_eq_Inr split: option.splits if_splits)
  with parse_event_typed [OF Cons.prems(1), of Y e] Cons.IH [of q] show ?case by (auto simp: returns_def)
qed simp

text \<open>
  C15: a parsed packet has the types it is declared with. Whatever bytes arrive and whatever
  events the YAML parser makes of them, a packet that \<open>rtemgr_data_parse\<close> returns has as many
  interfaces as it says, every integer of it is one of 32 bits, and every name and path fills
  exactly its array.
\<close>

theorem parsed_packet_typed:
  assumes "rtemgr_data_parse Y inp = Inr (Some d)"
  shows "packet_typed d"
proof -
  from assms obtain d0 p where d0: "rtemgr_data_alloc Y = Some d0"
    and p: "parse_loop Y (yaml_events Y inp) \<lparr>p_field = Top_Level, p_item = Item_None, p_nest = 0, p_start = 0,
        p_idx = 0, p_intf = False, p_data = d0\<rparr> = Inr (Some p)" and d: "decode_value Y (p_data p) = Inr (Some d)"
    by (auto simp: rtemgr_data_parse_def and_then_eq_Inr split: option.splits)
  from d0 have "packet_typed d0" by (auto simp: rtemgr_data_alloc_def packet_typed_def is_int_def split: if_splits)
  with parse_loop_typed [OF _ p] have "packet_typed (p_data p)" by simp
  with d show ?thesis
    by (auto simp: decode_value_def packet_typed_def Let_def split: option.splits if_splits)
qed

theorem parsed_packet_typed_witness:
  "\<exists>inp d. rtemgr_data_parse sample_libs inp = Inr (Some d) \<and> packet_typed d \<and> length (interfaces d) = 1"
proof -
  obtain out where out: "rtemgr_data_emit sample_libs sample_data 4096 = Inr (Some out)"
    using sample_emitted [OF sample_data_ok] by (auto simp: sample_data_def value_room_def estimated_def)
  have "heap sample_libs n" for n by (simp add: sample_libs_def)
  from emitted_parses [OF libs_ok_sample this sample_data_ok out]
  have "rtemgr_data_parse sample_libs out = Inr (Some sample_data)" by (simp add: sample_data_def)
  with parsed_packet_typed [OF this] show ?thesis by (intro exI [of _ out]) (simp add: sample_data_def)
qed

end
