(* ===== verification/Os.thy ===== *)
theory Os
  imports Prelude
begin

section \<open>The operating system and the device libraries\<close>

text \<open>
  What the endpoints do with the kernel, libgpiod, libudev and libevent's listeners is recorded
  as a list of calls, newest first (\<open>os_calls\<close>). What these answer is an argument: a record
  of functions of the calls made so far and of the call itself. Handles (a chip, a line, a udev
  device, a listener, a block of memory) are numbers, \<open>None\<close> is NULL; \<open>os_int\<close> is a status
  or a file descriptor; \<open>os_data\<close> is the data a call delivers; \<open>os_byte\<close> is the byte it
  stores at an index of a buffer. A function that both logs a call and takes its answer is
  \<open>sys\<close>.
\<close>

record i2c_msg =
  i2c_addr :: "16 word"
  i2c_flags :: "16 word"
  i2c_len :: "16 word"
  i2c_tx :: "byte list"

datatype ioctl =
    I2C_FUNCS
  | I2C_RDWR "i2c_msg list"
  | SPI_IOC_WR_MODE int
  | SPI_IOC_WR_MAX_SPEED_HZ int
  | SPI_IOC_MESSAGE byte

datatype os_call =
    Malloc nat | Free nat
  | Sys_Open string | Sys_Close int | Sys_Ioctl int ioctl | Sys_Read int nat
  | Sys_Write int "byte list" | Sys_Unlink "string option"
  | Set_Speed int | Set_Attr int int
  | Event_Add int | Event_Del int
  | Chip_Open string | Chip_Close nat | Chip_Get_Line nat int
  | Line_Request_Output nat string int | Line_Request_Events nat string
  | Line_Event_Fd nat | Line_Event_Read nat | Line_Set_Value nat byte
  | Udev_New | Udev_Unref nat
  | Device_From_Syspath string | Device_From_Id string
  | Device_From_Subsystem string string | Device_Unref nat
  | Sysattr_Set nat string "string option" | Sysattr_Get nat string
  | Inet_Pton string
  | Listener_New "byte list" nat | Listener_Free nat | Listener_Accept nat bool
  | Cli_New int | Cli_Free nat | Cli_Write nat "byte list"
  | Loop_Exit

record os =
  os_int :: "os_call list \<Rightarrow> os_call \<Rightarrow> int"
  os_ptr :: "os_call list \<Rightarrow> os_call \<Rightarrow> nat option"
  os_data :: "os_call list \<Rightarrow> os_call \<Rightarrow> byte list option"
  os_byte :: "os_call list \<Rightarrow> os_call \<Rightarrow> nat \<Rightarrow> byte"

record os_state =
  os_calls :: "os_call list"

type_synonym 'a answer = "os_call list \<Rightarrow> os_call \<Rightarrow> 'a"

definition sys :: "'a answer \<Rightarrow> os_call \<Rightarrow> 'z os_state_scheme \<Rightarrow> 'a \<times> 'z os_state_scheme" where
  "sys ans c st = (ans (os_calls st) c, st\<lparr>os_calls := c # os_calls st\<rparr>)"

text \<open>A call without an answer of interest.\<close>

definition note_call :: "os_call \<Rightarrow> 'z os_state_scheme \<Rightarrow> 'z os_state_scheme" where
  "note_call c st = st\<lparr>os_calls := c # os_calls st\<rparr>"

lemmas os_defs = sys_def note_call_def

text \<open>
  \<open>held E h\<close>: the resources that are acquired and not released after the calls \<open>h\<close>.
\<close>

datatype resource = Mem nat | Fd int | Chip nat | Event int | Udev nat | Device nat | Listener nat

fun acquired :: "os \<Rightarrow> os_call list \<Rightarrow> os_call \<Rightarrow> resource set" where
  "acquired E h (Malloc n) = Mem ` set_option (os_ptr E h (Malloc n))"
| "acquired E h (Sys_Open p) = (let fd = os_int E h (Sys_Open p) in if fd < 0 then {} else {Fd fd})"
| "acquired E h (Event_Add fd) = {Event fd}"
| "acquired E h (Chip_Open p) = Chip ` set_option (os_ptr E h (Chip_Open p))"
| "acquired E h Udev_New = Udev ` set_option (os_ptr E h Udev_New)"
| "acquired E h (Device_From_Syspath p) = Device ` set_option (os_ptr E h (Device_From_Syspath p))"
| "acquired E h (Device_From_Id p) = Device ` set_option (os_ptr E h (Device_From_Id p))"
| "acquired E h (Device_From_Subsystem p q) =
     Device ` set_option (os_ptr E h (Device_From_Subsystem p q))"
| "acquired E h (Listener_New a n) = Listener ` set_option (os_ptr E h (Listener_New a n))"
| "acquired E h _ = {}"

fun released :: "os_call \<Rightarrow> resource set" where
  "released (Free p) = {Mem p}"
| "released (Sys_Close fd) = {Fd fd}"
| "released (Event_Del fd) = {Event fd}"
| "released (Chip_Close c) = {Chip c}"
| "released (Udev_Unref u) = {Udev u}"
| "released (Device_Unref d) = {Device d}"
| "released (Listener_Free l) = {Listener l}"
| "released _ = {}"

fun held :: "os \<Rightarrow> os_call list \<Rightarrow> resource set" where
  "held E [] = {}"
| "held E (c # h) = (held E h \<union> acquired E h c) - released c"

text \<open>A system hands out nothing that is still held.\<close>

definition os_ok :: "os \<Rightarrow> bool" where
  "os_ok E \<longleftrightarrow> (\<forall>h c. (\<forall>fd. c \<noteq> Event_Add fd) \<longrightarrow> acquired E h c \<inter> held E h = {})"

lemma os_okD:
  assumes "os_ok E"
  shows "os_ptr E h (Malloc n) = Some p \<Longrightarrow> Mem p \<notin> held E h"
    and "0 \<le> os_int E h (Sys_Open s) \<Longrightarrow> Fd (os_int E h (Sys_Open s)) \<notin> held E h"
    and "os_ptr E h (Chip_Open s) = Some p \<Longrightarrow> Chip p \<notin> held E h"
    and "os_ptr E h Udev_New = Some p \<Longrightarrow> Udev p \<notin> held E h"
    and "os_ptr E h (Device_From_Syspath s) = Some p \<Longrightarrow> Device p \<notin> held E h"
    and "os_ptr E h (Device_From_Id s) = Some p \<Longrightarrow> Device p \<notin> held E h"
    and "os_ptr E h (Device_From_Subsystem s t) = Some p \<Longrightarrow> Device p \<notin> held E h"
    and "os_ptr E h (Listener_New a n) = Some p \<Longrightarrow> Listener p \<notin> held E h"
proof -
  have *: "acquired E h c \<inter> held E h = {}" if "\<And>fd. c \<noteq> Event_Add fd" for c
    using assms that unfolding os_ok_def by blast
  show "os_ptr E h (Malloc n) = Some p \<Longrightarrow> Mem p \<notin> held E h"
    using * [of "Malloc n"] by auto
  show "0 \<le> os_int E h (Sys_Open s) \<Longrightarrow> Fd (os_int E h (Sys_Open s)) \<notin> held E h"
    using * [of "Sys_Open s"] by (auto simp: Let_def)
  show "os_ptr E h (Chip_Open s) = Some p \<Longrightarrow> Chip p \<notin> held E h"
    using * [of "Chip_Open s"] by auto
  show "os_ptr E h Udev_New = Some p \<Longrightarrow> Udev p \<notin> held E h"
    using * [of Udev_New] by auto
  show "os_ptr E h (Device_From_Syspath s) = Some p \<Longrightarrow> Device p \<notin> held E h"
    using * [of "Device_From_Syspath s"] by auto
  show "os_ptr E h (Device_From_Id s) = Some p \<Longrightarrow> Device p \<notin> held E h"
    using * [of "Device_From_Id s"] by auto
  show "os_ptr E h (Device_From_Subsystem s t) = Some p \<Longrightarrow> Device p \<notin> held E h"
    using * [of "Device_From_Subsystem s t"] by auto
  show "os_ptr E h (Listener_New a n) = Some p \<Longrightarrow> Listener p \<notin> held E h"
    using * [of "Listener_New a n"] by auto
qed

text \<open>A system that numbers what it hands out by the calls made so far, and never fails.\<close>

definition counting_os :: os where
  "counting_os = \<lparr>os_int = (\<lambda>h c. int (length h)), os_ptr = (\<lambda>h c. Some (length h)),
     os_data = (\<lambda>h c. None), os_byte = (\<lambda>h c n. of_nat (n + 1))\<rparr>"

lemma counting_os_simps [simp]:
  "os_int counting_os h c = int (length h)" "os_ptr counting_os h c = Some (length h)"
  "os_data counting_os h c = None" "os_byte counting_os h c = (\<lambda>n. of_nat (n + 1))"
  by (simp_all add: counting_os_def)

fun serial :: "resource \<Rightarrow> int" where
  "serial (Mem n) = int n"
| "serial (Fd i) = i"
| "serial (Chip n) = int n"
| "serial (Event i) = -1"
| "serial (Udev n) = int n"
| "serial (Device n) = int n"
| "serial (Listener n) = int n"

lemma counting_os_fresh: "r \<in> acquired counting_os h c \<Longrightarrow> serial r = int (length h) \<or> serial r = -1"
  by (cases c) (auto simp: Let_def)

lemma counting_os_held: "r \<in> held counting_os h \<Longrightarrow> serial r < int (length h)"
proof (induction h)
  case (Cons c h)
  then show ?case using counting_os_fresh [of r h c] by auto
qed simp

lemma os_ok_counting [simp]: "os_ok counting_os"
proof -
  have "serial r = int (length h)" if "r \<in> acquired counting_os h c" "\<forall>fd. c \<noteq> Event_Add fd" for r h c
    using that by (cases c) (auto simp: Let_def)
  then show ?thesis using counting_os_held by (fastforce simp: os_ok_def)
qed


subsection \<open>Devices that are opened and closed\<close>

text \<open>
  The contract of a device on a sane system (\<open>os_ok\<close>): a failing open acquires nothing, a successful one acquires
  \<open>res d\<close>, none of it in use before, and closing releases exactly that. A run opens devices
  and closes any of the open ones; when all are closed nothing is left over.
\<close>

datatype dev_op = Dev_Open string | Dev_Close nat

fun dev_run ::
  "(string \<Rightarrow> 'st \<Rightarrow> int \<times> 'd option \<times> 'st) \<Rightarrow> ('d \<Rightarrow> 'st \<Rightarrow> 'st) \<Rightarrow> dev_op list \<Rightarrow>
   'd list \<times> 'st \<Rightarrow> 'd list \<times> 'st" where
  "dev_run op cl [] s = s"
| "dev_run op cl (Dev_Open p # ops) (ds, st) =
     (case op p st of
        (r, Some d, st') \<Rightarrow> dev_run op cl ops (d # ds, st')
      | (r, None, st') \<Rightarrow> dev_run op cl ops (ds, st'))"
| "dev_run op cl (Dev_Close i # ops) (ds, st) =
     (if i < length ds then dev_run op cl ops (take i ds @ drop (Suc i) ds, cl (ds ! i) st)
      else dev_run op cl ops (ds, st))"

locale device =
  fixes sane :: bool
    and holds :: "'st \<Rightarrow> resource set"
    and op :: "string \<Rightarrow> 'st \<Rightarrow> int \<times> 'd option \<times> 'st"
    and cl :: "'d \<Rightarrow> 'st \<Rightarrow> 'st"
    and res :: "'d \<Rightarrow> resource set"
  assumes op_fails: "sane \<Longrightarrow> op p st = (r, None, st') \<Longrightarrow> r = -1 \<and> holds st' = holds st"
    and op_works: "sane \<Longrightarrow> op p st = (r, Some d, st') \<Longrightarrow>
      r = 0 \<and> holds st' = holds st \<union> res d \<and> res d \<inter> holds st = {}"
    and cl_releases: "holds (cl d st) = holds st - res d"
begin

fun separate :: "resource set \<Rightarrow> 'd list \<Rightarrow> bool" where
  "separate R [] = True"
| "separate R (d # ds) \<longleftrightarrow> res d \<inter> (R \<union> \<Union>(res ` set ds)) = {} \<and> separate R ds"

lemma separate_append:
  "separate R (as @ d # bs) \<longleftrightarrow>
     separate R (as @ bs) \<and> res d \<inter> (R \<union> \<Union>(res ` set (as @ bs))) = {}"
  by (induction as) auto

lemma run_holds:
  assumes sane and "dev_run op cl ops (ds, st) = (ds', st')"
    and "holds st = R \<union> \<Union>(res ` set ds)" "separate R ds"
  shows "holds st' = R \<union> \<Union>(res ` set ds')" "separate R ds'"
proof -
  have "holds st' = R \<union> \<Union>(res ` set ds') \<and> separate R ds'"
    using assms(2-4)
  proof (induction ops arbitrary: ds st)
    case (Cons x ops)
    show ?case
    proof (cases x)
      case (Dev_Open p)
      obtain r y st1 where o: "op p st = (r, y, st1)" by (cases "op p st") auto
      show ?thesis
      proof (cases y)
        case None
        with o Dev_Open Cons op_fails [OF \<open>sane\<close>, of p st r st1] show ?thesis by simp
      next
        case (Some d)
        with o have "holds st1 = R \<union> \<Union>(res ` set (d # ds))" "separate R (d # ds)"
          using op_works [OF \<open>sane\<close>, of p st r d st1] Cons.prems(2,3) by auto
        from Cons.IH [OF _ this] Cons.prems(1) o Some Dev_Open show ?thesis by simp
      qed
    next
      case (Dev_Close i)
      show ?thesis
      proof (cases "i < length ds")
        case True
        define as where "as = take i ds"
        define bs where "bs = drop (Suc i) ds"
        define d where "d = ds ! i"
        from True have ds_d: "ds = as @ d # bs" unfolding as_def bs_def d_def by (rule id_take_nth_drop)
        from Cons.prems(3) have "separate R (as @ d # bs)" by (simp only: ds_d)
        then have rest: "separate R (as @ bs)" "res d \<inter> (R \<union> \<Union>(res ` set (as @ bs))) = {}"
          by (simp_all only: separate_append)
        from Cons.prems(2) have "holds st = R \<union> \<Union>(res ` set (as @ d # bs))" by (simp only: ds_d)
        then have "holds st = res d \<union> (R \<union> \<Union>(res ` set (as @ bs)))" by auto
        with rest(2) have "holds (cl d st) = R \<union> \<Union>(res ` set (as @ bs))"
          unfolding cl_releases by blast
        from Cons.IH [OF _ this rest(1)] Cons.prems(1) True Dev_Close show ?thesis
          by (simp add: as_def bs_def d_def)
      next
        case False
        with Cons Dev_Close show ?thesis by simp
      qed
    qed
  qed simp
  then show "holds st' = R \<union> \<Union>(res ` set ds')" "separate R ds'" by simp_all
qed

text \<open>When every device that was opened has been closed, nothing more is held than before.\<close>

lemma no_leak: "sane \<Longrightarrow> dev_run op cl ops ([], st) = ([], st') \<Longrightarrow> holds st' = holds st"
  using run_holds(1) [of ops "[]" st "[]" st' "holds st"] by simp

end

end
