(* ===== verification/Base.thy ===== *)
theory Base
  imports Os
begin

section \<open>The event base of a thread (src/src/base.c)\<close>

text \<open>
  \<open>__base\<close> is a thread-local pointer; \<open>None\<close> is NULL. libevent's event bases are numbers, of
  which \<open>live_bases\<close> have not been freed; what the library does with a base is recorded as a
  list of calls, newest first. A call with a base that was freed misbehaves.
\<close>

datatype base_call =
    Base_Loopexit nat
  | Base_Dispatch nat
  | Base_Reinit nat
  | Base_Free nat

record base_state = os_state +
  base :: "nat option"
  live_bases :: "nat set"
  base_calls :: "base_call list"

definition use_base :: "(nat \<Rightarrow> base_call) \<Rightarrow> nat \<Rightarrow> ('z) base_state_scheme \<Rightarrow>
    ('z) base_state_scheme outcome" where
  "use_base call b st =
     (if b \<in> live_bases st then Inr (st\<lparr>base_calls := call b # base_calls st\<rparr>)
      else Inl Dangling)"

definition rteipc_dispatch ::
  "bool \<Rightarrow> ('z) base_state_scheme \<Rightarrow> ('z) base_state_scheme outcome" where
  "rteipc_dispatch tv st =
     (case base st of
        None \<Rightarrow> Inr st
      | Some b \<Rightarrow>
          and_then (if tv then use_base Base_Loopexit b st else Inr st) (use_base Base_Dispatch b))"

definition rteipc_reinit :: "('z) base_state_scheme \<Rightarrow> ('z) base_state_scheme outcome" where
  "rteipc_reinit st =
     (case base st of None \<Rightarrow> Inr st | Some b \<Rightarrow> use_base Base_Reinit b st)"

text \<open>\<open>new\<close> is what \<open>event_base_new\<close> returns, a base that is live from then on, or NULL.\<close>

definition rteipc_init ::
  "nat option \<Rightarrow> nat option \<Rightarrow> ('z) base_state_scheme \<Rightarrow> ('z) base_state_scheme" where
  "rteipc_init arg new st =
     (if base st \<noteq> None then st
      else (case arg of
              Some b \<Rightarrow> st\<lparr>base := Some b\<rparr>
            | None \<Rightarrow> st\<lparr>base := new, live_bases := live_bases st \<union> set_option new\<rparr>))"

definition rteipc_shutdown :: "('z) base_state_scheme \<Rightarrow> ('z) base_state_scheme outcome" where
  "rteipc_shutdown st =
     (case base st of
        None \<Rightarrow> Inr st
      | Some b \<Rightarrow>
          and_then (use_base Base_Free b st) (\<lambda>st'.
          Inr (st'\<lparr>live_bases := live_bases st' - {b}\<rparr>)))"

lemmas base_op_defs =
  use_base_def rteipc_dispatch_def rteipc_reinit_def rteipc_init_def rteipc_shutdown_def

text \<open>
  The life of a base. The first initialisation of a thread sets the base, a second one is
  ignored; dispatching runs the loop of this base, after the exit timer when one is asked for;
  and a shutdown frees the base but keeps the pointer, so that afterwards every initialisation
  is ignored and dispatching, reinitialising or shutting down again uses the freed base.
\<close>

theorem base_life_cycle:
  assumes "base st = None" and "init = rteipc_init None (Some b) st"
  shows "base init = Some b \<and> rteipc_init arg new init = init \<and>
    rteipc_dispatch tv init =
      Inr (init\<lparr>base_calls :=
        Base_Dispatch b # (if tv then [Base_Loopexit b] else []) @ base_calls init\<rparr>) \<and>
    (\<exists>down. rteipc_shutdown init = Inr down \<and> rteipc_init arg new down = down \<and>
       rteipc_dispatch tv down = Inl Dangling \<and> rteipc_reinit down = Inl Dangling \<and>
       rteipc_shutdown down = Inl Dangling)"
  using assms by (auto simp: base_op_defs)

theorem base_life_cycle_witness:
  "\<exists>down. rteipc_shutdown
       (rteipc_init None (Some 7) \<lparr>os_calls = [], base = None, live_bases = {}, base_calls = []\<rparr>) = Inr down \<and>
     rteipc_dispatch True down = Inl Dangling"
  using base_life_cycle
    [of "\<lparr>os_calls = [], base = None, live_bases = {}, base_calls = []\<rparr>", OF _ refl, of 7 None None True]
  by auto

end
