(* ===== verification/Table.thy ===== *)
theory Table
  imports Lists
begin

section \<open>The descriptor table (src/src/table.c, src/src/table.h)\<close>

text \<open>
  A table hands out small integers for values: a bitmap \<open>desc\<close> of 64-bit words records
  the descriptors in use, a list of entries maps a descriptor to its value. The entry list is
  the sequence that theory Lists justifies; the bitmap is a list of machine words. malloc is an
  argument: \<open>m_desc\<close> and \<open>m_entry\<close> say whether the two calls of \<open>dtbl_set\<close> succeed.
  The mutex makes each operation atomic, so an operation is one function.
\<close>

abbreviation DESC_BIT_WIDTH :: nat where
  "DESC_BIT_WIDTH \<equiv> 64"

record 'v dtbl_entry =
  entry_id :: int
  entry_val :: 'v

record 'v dtbl =
  desc :: "64 word list option"
  next_entry :: nat
  max_entries :: nat
  entry_list :: "'v dtbl_entry list"

definition DTBL_INITIALIZER :: "nat \<Rightarrow> 'v dtbl" where
  "DTBL_INITIALIZER n =
     \<lparr>desc = None, next_entry = 0, max_entries = n div DESC_BIT_WIDTH, entry_list = []\<rparr>"

definition set_desc_id :: "64 word list \<Rightarrow> nat \<Rightarrow> 64 word list" where
  "set_desc_id d key =
     (let index = key div DESC_BIT_WIDTH
      in d[index := d ! index OR push_bit (key mod DESC_BIT_WIDTH) 1])"

definition clear_desc_id :: "64 word list \<Rightarrow> nat \<Rightarrow> 64 word list" where
  "clear_desc_id d key =
     (let index = key div DESC_BIT_WIDTH
      in d[index := d ! index AND NOT (push_bit (key mod DESC_BIT_WIDTH) 1)])"

text \<open>The two loops of \<open>__dtbl_next_id\<close>: over the bits of a word, over the words.\<close>

fun scan_bits :: "64 word \<Rightarrow> nat \<Rightarrow> nat \<Rightarrow> nat option" where
  "scan_bits val i 0 = None"
| "scan_bits val i (Suc k) =
     (if drop_bit (i mod DESC_BIT_WIDTH) val AND 1 \<noteq> 0 then scan_bits val (Suc i) k
      else Some (i mod DESC_BIT_WIDTH))"

function scan_words :: "64 word list \<Rightarrow> nat \<Rightarrow> nat \<Rightarrow> nat \<Rightarrow> int" where
  "scan_words d start index mx =
     (if index \<ge> mx then -1
      else (case scan_bits (d ! index) start DESC_BIT_WIDTH of
              Some i \<Rightarrow> int (index * DESC_BIT_WIDTH + i)
            | None \<Rightarrow> scan_words d start (Suc index) mx))"
  by pat_completeness auto
termination
  by (relation "measure (\<lambda>(d, start, index, mx). mx - index)") auto

declare scan_words.simps [simp del]

definition dtbl_next_id :: "'v dtbl \<Rightarrow> 64 word list \<Rightarrow> int" where
  "dtbl_next_id t d =
     (let start = next_entry t mod DESC_BIT_WIDTH;
          index = next_entry t div DESC_BIT_WIDTH;
          mx = max_entries t
      in if index \<ge> mx then scan_words d 0 0 mx else scan_words d start index mx)"

definition dtbl_get :: "'v dtbl \<Rightarrow> int \<Rightarrow> 'v option" where
  "dtbl_get t key =
     visit (\<lambda>e retval. if entry_id e = key then (False, Some (entry_val e)) else (True, retval))
       (entry_list t) None"

text \<open>
  \<open>DESC_BIT_WIDTH * max_entries\<close> bytes are eight words for every 64 descriptors. Where the
  entry cannot be allocated, the function leaves by \<open>goto out\<close> and still returns the
  descriptor it had found.
\<close>

definition dtbl_set :: "bool \<Rightarrow> bool \<Rightarrow> 'v dtbl \<Rightarrow> 'v \<Rightarrow> int \<times> 'v dtbl" where
  "dtbl_set m_desc m_entry t val =
     (case (case desc t of
              Some d \<Rightarrow> Some d
            | None \<Rightarrow> if m_desc then Some (replicate (8 * max_entries t) 0) else None) of
        None \<Rightarrow> (-1, t)
      | Some d \<Rightarrow>
          (let t1 = t\<lparr>desc := Some d\<rparr>;
               key = dtbl_next_id t1 d
           in if key < 0 then (key, t1)
              else if \<not> m_entry then (key, t1)
              else (key, t1\<lparr>entry_list := entry_list t1 @ [\<lparr>entry_id = key, entry_val = val\<rparr>],
                           desc := Some (set_desc_id d (nat key)),
                           next_entry := nat key + 1\<rparr>)))"

text \<open>
  \<open>dtbl_del\<close> takes an \<open>int\<close> and divides it before it compares with a \<open>size_t\<close>: the C
  quotient truncates towards zero and a negative one becomes huge. A descriptor between -63
  and -1 passes the test and is then used as a shift count.
\<close>

definition dtbl_del :: "'v dtbl \<Rightarrow> int \<Rightarrow> 'v dtbl outcome" where
  "dtbl_del t key =
     (if -64 < key \<and> nat (key div 64) < max_entries t then
        (case desc t of
           None \<Rightarrow> Inl Null_Deref
         | Some d \<Rightarrow>
             if key < 0 then Inl Bad_Shift
             else Inr (t\<lparr>desc := Some (clear_desc_id d (nat key))\<rparr>))
      else Inr t)"


subsection \<open>Bits\<close>

definition used :: "64 word list \<Rightarrow> nat \<Rightarrow> bool" where
  "used d key \<longleftrightarrow> bit (d ! (key div 64)) (key mod 64)"

lemma drop_bit_and_1: "drop_bit i (w :: 64 word) AND 1 \<noteq> 0 \<longleftrightarrow> bit w i"
  by (simp add: and_one_eq mod_2_eq_odd bit_iff_odd_drop_bit)

lemma scan_bits_None:
  "scan_bits w i k = None \<longleftrightarrow> (\<forall>j < k. bit w ((i + j) mod 64))"
proof (induction k arbitrary: i)
  case (Suc k)
  have "(\<forall>j < Suc k. bit w ((i + j) mod 64)) \<longleftrightarrow>
      bit w (i mod 64) \<and> (\<forall>j < k. bit w ((Suc i + j) mod 64))"
    by (auto simp: All_less_Suc2)
  then show ?case by (simp add: Suc.IH drop_bit_and_1)
qed simp

lemma rotation_hits: "m < 64 \<Longrightarrow> \<exists>j < 64. (i + j) mod 64 = (m :: nat)"
proof (rule exI [of _ "(m + (64 - i mod 64)) mod 64"], intro conjI)
  assume m: "m < 64"
  have shift: "64 * q + r + (m + (64 - r)) = m + 64 * (q + 1)" if "r < 64" for q r :: nat
    using that by simp
  have "i + (m + (64 - i mod 64)) = m + 64 * (i div 64 + 1)"
    using shift [of "i mod 64" "i div 64"] by simp
  then have "(i + (m + (64 - i mod 64))) mod 64 = m"
    using m by (simp only: mod_mult_self2) simp
  then show "(i + (m + (64 - i mod 64)) mod 64) mod 64 = m"
    by (simp only: mod_add_right_eq)
qed simp

lemma scan_bits_None_all: "scan_bits w i 64 = None \<longleftrightarrow> (\<forall>j < 64. bit w j)"
  unfolding scan_bits_None using rotation_hits [of _ i] by (metis mod_less_divisor zero_less_numeral)

lemma scan_bits_Some: "scan_bits w i k = Some j \<Longrightarrow> j < 64 \<and> \<not> bit w j"
  by (induction k arbitrary: i) (auto simp: drop_bit_and_1 split: if_splits)

lemma same_bit_position: "(j :: nat) div 64 = k div 64 \<and> j mod 64 = k mod 64 \<longleftrightarrow> j = k"
  by (metis div_mult_mod_eq)

lemma used_set_desc_id:
  assumes "key div 64 < length d"
  shows "used (set_desc_id d key) j \<longleftrightarrow> used d j \<or> j = key"
proof -
  have "bit (push_bit (key mod 64) 1 :: 64 word) (j mod 64) \<longleftrightarrow> j mod 64 = key mod 64"
    by (auto simp: bit_simps)
  then show ?thesis
    using assms same_bit_position [of j key]
    by (auto simp: used_def set_desc_id_def Let_def nth_list_update bit_or_iff)
qed

lemma used_clear_desc_id:
  assumes "key div 64 < length d"
  shows "used (clear_desc_id d key) j \<longleftrightarrow> used d j \<and> j \<noteq> key"
proof -
  have "bit (push_bit (key mod 64) 1 :: 64 word) (j mod 64) \<longleftrightarrow> j mod 64 = key mod 64"
    by (auto simp: bit_simps)
  then show ?thesis
    using assms same_bit_position [of j key]
    by (auto simp: used_def clear_desc_id_def Let_def nth_list_update bit_and_iff bit_not_iff)
qed

lemma length_desc_id [simp]:
  "length (set_desc_id d key) = length d" "length (clear_desc_id d key) = length d"
  by (simp_all add: set_desc_id_def clear_desc_id_def Let_def)


subsection \<open>Well-formed tables and what an allocation returns\<close>

definition capacity :: "'v dtbl \<Rightarrow> nat" where
  "capacity t = 64 * max_entries t"

definition in_use :: "'v dtbl \<Rightarrow> nat \<Rightarrow> bool" where
  "in_use t key \<longleftrightarrow> (case desc t of None \<Rightarrow> False | Some d \<Rightarrow> used d key)"

definition dtbl_wf :: "'v dtbl \<Rightarrow> bool" where
  "dtbl_wf t \<longleftrightarrow>
     next_entry t \<le> capacity t \<and>
     (\<forall>e \<in> set (entry_list t). 0 \<le> entry_id e \<and> entry_id e < int (capacity t)) \<and>
     (case desc t of
        None \<Rightarrow> entry_list t = [] \<and> next_entry t = 0
      | Some d \<Rightarrow> length d = 8 * max_entries t \<and>
          (\<forall>key < capacity t. used d key \<longrightarrow> int key \<in> entry_id ` set (entry_list t)))"

definition scan_start :: "'v dtbl \<Rightarrow> nat" where
  "scan_start t = (if next_entry t div 64 \<ge> max_entries t then 0 else next_entry t div 64)"

lemma scan_words_None:
  "scan_words d start index mx = -1 \<longleftrightarrow> (\<forall>w. index \<le> w \<and> w < mx \<longrightarrow> (\<forall>j < 64. bit (d ! w) j))"
proof (induction d start index mx rule: scan_words.induct)
  case (1 d start index mx)
  show ?case
  proof (cases "index \<ge> mx")
    case True
    then show ?thesis by (auto simp: scan_words.simps [of d start index mx])
  next
    case False
    have split: "(\<forall>w. index \<le> w \<and> w < mx \<longrightarrow> P w) \<longleftrightarrow>
        P index \<and> (\<forall>w. Suc index \<le> w \<and> w < mx \<longrightarrow> P w)" for P
      using False by (metis Suc_leD Suc_leI le_neq_implies_less not_le order_refl)
    show ?thesis
    proof (cases "scan_bits (d ! index) start 64")
      case None
      with "1.IH" False show ?thesis
        by (simp add: scan_words.simps [of d start index mx] split
            scan_bits_None_all [of "d ! index" start, symmetric])
    next
      case (Some j)
      with False scan_bits_Some [OF Some] show ?thesis
        by (auto simp: scan_words.simps [of d start index mx] split)
    qed
  qed
qed

lemma scan_words_free:
  "scan_words d start index mx = r \<Longrightarrow> r \<noteq> -1 \<Longrightarrow>
   0 \<le> r \<and> nat r < 64 * mx \<and> index \<le> nat r div 64 \<and> \<not> used d (nat r)"
proof (induction d start index mx rule: scan_words.induct)
  case (1 d start index mx)
  show ?case
  proof (cases "scan_bits (d ! index) start 64")
    case None
    with 1 show ?thesis
      by (fastforce simp: scan_words.simps [of d start index mx] split: if_splits)
  next
    case (Some j)
    with "1.prems" scan_bits_Some [OF Some] show ?thesis
      by (auto simp: scan_words.simps [of d start index mx] used_def nat_add_distrib
          nat_mult_distrib split: if_splits)
  qed
qed

lemma dtbl_next_id_free:
  assumes "dtbl_next_id t d = r" "r \<noteq> -1"
  shows "0 \<le> r \<and> nat r < capacity t \<and> scan_start t \<le> nat r div 64 \<and> \<not> used d (nat r)"
  using assms scan_words_free
  by (auto simp: dtbl_next_id_def Let_def capacity_def scan_start_def split: if_splits)

lemma dtbl_next_id_full:
  "dtbl_next_id t d = -1 \<longleftrightarrow>
   (\<forall>key. scan_start t \<le> key div 64 \<and> key < capacity t \<longrightarrow> used d key)"
proof -
  have "dtbl_next_id t d = -1 \<longleftrightarrow>
      (\<forall>w. scan_start t \<le> w \<and> w < max_entries t \<longrightarrow> (\<forall>j < 64. bit (d ! w) j))"
    by (auto simp: dtbl_next_id_def Let_def scan_words_None scan_start_def)
  also have "\<dots> \<longleftrightarrow> (\<forall>key. scan_start t \<le> key div 64 \<and> key < capacity t \<longrightarrow> used d key)"
  proof (intro iffI allI impI)
    fix key assume "\<forall>w. scan_start t \<le> w \<and> w < max_entries t \<longrightarrow> (\<forall>j < 64. bit (d ! w) j)"
      and "scan_start t \<le> key div 64 \<and> key < capacity t"
    then show "used d key"
      by (simp add: used_def capacity_def less_mult_imp_div_less mult.commute)
  next
    fix w j assume all: "\<forall>key. scan_start t \<le> key div 64 \<and> key < capacity t \<longrightarrow> used d key"
      and w: "scan_start t \<le> w \<and> w < max_entries t" and j: "j < (64 :: nat)"
    have "(64 * w + j) div 64 = w" "(64 * w + j) mod 64 = j" "64 * w + j < 64 * max_entries t"
      using w j by simp_all
    with all w show "bit (d ! w) j"
      by (metis capacity_def used_def)
  qed
  finally show ?thesis .
qed

lemma dtbl_get_find:
  "dtbl_get t key = map_option entry_val (find (\<lambda>e. entry_id e = key) (entry_list t))"
proof -
  have "visit (\<lambda>e r. if entry_id e = key then (False, Some (entry_val e)) else (True, r)) es None =
      map_option entry_val (find (\<lambda>e. entry_id e = key) es)" for es :: "'a dtbl_entry list"
    by (induction es) simp_all
  then show ?thesis by (simp add: dtbl_get_def)
qed


lemma find_snoc:
  "find P (xs @ [x]) =
     (case find P xs of None \<Rightarrow> if P x then Some x else None | Some y \<Rightarrow> Some y)"
  by (induction xs) auto

definition table_bits :: "'v dtbl \<Rightarrow> 64 word list" where
  "table_bits t = (case desc t of None \<Rightarrow> replicate (8 * max_entries t) 0 | Some d \<Rightarrow> d)"

lemma dtbl_set_eq:
  "dtbl_set True m t v =
     (let t1 = t\<lparr>desc := Some (table_bits t)\<rparr>;
          r = dtbl_next_id t1 (table_bits t)
      in if r < 0 \<or> \<not> m then (r, t1)
         else (r, t1\<lparr>entry_list := entry_list t @ [\<lparr>entry_id = r, entry_val = v\<rparr>],
                     desc := Some (set_desc_id (table_bits t) (nat r)),
                     next_entry := nat r + 1\<rparr>))"
  by (auto simp: dtbl_set_def table_bits_def Let_def split: option.splits)

lemma used_replicate_zero [simp]: "key div 64 < n \<Longrightarrow> \<not> used (replicate n 0) key"
  by (simp add: used_def)

lemma table_bits_wf:
  assumes "dtbl_wf t"
  shows "length (table_bits t) = 8 * max_entries t"
    and "key < capacity t \<Longrightarrow> used (table_bits t) key \<longleftrightarrow> in_use t key"
    and "key < capacity t \<Longrightarrow> in_use t key \<Longrightarrow> int key \<in> entry_id ` set (entry_list t)"
proof -
  show "length (table_bits t) = 8 * max_entries t"
    using assms by (auto simp: dtbl_wf_def table_bits_def split: option.splits)
  assume key: "key < capacity t"
  then have "key div 64 < 8 * max_entries t"
    by (simp add: capacity_def less_mult_imp_div_less)
  then show "used (table_bits t) key \<longleftrightarrow> in_use t key"
    by (auto simp: table_bits_def in_use_def split: option.splits)
  show "int key \<in> entry_id ` set (entry_list t)" if "in_use t key"
    using assms that key by (auto simp: dtbl_wf_def in_use_def split: option.splits)
qed

lemma dtbl_wf_init [simp]: "dtbl_wf (DTBL_INITIALIZER n)"
  by (simp add: dtbl_wf_def DTBL_INITIALIZER_def)

lemma dtbl_next_id_bits:
  "dtbl_next_id (t\<lparr>desc := x\<rparr>) d = dtbl_next_id t d"
  by (simp add: dtbl_next_id_def)

lemma capacity_simps [simp]:
  "capacity (t\<lparr>desc := x\<rparr>) = capacity t" "capacity (t\<lparr>entry_list := y\<rparr>) = capacity t"
  "capacity (t\<lparr>next_entry := z\<rparr>) = capacity t"
  by (simp_all add: capacity_def)

lemma dtbl_set_full:
  assumes "dtbl_wf t"
    and "\<And>key. scan_start t \<le> key div 64 \<Longrightarrow> key < capacity t \<Longrightarrow> in_use t key"
  shows "dtbl_set True True t v = (-1, t\<lparr>desc := Some (table_bits t)\<rparr>)"
proof -
  have "dtbl_next_id t (table_bits t) = -1"
    unfolding dtbl_next_id_full using assms table_bits_wf(2) by blast
  then show ?thesis by (simp add: dtbl_set_eq dtbl_next_id_bits)
qed

lemma dtbl_set_free:
  assumes wf: "dtbl_wf t" and set: "dtbl_set True True t v = (r, t')" and "r \<noteq> -1"
  shows "0 \<le> r" "nat r < capacity t" "scan_start t \<le> nat r div 64" "\<not> in_use t (nat r)"
    "t' = t\<lparr>desc := Some (set_desc_id (table_bits t) (nat r)),
            entry_list := entry_list t @ [\<lparr>entry_id = r, entry_val = v\<rparr>],
            next_entry := nat r + 1\<rparr>"
proof -
  have r: "dtbl_next_id t (table_bits t) = r"
    using set by (auto simp: dtbl_set_eq Let_def dtbl_next_id_bits split: if_splits)
  from dtbl_next_id_free [OF this \<open>r \<noteq> -1\<close>]
  show *: "0 \<le> r" "nat r < capacity t" "scan_start t \<le> nat r div 64" "\<not> in_use t (nat r)"
    using table_bits_wf(2) [OF wf] by auto
  from set r *(1)
  show "t' = t\<lparr>desc := Some (set_desc_id (table_bits t) (nat r)),
            entry_list := entry_list t @ [\<lparr>entry_id = r, entry_val = v\<rparr>],
            next_entry := nat r + 1\<rparr>"
    by (auto simp: dtbl_set_eq Let_def dtbl_next_id_bits)
qed

lemma set_desc_id_in_use:
  assumes "dtbl_wf t" "k < capacity t" "key < capacity t"
  shows "used (set_desc_id (table_bits t) k) key \<longleftrightarrow> in_use t key \<or> key = k"
proof -
  have "k div 64 < length (table_bits t)"
    using assms(2) table_bits_wf(1) [OF assms(1)] by (simp add: capacity_def less_mult_imp_div_less)
  then show ?thesis
    using table_bits_wf(2) [OF assms(1,3)] by (simp add: used_set_desc_id)
qed

lemma dtbl_set_wf:
  assumes wf: "dtbl_wf t" and set: "dtbl_set True True t v = (r, t')"
  shows "dtbl_wf t'"
proof (cases "r = -1")
  case True
  have "t' = t\<lparr>desc := Some (table_bits t)\<rparr>"
    using set True by (auto simp: dtbl_set_eq Let_def split: if_splits)
  then show ?thesis
    using wf table_bits_wf [OF wf] by (auto simp: dtbl_wf_def split: option.splits)
next
  case False
  note * = dtbl_set_free [OF wf set False]
  have "int key \<in> entry_id ` set (entry_list t')"
    if "key < capacity t" "used (set_desc_id (table_bits t) (nat r)) key" for key
    using that table_bits_wf(3) [OF wf] *(1,2,5) set_desc_id_in_use [OF wf *(2)] by fastforce
  then show ?thesis
    using wf table_bits_wf(1) [OF wf] * by (auto simp: dtbl_wf_def capacity_def)
qed

lemma dtbl_del_wf:
  assumes "dtbl_wf t" "dtbl_del t k = Inr t'"
  shows "dtbl_wf t'" "entry_list t' = entry_list t" "next_entry t' = next_entry t"
    "capacity t' = capacity t"
    "key < capacity t \<Longrightarrow> in_use t' key \<longleftrightarrow> in_use t key \<and> int key \<noteq> k"
proof -
  consider (same) "t' = t" "k < 0 \<or> capacity t \<le> nat k"
    | (clear) d where "desc t = Some d" "0 \<le> k" "nat k < capacity t"
        "t' = t\<lparr>desc := Some (clear_desc_id d (nat k))\<rparr>"
  proof (cases "-64 < k \<and> nat (k div 64) < max_entries t")
    case True
    with assms(2) obtain d where d: "desc t = Some d" "0 \<le> k"
        "t' = t\<lparr>desc := Some (clear_desc_id d (nat k))\<rparr>"
      by (auto simp: dtbl_del_def split: option.splits if_splits)
    moreover have "nat k < capacity t"
      using True d(2) by (simp add: capacity_def nat_div_distrib div_less_iff_less_mult mult.commute)
    ultimately show thesis using clear by blast
  next
    case False
    then have "k < 0 \<or> capacity t \<le> nat k"
      by (auto simp: capacity_def nat_div_distrib div_less_iff_less_mult mult.commute not_less)
    with False assms(2) show thesis
      by (intro same) (auto simp: dtbl_del_def)
  qed
  note cases = this
  show "dtbl_wf t'" "entry_list t' = entry_list t" "next_entry t' = next_entry t"
    "capacity t' = capacity t"
    "key < capacity t \<Longrightarrow> in_use t' key \<longleftrightarrow> in_use t key \<and> int key \<noteq> k"
    using cases assms(1)
    by (cases; auto simp: dtbl_wf_def in_use_def used_clear_desc_id capacity_def
          less_mult_imp_div_less)+
qed


lemma dtbl_del_defined: "desc t \<noteq> None \<Longrightarrow> 0 \<le> k \<Longrightarrow> \<exists>t'. dtbl_del t k = Inr t'"
  by (auto simp: dtbl_del_def)

subsection \<open>The first lap: a log of registrations\<close>

text \<open>
  Until the allocator has handed out \<open>capacity\<close> descriptors it never looks back: the next
  descriptor is the number of registrations so far, whatever was deleted meanwhile. In this
  phase the table is an append-only log.
\<close>

definition first_lap :: "'v dtbl \<Rightarrow> bool" where
  "first_lap t \<longleftrightarrow>
     dtbl_wf t \<and> map entry_id (entry_list t) = map int [0..<next_entry t] \<and>
     (\<forall>key. next_entry t \<le> key \<and> key < capacity t \<longrightarrow> \<not> in_use t key)"

definition registered :: "'v dtbl \<Rightarrow> 'v list" where
  "registered t = map entry_val (entry_list t)"

lemma length_registered: "first_lap t \<Longrightarrow> length (registered t) = next_entry t"
  unfolding first_lap_def registered_def by (metis diff_zero length_map length_upt)

lemma first_lap_init [simp]: "first_lap (DTBL_INITIALIZER n)"
  by (simp add: first_lap_def) (simp add: DTBL_INITIALIZER_def in_use_def)

lemma find_upt_entries:
  "map entry_id es = map int [m..<n] \<Longrightarrow>
   find (\<lambda>e. entry_id e = key) es =
     (if int m \<le> key \<and> key < int n then Some (es ! (nat key - m)) else None)"
proof (induction es arbitrary: m)
  case (Cons e es)
  have "m < n"
    using Cons.prems by (cases "m < n") simp_all
  moreover from this have "entry_id e = int m" "map entry_id es = map int [Suc m..<n]"
    using Cons.prems by (simp_all add: upt_conv_Cons)
  ultimately have m: "m < n" "entry_id e = int m" "map entry_id es = map int [Suc m..<n]"
    by blast+
  with Cons.IH [OF m(3)] show ?case
    by (auto simp: nth_Cons' nat_diff_distrib)
qed auto

lemma first_lap_get:
  assumes "first_lap t"
  shows "dtbl_get t key =
    (if 0 \<le> key \<and> nat key < length (registered t) then Some (registered t ! nat key) else None)"
proof -
  have ids: "map entry_id (entry_list t) = map int [0..<next_entry t]"
    using assms by (simp add: first_lap_def)
  then have "length (entry_list t) = next_entry t"
    by (metis diff_zero length_map length_upt)
  with find_upt_entries [OF ids, of key] show ?thesis
    by (auto simp: dtbl_get_find registered_def)
qed

lemma first_lap_next_id:
  assumes "first_lap t" "next_entry t < capacity t"
  shows "dtbl_next_id t (table_bits t) = int (next_entry t)"
proof -
  let ?n = "next_entry t"
  have wf: "dtbl_wf t" using assms by (simp add: first_lap_def)
  have "\<not> in_use t ?n" using assms by (simp add: first_lap_def)
  then have "\<not> bit (table_bits t ! (?n div 64)) (?n mod 64)"
    using table_bits_wf(2) [OF wf assms(2)] by (simp add: used_def)
  then have "scan_bits (table_bits t ! (?n div 64)) (?n mod 64) (Suc 63) = Some (?n mod 64)"
    unfolding scan_bits.simps drop_bit_and_1 by simp
  moreover have "?n div 64 < max_entries t"
    using assms(2) by (simp add: capacity_def less_mult_imp_div_less)
  ultimately show ?thesis
    by (simp add: dtbl_next_id_def Let_def
        scan_words.simps [of "table_bits t" "?n mod 64" "?n div 64" "max_entries t"])
qed

lemma first_lap_set:
  assumes lap: "first_lap t" and room: "length (registered t) < capacity t"
  shows "\<exists>t'. dtbl_set True True t v = (int (length (registered t)), t') \<and> first_lap t' \<and>
           registered t' = registered t @ [v] \<and> capacity t' = capacity t"
proof -
  have wf: "dtbl_wf t" using lap by (simp add: first_lap_def)
  let ?n = "next_entry t"
  let ?t = "t\<lparr>desc := Some (set_desc_id (table_bits t) ?n),
       entry_list := entry_list t @ [\<lparr>entry_id = int ?n, entry_val = v\<rparr>],
       next_entry := ?n + 1\<rparr>"
  have n: "?n < capacity t" using room length_registered [OF lap] by simp
  have set: "dtbl_set True True t v = (int ?n, ?t)"
    using first_lap_next_id [OF lap n] by (simp add: dtbl_set_eq dtbl_next_id_bits Let_def)
  moreover have "first_lap ?t"
    using lap dtbl_set_wf [OF wf set] set_desc_id_in_use [OF wf n]
    by (simp add: first_lap_def in_use_def)
  ultimately show ?thesis
    using length_registered [OF lap] by (simp add: registered_def)
qed

lemma first_lap_del:
  assumes lap: "first_lap t" and k: "0 \<le> k" "nat k < length (registered t)"
  shows "\<exists>t'. dtbl_del t k = Inr t' \<and> first_lap t' \<and>
           registered t' = registered t \<and> capacity t' = capacity t"
proof -
  have wf: "dtbl_wf t" and n: "nat k < next_entry t"
    using lap k length_registered [OF lap] by (simp_all add: first_lap_def)
  then obtain d where "desc t = Some d"
    by (cases "desc t") (auto simp: dtbl_wf_def)
  with k have "\<exists>t'. dtbl_del t k = Inr t'" by (simp add: dtbl_del_def)
  then obtain t' where del: "dtbl_del t k = Inr t'" by blast
  with dtbl_del_wf [OF wf del] lap show ?thesis
    by (auto simp: first_lap_def registered_def)
qed


subsection \<open>The interface: a log of values\<close>

datatype 'v tbl_op = Tbl_Set 'v | Tbl_Del int

fun log_run ::
  "('v \<Rightarrow> 't \<Rightarrow> int \<times> 't) \<Rightarrow> ('t \<Rightarrow> int \<Rightarrow> 't outcome) \<Rightarrow>
   'v tbl_op list \<Rightarrow> 't \<Rightarrow> (int list \<times> 't) outcome" where
  "log_run reg del [] t = Inr ([], t)"
| "log_run reg del (Tbl_Set v # ops) t =
     (case reg v t of (r, t1) \<Rightarrow>
        and_then (log_run reg del ops t1) (\<lambda>(rs, t2). Inr (r # rs, t2)))"
| "log_run reg del (Tbl_Del k # ops) t = and_then (del t k) (log_run reg del ops)"

fun set_vals :: "'v tbl_op list \<Rightarrow> 'v list" where
  "set_vals [] = []"
| "set_vals (Tbl_Set v # ops) = v # set_vals ops"
| "set_vals (Tbl_Del k # ops) = set_vals ops"

text \<open>Every deleted descriptor was handed out before.\<close>

fun dels_ok :: "nat \<Rightarrow> 'v tbl_op list \<Rightarrow> bool" where
  "dels_ok n [] \<longleftrightarrow> True"
| "dels_ok n (Tbl_Set v # ops) \<longleftrightarrow> dels_ok (Suc n) ops"
| "dels_ok n (Tbl_Del k # ops) \<longleftrightarrow> 0 \<le> k \<and> nat k < n \<and> dels_ok n ops"

locale handle_log =
  fixes ok :: "'t \<Rightarrow> bool"
    and cap :: "'t \<Rightarrow> nat"
    and logged :: "'t \<Rightarrow> 'v list"
    and reg :: "'v \<Rightarrow> 't \<Rightarrow> int \<times> 't"
    and del :: "'t \<Rightarrow> int \<Rightarrow> 't outcome"
    and get :: "'t \<Rightarrow> int \<Rightarrow> 'v option"
  assumes set_law: "ok t \<Longrightarrow> length (logged t) < cap t \<Longrightarrow>
      \<exists>t'. reg v t = (int (length (logged t)), t') \<and> ok t' \<and>
        logged t' = logged t @ [v] \<and> cap t' = cap t"
    and del_law: "ok t \<Longrightarrow> 0 \<le> k \<Longrightarrow> nat k < length (logged t) \<Longrightarrow>
      \<exists>t'. del t k = Inr t' \<and> ok t' \<and> logged t' = logged t \<and> cap t' = cap t"
    and get_law: "ok t \<Longrightarrow>
      get t k = (if 0 \<le> k \<and> nat k < length (logged t) then Some (logged t ! nat k) else None)"
begin

lemma set_get:
  assumes "ok t" "length (logged t) < cap t" "reg v t = (k, t')"
  shows "ok t'" "get t' k = Some v" "j \<noteq> k \<Longrightarrow> get t' j = get t j" "get t k = None"
  using set_law [OF assms(1,2), of v] get_law [of t'] get_law [OF assms(1)] assms(3)
  by (auto simp: nth_append)

lemma del_get: "ok t \<Longrightarrow> 0 \<le> k \<Longrightarrow> nat k < length (logged t) \<Longrightarrow> del t k = Inr t' \<Longrightarrow>
    ok t' \<and> get t' j = get t j"
  using del_law [of t k] get_law [of t'] get_law [of t] by auto

lemma run_law:
  "ok t \<Longrightarrow> dels_ok (length (logged t)) ops \<Longrightarrow>
   length (logged t) + length (set_vals ops) \<le> cap t \<Longrightarrow>
   \<exists>t'. log_run reg del ops t =
          Inr (map int [length (logged t)..<length (logged t) + length (set_vals ops)], t') \<and>
        ok t' \<and> logged t' = logged t @ set_vals ops \<and> cap t' = cap t"
proof (induction ops arbitrary: t)
  case Nil
  then show ?case by simp
next
  case (Cons a ops)
  show ?case
  proof (cases a)
    case (Tbl_Set v)
    with Cons.prems set_law [of t v] obtain t1 where t1:
      "reg v t = (int (length (logged t)), t1)" "ok t1" "logged t1 = logged t @ [v]"
      "cap t1 = cap t" by auto
    have range: "int n # map int [Suc n..<Suc (n + k)] = map int [n..<n + (k + Suc 0)]" for n k
      by (simp add: upt_conv_Cons del: upt_Suc)
    from Cons.IH [of t1] t1 Cons.prems Tbl_Set obtain t2 where
      "log_run reg del ops t1 = Inr (map int [Suc (length (logged t))..<
         Suc (length (logged t)) + length (set_vals ops)], t2)"
      "ok t2" "logged t2 = logged t1 @ set_vals ops" "cap t2 = cap t1"
      by auto
    with t1 Tbl_Set show ?thesis
      by (simp add: range del: upt_Suc add_Suc_right)
  next
    case (Tbl_Del k)
    with Cons.prems del_law [of t k] obtain t1 where
      "del t k = Inr t1" "ok t1" "logged t1 = logged t" "cap t1 = cap t" by auto
    with Cons.IH [of t1] Cons.prems Tbl_Del show ?thesis by auto
  qed
qed

end

interpretation tbl: handle_log first_lap capacity registered "\<lambda>v t. dtbl_set True True t v"
    dtbl_del dtbl_get
  by unfold_locales (blast intro: first_lap_set first_lap_del first_lap_get)+


lemma log_run_append:
  "log_run reg del (ops1 @ ops2) t =
     and_then (log_run reg del ops1 t) (\<lambda>(rs, t1).
     and_then (log_run reg del ops2 t1) (\<lambda>(rs', t2). Inr (rs @ rs', t2)))"
proof (induction ops1 arbitrary: t)
  case Nil
  then show ?case by (cases "log_run reg del ops2 t") auto
next
  case (Cons a ops1)
  show ?case
  proof (cases a)
    case (Tbl_Set v)
    obtain r t1 where "reg v t = (r, t1)" by (cases "reg v t")
    with Cons Tbl_Set show ?thesis
      by (cases "log_run reg del ops1 t1") (auto simp: and_then_assoc split: prod.splits,
          auto simp: and_then_def split: sum.splits)
  next
    case (Tbl_Del k)
    with Cons show ?thesis by (cases "del t k") auto
  qed
qed

abbreviation tbl_run :: "'v tbl_op list \<Rightarrow> 'v dtbl \<Rightarrow> (int list \<times> 'v dtbl) outcome" where
  "tbl_run \<equiv> log_run (\<lambda>v t. dtbl_set True True t v) dtbl_del"

lemma fill_in_use:
  assumes "length vs \<le> capacity (DTBL_INITIALIZER n :: 'v dtbl)"
  shows "\<exists>t. tbl_run (map Tbl_Set vs) (DTBL_INITIALIZER n :: 'v dtbl) =
           Inr (map int [0..<length vs], t) \<and> first_lap t \<and> registered t = vs \<and>
           capacity t = 64 * (n div 64) \<and> (\<forall>key < length vs. in_use t key)"
  using assms
proof (induction vs rule: rev_induct)
  case Nil
  then show ?case
    by (simp add: registered_def) (simp add: DTBL_INITIALIZER_def capacity_def)
next
  case (snoc v vs)
  then obtain t where t: "tbl_run (map Tbl_Set vs) (DTBL_INITIALIZER n :: 'v dtbl) =
      Inr (map int [0..<length vs], t)" "first_lap t" "registered t = vs"
      "capacity t = 64 * (n div 64)" "\<forall>key < length vs. in_use t key"
    by auto
  have room: "length (registered t) < capacity t"
    using snoc.prems t(3,4) by (simp add: capacity_def DTBL_INITIALIZER_def)
  then obtain t' where t': "dtbl_set True True t v = (int (length vs), t')" "first_lap t'"
      "registered t' = vs @ [v]" "capacity t' = capacity t"
    using first_lap_set [OF t(2) room, of v] t(3) by auto
  have wf: "dtbl_wf t" using t(2) by (simp add: first_lap_def)
  have "in_use t' key" if "key < Suc (length vs)" for key
  proof -
    have "key < capacity t" using that room t(3) by simp
    with that t(5) dtbl_set_free [OF wf t'(1)] set_desc_id_in_use [OF wf, of "length vs" key]
    show ?thesis by (auto simp: in_use_def less_Suc_eq)
  qed
  with t t' show ?case by (simp add: log_run_append)
qed


subsection \<open>What the table promises, and what it does not\<close>

text \<open>
  C22: during the first \<open>capacity\<close> registrations of a table, with any deletions of
  descriptors already handed out in between, no operation misbehaves, the registrations get
  the descriptors 0, 1, 2, ... in order (none twice), and in the end every lookup answers the
  value registered under that descriptor.
\<close>

theorem dtbl_first_lap_run:
  fixes ops :: "'v tbl_op list"
  assumes "dels_ok 0 ops" and "length (set_vals ops) \<le> 64 * (n div 64)"
  shows "\<exists>t. tbl_run ops (DTBL_INITIALIZER n) = Inr (map int [0..<length (set_vals ops)], t) \<and>
           (\<forall>key. dtbl_get t key =
              (if 0 \<le> key \<and> nat key < length (set_vals ops)
               then Some (set_vals ops ! nat key) else None))"
proof -
  have "registered (DTBL_INITIALIZER n :: 'v dtbl) = []"
    and "capacity (DTBL_INITIALIZER n :: 'v dtbl) = 64 * (n div 64)"
    by (simp_all add: registered_def DTBL_INITIALIZER_def capacity_def)
  with tbl.run_law [of "DTBL_INITIALIZER n" ops] assms show ?thesis
    by (auto simp: first_lap_get)
qed

theorem dtbl_first_lap_run_witness:
  "\<exists>t. tbl_run [Tbl_Set CHR ''a'', Tbl_Set CHR ''b'', Tbl_Del 0, Tbl_Set CHR ''c'']
         (DTBL_INITIALIZER 128) = Inr ([0, 1, 2], t) \<and> dtbl_get t 2 = Some CHR ''c''"
  using dtbl_first_lap_run
    [of "[Tbl_Set CHR ''a'', Tbl_Set CHR ''b'', Tbl_Del 0, Tbl_Set CHR ''c'']" 128]
  by (auto simp: upt_rec)

text \<open>
  C23: an allocation in a well-formed table either hands out a descriptor inside the table that
  was free, marks exactly this one as used and appends the entry, or it fails, and then no
  descriptor from the word of \<open>next_entry\<close> on was free and nothing has changed.
\<close>

theorem dtbl_set_outcome:
  assumes wf: "dtbl_wf t" and set: "dtbl_set True True t v = (r, t')"
  shows "dtbl_wf t' \<and>
    (if r = -1 then
       (\<forall>key. scan_start t \<le> key div 64 \<and> key < capacity t \<longrightarrow> in_use t key) \<and>
       entry_list t' = entry_list t \<and> (\<forall>key < capacity t. in_use t' key = in_use t key)
     else
       0 \<le> r \<and> nat r < capacity t \<and> \<not> in_use t (nat r) \<and>
       entry_list t' = entry_list t @ [\<lparr>entry_id = r, entry_val = v\<rparr>] \<and>
       (\<forall>key < capacity t. in_use t' key \<longleftrightarrow> in_use t key \<or> key = nat r))"
proof (cases "r = -1")
  case True
  then have full: "dtbl_next_id t (table_bits t) = -1"
      and t': "t' = t\<lparr>desc := Some (table_bits t)\<rparr>"
    using set by (auto simp: dtbl_set_eq dtbl_next_id_bits Let_def split: if_splits)
  with dtbl_set_wf [OF wf set] True table_bits_wf(2) [OF wf] show ?thesis
    by (auto simp: dtbl_next_id_full in_use_def)
next
  case False
  note * = dtbl_set_free [OF wf set False]
  with dtbl_set_wf [OF wf set] False set_desc_id_in_use [OF wf *(2)] show ?thesis
    by (auto simp: in_use_def)
qed

theorem dtbl_set_outcome_witness:
  "dtbl_wf (DTBL_INITIALIZER 128 :: nat dtbl) \<and>
   (\<exists>t'. dtbl_set True True (DTBL_INITIALIZER 128 :: nat dtbl) 9 = (0, t') \<and> in_use t' 0)"
proof -
  have empty: "registered (DTBL_INITIALIZER 128 :: nat dtbl) = []"
      "capacity (DTBL_INITIALIZER 128 :: nat dtbl) = 128"
    by (simp_all add: registered_def capacity_def DTBL_INITIALIZER_def)
  then obtain t' where "dtbl_set True True (DTBL_INITIALIZER 128 :: nat dtbl) 9 = (0, t')"
    using first_lap_set [of "DTBL_INITIALIZER 128 :: nat dtbl" 9] by auto
  moreover from dtbl_set_outcome [OF dtbl_wf_init this] have "in_use t' 0"
    by (simp add: empty)
  ultimately show ?thesis by simp
qed

text \<open>
  Deleting a descriptor of a table frees its bit and no other, but a lookup still answers
  the value registered under it: \<open>dtbl_del\<close> leaves the entry in the list.
\<close>

theorem dtbl_del_keeps_entry:
  assumes wf: "dtbl_wf t" and "desc t \<noteq> None" and "0 \<le> k" and "nat k < capacity t"
  shows "\<exists>t'. dtbl_del t k = Inr t' \<and> dtbl_wf t' \<and> \<not> in_use t' (nat k) \<and>
           (\<forall>key < capacity t. key \<noteq> nat k \<longrightarrow> in_use t' key = in_use t key) \<and>
           (\<forall>j. dtbl_get t' j = dtbl_get t j)"
proof -
  obtain t' where del: "dtbl_del t k = Inr t'"
    using dtbl_del_defined assms(2,3) by blast
  from dtbl_del_wf [OF wf del] assms(3,4) show ?thesis
    by (intro exI [of _ t']) (auto simp: del dtbl_get_def)
qed

theorem dtbl_del_keeps_entry_witness:
  "\<exists>t t'. tbl_run [Tbl_Set CHR ''a''] (DTBL_INITIALIZER 128) = Inr ([0], t) \<and>
     dtbl_del t 0 = Inr t' \<and> \<not> in_use t' 0 \<and> dtbl_get t' 0 = Some CHR ''a''"
proof -
  obtain t where t: "tbl_run (map Tbl_Set [CHR ''a'']) (DTBL_INITIALIZER 128) = Inr ([0], t)"
      "first_lap t" "registered t = [CHR ''a'']" "capacity t = 128" "in_use t 0"
    using fill_in_use [of "[CHR ''a'']" 128] by (auto simp: capacity_def DTBL_INITIALIZER_def)
  then have "dtbl_wf t" "desc t \<noteq> None" "dtbl_get t 0 = Some CHR ''a''"
    by (auto simp: first_lap_def first_lap_get in_use_def)
  with dtbl_del_keeps_entry [of t 0] t show ?thesis by fastforce
qed


text \<open>
  Once the table has been filled, deleting and allocating reissues descriptors, and the two
  defects of the table show.
\<close>

lemma full_table:
  obtains t where
    "tbl_run (replicate 128 (Tbl_Set u)) (DTBL_INITIALIZER 128) = Inr (map int [0..<128], t)"
    "dtbl_wf t" "next_entry t = 128" "max_entries t = 2" "desc t \<noteq> None"
    "\<forall>key < 128. in_use t key"
    "\<forall>key. 0 \<le> key \<and> key < 128 \<longrightarrow> dtbl_get t key = Some u"
proof -
  obtain t where t: "tbl_run (map Tbl_Set (replicate 128 u)) (DTBL_INITIALIZER 128) =
      Inr (map int [0..<length (replicate 128 u)], t)" "first_lap t" "registered t = replicate 128 u"
      "capacity t = 128" "\<forall>key < 128. in_use t key"
    using fill_in_use [of "replicate 128 u" 128]
    by (auto simp: capacity_def DTBL_INITIALIZER_def)
  then have "next_entry t = 128" "max_entries t = 2" "dtbl_wf t" "in_use t 0"
    using length_registered [OF t(2)] by (simp_all add: capacity_def first_lap_def)
  moreover from this have "desc t \<noteq> None"
    by (auto simp: in_use_def split: option.splits)
  moreover have "\<forall>key. 0 \<le> key \<and> key < 128 \<longrightarrow> dtbl_get t key = Some u"
    using t(2,3) by (auto simp: first_lap_get)
  ultimately show ?thesis using t(1,5) that by simp
qed

lemma dtbl_set_only_free:
  assumes wf: "dtbl_wf t" and free: "k < capacity t" "scan_start t \<le> k div 64" "\<not> in_use t k"
    and other: "\<And>key. key < capacity t \<Longrightarrow> key \<noteq> k \<Longrightarrow> in_use t key"
  shows "\<exists>t'. dtbl_set True True t v = (int k, t') \<and> dtbl_wf t' \<and> next_entry t' = k + 1 \<and>
           max_entries t' = max_entries t \<and> desc t' \<noteq> None \<and>
           entry_list t' = entry_list t @ [\<lparr>entry_id = int k, entry_val = v\<rparr>] \<and>
           (\<forall>key < capacity t. in_use t' key)"
proof -
  obtain r t' where set: "dtbl_set True True t v = (r, t')" by fastforce
  have "r \<noteq> -1"
    using dtbl_set_outcome [OF wf set] free by auto
  note * = dtbl_set_free [OF wf set this]
  have "nat r = k" using other [OF *(2)] *(4) by blast
  then have r: "r = int k" using *(1) by simp
  have "in_use t' key" if "key < capacity t" for key
    using set_desc_id_in_use [OF wf *(2) that] other [OF that] *(5) r
    by (auto simp: in_use_def)
  with * r set dtbl_set_wf [OF wf set] show ?thesis by auto
qed

text \<open>
  A reissued descriptor resolves to the value of its previous owner. A table of 128
  descriptors (the size of the endpoint table) is filled, descriptor 5 is deleted and a new
  value is registered: the allocator answers 5, and looking up 5 answers the old value.
\<close>

theorem dtbl_reissue_stale:
  "\<exists>rs t. tbl_run (replicate 128 (Tbl_Set u) @ [Tbl_Del 5, Tbl_Set v]) (DTBL_INITIALIZER 128) =
       Inr (rs @ [5], t) \<and> dtbl_get t 5 = Some u"
proof -
  obtain t where t: "tbl_run (replicate 128 (Tbl_Set u)) (DTBL_INITIALIZER 128) =
      Inr (map int [0..<128], t)" "dtbl_wf t" "next_entry t = 128" "max_entries t = 2"
      "desc t \<noteq> None" "\<forall>key < 128. in_use t key"
      "\<forall>key. 0 \<le> key \<and> key < 128 \<longrightarrow> dtbl_get t key = Some u"
    by (rule full_table)
  have cap: "capacity t = 128" using t(4) by (simp add: capacity_def)
  obtain t1 where del: "dtbl_del t 5 = Inr t1"
    using dtbl_del_defined [OF t(5), of 5] by auto
  note d = dtbl_del_wf [OF t(2) del]
  have t1: "capacity t1 = 128" "max_entries t1 = 2" "next_entry t1 = 128"
      "\<And>key. key < 128 \<Longrightarrow> in_use t1 key \<longleftrightarrow> key \<noteq> 5"
    using d(3,4) d(5) t(3,6) cap by (auto simp: capacity_def)
  have "\<exists>t2. dtbl_set True True t1 v = (int 5, t2) \<and> dtbl_wf t2 \<and> next_entry t2 = 5 + 1 \<and>
      max_entries t2 = max_entries t1 \<and> desc t2 \<noteq> None \<and>
      entry_list t2 = entry_list t1 @ [\<lparr>entry_id = int 5, entry_val = v\<rparr>] \<and>
      (\<forall>key < capacity t1. in_use t2 key)"
    using t1 by (intro dtbl_set_only_free [OF d(1)]) (simp_all add: scan_start_def)
  then obtain t2 where t2: "dtbl_set True True t1 v = (5, t2)"
      "entry_list t2 = entry_list t @ [\<lparr>entry_id = 5, entry_val = v\<rparr>]"
    using d(2) by auto
  have "dtbl_get t 5 = Some u" using t(7) by simp
  then have "dtbl_get t2 5 = Some u"
    by (auto simp: dtbl_get_find t2(2) find_snoc)
  with t(1) del t2(1) show ?thesis by (simp add: log_run_append)
qed

text \<open>
  An allocation can fail although a descriptor is free. With the 128 descriptors in use,
  70 is deleted and reissued; then 3 is deleted, and the next registration is refused: the
  search starts at the word of \<open>next_entry\<close> and never returns to an earlier one.
\<close>

theorem dtbl_spurious_full:
  "\<exists>rs t. tbl_run (replicate 128 (Tbl_Set u) @ [Tbl_Del 70, Tbl_Set v, Tbl_Del 3, Tbl_Set w])
         (DTBL_INITIALIZER 128) = Inr (rs @ [70, -1], t) \<and> \<not> in_use t 3"
proof -
  obtain t where t: "tbl_run (replicate 128 (Tbl_Set u)) (DTBL_INITIALIZER 128) =
      Inr (map int [0..<128], t)" "dtbl_wf t" "next_entry t = 128" "max_entries t = 2"
      "desc t \<noteq> None" "\<forall>key < 128. in_use t key"
    by (rule full_table)
  have cap: "capacity t = 128" using t(4) by (simp add: capacity_def)
  obtain t1 where del: "dtbl_del t 70 = Inr t1"
    using dtbl_del_defined [OF t(5), of 70] by auto
  note d = dtbl_del_wf [OF t(2) del]
  have t1: "capacity t1 = 128" "max_entries t1 = 2" "next_entry t1 = 128"
      "\<And>key. key < 128 \<Longrightarrow> in_use t1 key \<longleftrightarrow> key \<noteq> 70"
    using d(3,4) d(5) t(3,6) cap by (auto simp: capacity_def)
  have "\<exists>t2. dtbl_set True True t1 v = (int 70, t2) \<and> dtbl_wf t2 \<and> next_entry t2 = 70 + 1 \<and>
      max_entries t2 = max_entries t1 \<and> desc t2 \<noteq> None \<and>
      entry_list t2 = entry_list t1 @ [\<lparr>entry_id = int 70, entry_val = v\<rparr>] \<and>
      (\<forall>key < capacity t1. in_use t2 key)"
    using t1 by (intro dtbl_set_only_free [OF d(1)]) (simp_all add: scan_start_def)
  then obtain t2 where t2: "dtbl_set True True t1 v = (70, t2)" "dtbl_wf t2" "next_entry t2 = 71"
      "max_entries t2 = 2" "desc t2 \<noteq> None" "\<forall>key < 128. in_use t2 key"
    using t1(1,2) by auto
  obtain t3 where del3: "dtbl_del t2 3 = Inr t3"
    using dtbl_del_defined [OF t2(5), of 3] by auto
  note d3 = dtbl_del_wf [OF t2(2) del3]
  have free3: "\<not> in_use t3 3" using d3(5) [of 3] t2(4) by (simp add: capacity_def)
  have t3: "max_entries t3 = 2" using d3(4) t2(4) by (simp add: capacity_def)
  have full: "dtbl_set True True t3 w = (-1, t3\<lparr>desc := Some (table_bits t3)\<rparr>)"
  proof (rule dtbl_set_full [OF d3(1)])
    fix key assume "scan_start t3 \<le> key div 64" "key < capacity t3"
    then have "1 \<le> key div 64" "key < 128"
      using d3(3) t2(3) t3 by (simp_all add: scan_start_def capacity_def)
    then show "in_use t3 key"
      using d3(5) [of key] t2(4,6) by (auto simp: capacity_def)
  qed
  have "\<not> in_use (t3\<lparr>desc := Some (table_bits t3)\<rparr>) 3"
    using table_bits_wf(2) [OF d3(1), of 3] free3 t3 by (simp add: in_use_def capacity_def)
  with t(1) del t2(1) del3 full show ?thesis by (simp add: log_run_append)
qed

end
