(* ===== verification/Ep_Core.thy ===== *)
theory Ep_Core
  imports Base Table
begin

section \<open>Endpoints and their bindings (src/src/ep.h, src/src/ep_core.c)\<close>

text \<open>
  An endpoint is the \<open>struct ep_core\<close> around a \<open>struct rteipc_ep\<close>; the two share an address,
  so \<open>to_core\<close> is the identity on addresses. The cores live in a heap; \<open>free\<close> removes a
  core from it, and addresses are not recycled, so that every use of a freed core is seen as
  \<open>Dangling\<close>. The type of the private data (\<open>void *data\<close>) is a parameter.

  libevent's bufferevents are numbers. What the library does with them is recorded as a list of
  calls, newest first, and what libevent answers is an argument \<open>L\<close>: which pair
  \<open>bufferevent_pair_new\<close> returns (or none), which partner \<open>bufferevent_pair_get_partner\<close>
  returns, and the status of \<open>bufferevent_write_buffer\<close>, each after a given history.
\<close>

type_synonym bev = nat

datatype lev_call =
    Pair_New bev bev
  | Bev_Setcb bev addr
  | Bev_Enable bev
  | Bev_Flush bev
  | Bev_Write bev "byte list"
  | Bev_Free bev

record lev =
  pair_new :: "lev_call list \<Rightarrow> (bev \<times> bev) option"
  pair_get_partner :: "lev_call list \<Rightarrow> bev \<Rightarrow> bev option"
  write_status :: "lev_call list \<Rightarrow> bev \<Rightarrow> byte list \<Rightarrow> int"

text \<open>What the documentation of libevent promises of pairs.\<close>

fun live_bevs :: "lev_call list \<Rightarrow> bev set" where
  "live_bevs [] = {}"
| "live_bevs (Pair_New a b # h) = insert a (insert b (live_bevs h))"
| "live_bevs (Bev_Free a # h) = live_bevs h - {a}"
| "live_bevs (_ # h) = live_bevs h"

fun paired :: "lev_call list \<Rightarrow> bev \<rightharpoonup> bev" where
  "paired [] = Map.empty"
| "paired (Pair_New a b # h) = (paired h)(a \<mapsto> b, b \<mapsto> a)"
| "paired (Bev_Free a # h) = (\<lambda>x. if x = a \<or> paired h x = Some a then None else paired h x)"
| "paired (_ # h) = paired h"

definition lev_ok :: "lev \<Rightarrow> bool" where
  "lev_ok L \<longleftrightarrow>
     (\<forall>h a b. pair_new L h = Some (a, b) \<longrightarrow> a \<noteq> b \<and> a \<notin> live_bevs h \<and> b \<notin> live_bevs h) \<and>
     (\<forall>h a. a \<in> live_bevs h \<longrightarrow> pair_get_partner L h a = paired h a)"

text \<open>A libevent that numbers the ends of its pairs upwards and whose writes succeed.\<close>

fun fresh_bev :: "lev_call list \<Rightarrow> nat" where
  "fresh_bev [] = 0"
| "fresh_bev (Pair_New a b # h) = max (fresh_bev h) (max (a + 1) (b + 1))"
| "fresh_bev (_ # h) = fresh_bev h"

definition counting_lev :: lev where
  "counting_lev = \<lparr>pair_new = (\<lambda>h. Some (fresh_bev h, fresh_bev h + 1)),
     pair_get_partner = paired, write_status = (\<lambda>h b bs. 0)\<rparr>"

lemma fresh_bev_live: "x \<in> live_bevs h \<Longrightarrow> x < fresh_bev h"
  by (induction h rule: live_bevs.induct) auto

lemma lev_ok_counting [simp]: "lev_ok counting_lev"
  using fresh_bev_live by (fastforce simp: lev_ok_def counting_lev_def)

abbreviation (input) EP_TEMPLATE :: nat where "EP_TEMPLATE \<equiv> 0"
abbreviation (input) EP_IPC :: nat where "EP_IPC \<equiv> 1"
abbreviation (input) EP_TTY :: nat where "EP_TTY \<equiv> 2"
abbreviation (input) EP_GPIO :: nat where "EP_GPIO \<equiv> 3"
abbreviation (input) EP_SPI :: nat where "EP_SPI \<equiv> 4"
abbreviation (input) EP_I2C :: nat where "EP_I2C \<equiv> 5"
abbreviation (input) EP_SYSFS :: nat where "EP_SYSFS \<equiv> 6"
abbreviation (input) EP_INET :: nat where "EP_INET \<equiv> 7"
abbreviation (input) EP_LOOP :: nat where "EP_LOOP \<equiv> 8"

definition COMPAT_ANY :: "32 word" where "COMPAT_ANY = NOT 0"
definition COMPAT_IPC :: "32 word" where
  "COMPAT_IPC = push_bit EP_IPC 1 OR push_bit EP_INET 1"
definition COMPAT_TTY :: "32 word" where "COMPAT_TTY = push_bit EP_TTY 1"

text \<open>The function that the macro \<open>COMPATIBLE_WITH(name, mask)\<close> defines.\<close>

definition compatible_with :: "32 word \<Rightarrow> nat \<Rightarrow> bool" where
  "compatible_with msk val \<longleftrightarrow> push_bit val 1 AND msk \<noteq> 0"

text \<open>
  \<open>ep_compatible\<close> over the two \<open>ops->compatible\<close> pointers (\<open>None\<close> for NULL) and types: 2 for
  both directions, 1 for one, 0 for not compatible.
\<close>

definition ep_compatible ::
  "(nat \<Rightarrow> bool) option \<Rightarrow> nat \<Rightarrow> (nat \<Rightarrow> bool) option \<Rightarrow> nat \<Rightarrow> int" where
  "ep_compatible lh_compatible lh_type rh_compatible rh_type =
     (case (lh_compatible, rh_compatible) of
        (Some lc, Some rc) \<Rightarrow>
          (if lc rh_type \<and> rc lh_type then 2
           else if lc rh_type \<or> rc lh_type then 1
           else 0)
      | _ \<Rightarrow> 0)"

record 'd ep_core =
  core_id :: int
  partner_id :: int
  ep_type :: nat
  ep_base :: "nat option"
  ep_bev :: "bev option"
  ep_data :: "'d option"

record 'd rte = base_state +
  cores :: "addr \<rightharpoonup> 'd ep_core"
  next_core :: addr
  ep_tbl :: "addr dtbl"
  lev_calls :: "lev_call list"

definition MAX_NR_EP :: nat where
  "MAX_NR_EP = 2 * DESC_BIT_WIDTH"

definition lev_call :: "lev_call \<Rightarrow> ('d, 'z) rte_scheme \<Rightarrow> ('d, 'z) rte_scheme" where
  "lev_call c st = st\<lparr>lev_calls := c # lev_calls st\<rparr>"

text \<open>Writing the fields of an endpoint through its pointer.\<close>

definition set_core ::
  "addr \<Rightarrow> ('d ep_core \<Rightarrow> 'd ep_core) \<Rightarrow> ('d, 'z) rte_scheme \<Rightarrow> ('d, 'z) rte_scheme outcome" where
  "set_core a f st =
     and_then (deref (cores st) (Some a)) (\<lambda>c. Inr (st\<lparr>cores := (cores st)(a \<mapsto> f c)\<rparr>))"

definition find_endpoint :: "('d, 'z) rte_scheme \<Rightarrow> int \<Rightarrow> addr option" where
  "find_endpoint st key = dtbl_get (ep_tbl st) key"

definition get_partner_endpoint ::
  "('d, 'z) rte_scheme \<Rightarrow> addr \<Rightarrow> addr option outcome" where
  "get_partner_endpoint st ep =
     and_then (deref (cores st) (Some ep)) (\<lambda>c. Inr (find_endpoint st (partner_id c)))"

definition allocate_endpoint ::
  "bool \<Rightarrow> nat \<Rightarrow> ('d, 'z) rte_scheme \<Rightarrow> addr option \<times> ('d, 'z) rte_scheme" where
  "allocate_endpoint malloc_ok type st =
     (if \<not> malloc_ok then (None, st)
      else (let a = next_core st in
        (Some a, st\<lparr>next_core := a + 1,
           cores := (cores st)(a \<mapsto>
             \<lparr>core_id = -1, partner_id = -1, ep_type = type, ep_base = base st,
              ep_bev = None, ep_data = None\<rparr>)\<rparr>)))"

definition destroy_endpoint ::
  "addr \<Rightarrow> ('d, 'z) rte_scheme \<Rightarrow> ('d, 'z) rte_scheme outcome" where
  "destroy_endpoint ep st =
     and_then (deref (cores st) (Some ep)) (\<lambda>_. Inr (st\<lparr>cores := (cores st)(ep := None)\<rparr>))"

definition register_endpoint ::
  "bool \<Rightarrow> bool \<Rightarrow> addr \<Rightarrow> ('d, 'z) rte_scheme \<Rightarrow> (int \<times> ('d, 'z) rte_scheme) outcome" where
  "register_endpoint m_desc m_entry ep st =
     (case dtbl_set m_desc m_entry (ep_tbl st) ep of
        (key, tbl) \<Rightarrow>
          (let st1 = st\<lparr>ep_tbl := tbl\<rparr>
           in if key < 0 then Inr (-1, st1)
              else and_then (set_core ep (\<lambda>c. c\<lparr>core_id := key\<rparr>) st1) (\<lambda>st2. Inr (key, st2))))"

text \<open>
  \<open>bind_endpoint\<close>: the read callback is \<open>read_cb\<close> of ep.c with the endpoint as its argument
  (\<open>Bev_Setcb\<close>); the write and event callbacks are NULL in the only call.
\<close>

definition bind_endpoint ::
  "lev \<Rightarrow> addr \<Rightarrow> addr \<Rightarrow> ('d, 'z) rte_scheme \<Rightarrow> (int \<times> ('d, 'z) rte_scheme) outcome" where
  "bind_endpoint L lh rh st =
     and_then (deref (cores st) (Some lh)) (\<lambda>lc.
     and_then (deref (cores st) (Some rh)) (\<lambda>rc.
     if ep_bev lc \<noteq> None \<or> ep_bev rc \<noteq> None then Inr (-1, st)
     else (case pair_new L (lev_calls st) of
        None \<Rightarrow> Inr (-1, st)
      | Some (p0, p1) \<Rightarrow>
          and_then (set_core lh (\<lambda>c. c\<lparr>ep_bev := Some p0\<rparr>) (lev_call (Pair_New p0 p1) st)) (\<lambda>st1.
          and_then (set_core rh (\<lambda>c. c\<lparr>ep_bev := Some p1\<rparr>) st1) (\<lambda>st2.
          and_then (deref (cores st2) (Some rh)) (\<lambda>r2.
          and_then (set_core lh (\<lambda>c. c\<lparr>partner_id := core_id r2\<rparr>) st2) (\<lambda>st3.
          and_then (deref (cores st3) (Some lh)) (\<lambda>l3.
          and_then (set_core rh (\<lambda>c. c\<lparr>partner_id := core_id l3\<rparr>) st3) (\<lambda>st4.
          Inr (0, lev_call (Bev_Enable p1) (lev_call (Bev_Enable p0)
                   (lev_call (Bev_Setcb p1 rh) (lev_call (Bev_Setcb p0 lh) st4)))))))))))))"

definition unbind_endpoint ::
  "lev \<Rightarrow> addr \<Rightarrow> ('d, 'z) rte_scheme \<Rightarrow> ('d, 'z) rte_scheme outcome" where
  "unbind_endpoint L ep st =
     and_then (deref (cores st) (Some ep)) (\<lambda>c.
     case ep_bev c of
       None \<Rightarrow> Inr st
     | Some b \<Rightarrow>
         (case pair_get_partner L (lev_calls st) b of
            None \<Rightarrow> Inr st
          | Some pair \<Rightarrow>
              (case dtbl_get (ep_tbl st) (partner_id c) of
                 None \<Rightarrow> Inl Assert_Failed
               | Some partner \<Rightarrow>
                   and_then (deref (cores st) (Some partner)) (\<lambda>pc.
                   if ep_bev pc \<noteq> Some pair then Inl Assert_Failed
                   else
                     (let st1 = lev_call (Bev_Free pair) (lev_call (Bev_Free b) st) in
                      and_then (set_core partner (\<lambda>x. x\<lparr>ep_bev := None\<rparr>) st1) (\<lambda>st2.
                      and_then (set_core ep (\<lambda>x. x\<lparr>ep_bev := None\<rparr>) st2) (\<lambda>st3.
                      and_then (set_core partner (\<lambda>x. x\<lparr>partner_id := -1\<rparr>) st3) (\<lambda>st4.
                      set_core ep (\<lambda>x. x\<lparr>partner_id := -1\<rparr>) st4))))))))"

definition unregister_endpoint ::
  "lev \<Rightarrow> addr \<Rightarrow> ('d, 'z) rte_scheme \<Rightarrow> ('d, 'z) rte_scheme outcome" where
  "unregister_endpoint L ep st =
     and_then (deref (cores st) (Some ep)) (\<lambda>c.
     and_then (dtbl_del (ep_tbl st) (core_id c)) (\<lambda>tbl.
     and_then (set_core ep (\<lambda>x. x\<lparr>core_id := -1\<rparr>) (st\<lparr>ep_tbl := tbl\<rparr>)) (unbind_endpoint L ep)))"

lemmas core_op_defs =
  set_core_def lev_call_def find_endpoint_def get_partner_endpoint_def allocate_endpoint_def
  destroy_endpoint_def register_endpoint_def bind_endpoint_def unbind_endpoint_def
  unregister_endpoint_def


subsection \<open>The invariant of the bindings\<close>

text \<open>
  While the endpoint table is in its first lap (at most 128 registrations), a descriptor of a
  live core resolves to this core; two cores are bound exactly when their bufferevents are the
  two ends of one pair, each names the other by its descriptor, and no bufferevent belongs to
  two cores. A core without bufferevent has no partner.
\<close>

definition bound_to ::
  "('d, 'z) rte_scheme \<Rightarrow> addr \<Rightarrow> 'd ep_core \<Rightarrow> addr \<Rightarrow> 'd ep_core \<Rightarrow> bool" where
  "bound_to st a c b d \<longleftrightarrow>
     cores st a = Some c \<and> cores st b = Some d \<and> a \<noteq> b \<and>
     core_id c \<noteq> -1 \<and> core_id d \<noteq> -1 \<and> partner_id c = core_id d \<and> partner_id d = core_id c \<and>
     (\<exists>x y. ep_bev c = Some x \<and> ep_bev d = Some y \<and> x \<noteq> y \<and>
        x \<in> live_bevs (lev_calls st) \<and> y \<in> live_bevs (lev_calls st) \<and>
        paired (lev_calls st) x = Some y \<and> paired (lev_calls st) y = Some x)"

definition core_inv :: "('d, 'z) rte_scheme \<Rightarrow> bool" where
  "core_inv st \<longleftrightarrow>
     first_lap (ep_tbl st) \<and>
     (\<forall>a. next_core st \<le> a \<longrightarrow> cores st a = None) \<and>
     (\<forall>a c. cores st a = Some c \<longrightarrow> core_id c \<noteq> -1 \<longrightarrow> find_endpoint st (core_id c) = Some a) \<and>
     (\<forall>a c. cores st a = Some c \<longrightarrow> ep_bev c \<noteq> None \<longrightarrow> (\<exists>b d. bound_to st a c b d)) \<and>
     (\<forall>a c. cores st a = Some c \<longrightarrow> ep_bev c = None \<longrightarrow> partner_id c = -1) \<and>
     (\<forall>a b c d. cores st a = Some c \<longrightarrow> cores st b = Some d \<longrightarrow> ep_bev c \<noteq> None \<longrightarrow>
        ep_bev c = ep_bev d \<longrightarrow> a = b)"

lemma core_invD:
  assumes "core_inv st"
  shows core_inv_lap: "first_lap (ep_tbl st)"
    and core_inv_fresh: "next_core st \<le> a \<Longrightarrow> cores st a = None"
    and core_inv_find: "cores st a = Some c \<Longrightarrow> core_id c \<noteq> -1 \<Longrightarrow> find_endpoint st (core_id c) = Some a"
    and core_inv_bound: "cores st a = Some c \<Longrightarrow> ep_bev c \<noteq> None \<Longrightarrow> \<exists>b d. bound_to st a c b d"
    and core_inv_unbound: "cores st a = Some c \<Longrightarrow> ep_bev c = None \<Longrightarrow> partner_id c = -1"
    and core_inv_inj: "cores st a = Some c \<Longrightarrow> cores st b = Some d \<Longrightarrow> ep_bev c \<noteq> None \<Longrightarrow>
      ep_bev c = ep_bev d \<Longrightarrow> a = b"
  using assms unfolding core_inv_def by blast+

lemma bound_to_sym: "bound_to st a c b d \<Longrightarrow> bound_to st b d a c"
  unfolding bound_to_def by blast

lemma bound_to_unique:
  assumes "core_inv st" "bound_to st a c b d" "bound_to st a c b' d'"
  shows "b' = b \<and> d' = d"
proof -
  have "core_id d = core_id d'" "core_id d \<noteq> -1" "cores st b = Some d" "cores st b' = Some d'"
    using assms(2,3) by (auto simp: bound_to_def)
  with core_inv_find [OF assms(1)] show ?thesis by (metis option.inject)
qed

lemma unbind_unbound:
  "cores st a = Some c \<Longrightarrow> ep_bev c = None \<Longrightarrow> unbind_endpoint L a st = Inr st"
  by (simp add: unbind_endpoint_def)

text \<open>What unbinding does to a core that is bound, whatever its own descriptor is by then.\<close>

lemma unbind_bound:
  assumes "cores st a = Some c" "ep_bev c = Some x" "pair_get_partner L (lev_calls st) x = Some y"
    and "find_endpoint st (partner_id c) = Some b" "cores st b = Some d" "ep_bev d = Some y" "a \<noteq> b"
  shows "unbind_endpoint L a st = Inr (st\<lparr>
      cores := (cores st)(b \<mapsto> d\<lparr>ep_bev := None, partner_id := -1\<rparr>,
                          a \<mapsto> c\<lparr>ep_bev := None, partner_id := -1\<rparr>),
      lev_calls := Bev_Free y # Bev_Free x # lev_calls st\<rparr>)"
  using assms
  by (simp add: unbind_endpoint_def find_endpoint_def set_core_def lev_call_def Let_def
      fun_upd_twist [of a b])

lemma bind_free:
  assumes "cores st a = Some c" "cores st b = Some d" "a \<noteq> b" "ep_bev c = None" "ep_bev d = None"
    and "pair_new L (lev_calls st) = Some (p0, p1)"
  shows "bind_endpoint L a b st = Inr (0, st\<lparr>
      cores := (cores st)(a \<mapsto> c\<lparr>ep_bev := Some p0, partner_id := core_id d\<rparr>,
                          b \<mapsto> d\<lparr>ep_bev := Some p1, partner_id := core_id c\<rparr>),
      lev_calls := [Bev_Enable p1, Bev_Enable p0, Bev_Setcb p1 b, Bev_Setcb p0 a,
                    Pair_New p0 p1] @ lev_calls st\<rparr>)"
  using assms
  by (simp add: bind_endpoint_def set_core_def lev_call_def fun_upd_twist [of a b])


subsection \<open>Every operation keeps the invariant\<close>

lemma lev_ok_pair_new:
  "lev_ok L \<Longrightarrow> pair_new L h = Some (a, b) \<Longrightarrow> a \<noteq> b \<and> a \<notin> live_bevs h \<and> b \<notin> live_bevs h"
  by (auto simp: lev_ok_def)

lemma lev_ok_partner: "lev_ok L \<Longrightarrow> a \<in> live_bevs h \<Longrightarrow> pair_get_partner L h a = paired h a"
  by (simp add: lev_ok_def)

text \<open>
  A new pair leaves the other bound cores bound, and unbinding one pair leaves every other
  pair bound: the two facts about libevent's history that all preservation proofs use.
\<close>

lemma bound_to_frame:
  assumes "bound_to st e ce f cf" "cores st' e = Some ce" "cores st' f = Some cf"
    and "\<And>x y. ep_bev ce = Some x \<Longrightarrow> ep_bev cf = Some y \<Longrightarrow> {x, y} \<subseteq> live_bevs (lev_calls st) \<Longrightarrow>
      paired (lev_calls st) x = Some y \<Longrightarrow> paired (lev_calls st) y = Some x \<Longrightarrow>
      {x, y} \<subseteq> live_bevs (lev_calls st') \<and>
      paired (lev_calls st') x = Some y \<and> paired (lev_calls st') y = Some x"
  shows "bound_to st' e ce f cf"
  using assms unfolding bound_to_def by blast

lemma allocate_keeps_inv:
  assumes "core_inv st" and "allocate_endpoint m ty st = (Some a, st')"
  shows "core_inv st'" "cores st' = (cores st)(a \<mapsto>
      \<lparr>core_id = -1, partner_id = -1, ep_type = ty, ep_base = base st, ep_bev = None, ep_data = None\<rparr>)"
    "cores st a = None" "ep_tbl st' = ep_tbl st" "lev_calls st' = lev_calls st"
proof -
  have st': "st' = st\<lparr>next_core := a + 1, cores := (cores st)(a \<mapsto>
      \<lparr>core_id = -1, partner_id = -1, ep_type = ty, ep_base = base st, ep_bev = None, ep_data = None\<rparr>)\<rparr>"
    and a: "a = next_core st"
    using assms(2) by (auto simp: allocate_endpoint_def Let_def split: if_splits)
  show none: "cores st a = None" using core_inv_fresh [OF assms(1)] a by simp
  show "cores st' = (cores st)(a \<mapsto>
      \<lparr>core_id = -1, partner_id = -1, ep_type = ty, ep_base = base st, ep_bev = None, ep_data = None\<rparr>)"
    "ep_tbl st' = ep_tbl st" "lev_calls st' = lev_calls st"
    using st' by simp_all
  have frame: "bound_to st' e ce f cf" if "bound_to st e ce f cf" for e ce f cf
    using bound_to_frame [OF that, of st'] that none st' by (auto simp: bound_to_def)
  have "\<exists>b d. bound_to st' e ce b d" if "cores st e = Some ce" "ep_bev ce \<noteq> None" for e ce
    using core_inv_bound [OF assms(1) that] frame by blast
  then show "core_inv st'"
    using core_invD [OF assms(1)] a
    unfolding core_inv_def by (auto simp: st' find_endpoint_def)
qed

lemma register_keeps_inv:
  assumes inv: "core_inv st" and a: "cores st a = Some c" "core_id c = -1" "ep_bev c = None"
    and room: "length (registered (ep_tbl st)) < capacity (ep_tbl st)"
  shows "\<exists>st'. register_endpoint True True a st = Inr (int (length (registered (ep_tbl st))), st') \<and>
    core_inv st' \<and> cores st' = (cores st)(a \<mapsto> c\<lparr>core_id := int (length (registered (ep_tbl st)))\<rparr>) \<and>
    registered (ep_tbl st') = registered (ep_tbl st) @ [a] \<and>
    capacity (ep_tbl st') = capacity (ep_tbl st) \<and> lev_calls st' = lev_calls st"
proof -
  let ?n = "int (length (registered (ep_tbl st)))"
  obtain t where t: "dtbl_set True True (ep_tbl st) a = (?n, t)" "first_lap t"
      "registered t = registered (ep_tbl st) @ [a]" "capacity t = capacity (ep_tbl st)"
    using tbl.set_law [OF core_inv_lap [OF inv] room] by blast
  note get = tbl.set_get [OF core_inv_lap [OF inv] room t(1)]
  define st' where "st' = st\<lparr>ep_tbl := t, cores := (cores st)(a \<mapsto> c\<lparr>core_id := ?n\<rparr>)\<rparr>"
  have reg: "register_endpoint True True a st = Inr (?n, st')"
    using a by (simp add: register_endpoint_def t(1) set_core_def st'_def Let_def)
  have id_ne: "core_id d \<noteq> ?n" if "cores st e = Some d" for e d
    using core_inv_find [OF inv that] get(4) by (auto simp: find_endpoint_def)
  have frame: "bound_to st' e ce f cf" if "bound_to st e ce f cf" for e ce f cf
  proof -
    have "e \<noteq> a" "f \<noteq> a" using that a(1,2) by (auto simp: bound_to_def)
    then show ?thesis using bound_to_frame [OF that, of st'] that
      by (auto simp: bound_to_def st'_def)
  qed
  have "core_inv st'"
    unfolding core_inv_def
  proof (intro conjI allI impI)
    show "first_lap (ep_tbl st')" using t(2) by (simp add: st'_def)
    show "cores st' e = None" if "next_core st' \<le> e" for e
      using that core_inv_fresh [OF inv] a(1) by (auto simp: st'_def)
    show "find_endpoint st' (core_id d) = Some e" if "cores st' e = Some d" "core_id d \<noteq> -1" for e d
      using that core_inv_find [OF inv] get(2,3) id_ne
      by (auto simp: st'_def find_endpoint_def split: if_splits)
    show "\<exists>b d. bound_to st' e ce b d" if "cores st' e = Some ce" "ep_bev ce \<noteq> None" for e ce
      using that a(3) core_inv_bound [OF inv] frame
      by (fastforce simp: st'_def split: if_splits)
    show "partner_id d = -1" if "cores st' e = Some d" "ep_bev d = None" for e d
      using that core_inv_unbound [OF inv] a by (auto simp: st'_def split: if_splits)
    show "e = f" if "cores st' e = Some ce" "cores st' f = Some cf" "ep_bev ce \<noteq> None"
        "ep_bev ce = ep_bev cf" for e f ce cf
      using that core_inv_inj [OF inv] a(3) by (auto simp: st'_def split: if_splits)
  qed
  with reg t show ?thesis by (auto simp: st'_def)
qed

lemma bind_keeps_inv:
  assumes inv: "core_inv st" and L: "lev_ok L"
    and cs: "cores st a = Some c" "cores st b = Some d" "a \<noteq> b" "ep_bev c = None" "ep_bev d = None"
      "core_id c \<noteq> -1" "core_id d \<noteq> -1"
    and new: "pair_new L (lev_calls st) = Some (p0, p1)"
    and bind: "bind_endpoint L a b st = Inr (r, st')"
  shows "core_inv st'"
proof -
  have st': "st' = st\<lparr>
      cores := (cores st)(a \<mapsto> c\<lparr>ep_bev := Some p0, partner_id := core_id d\<rparr>,
                          b \<mapsto> d\<lparr>ep_bev := Some p1, partner_id := core_id c\<rparr>),
      lev_calls := [Bev_Enable p1, Bev_Enable p0, Bev_Setcb p1 b, Bev_Setcb p0 a,
                    Pair_New p0 p1] @ lev_calls st\<rparr>"
    using bind_free [OF cs(1-5) new] bind by simp
  note fresh = lev_ok_pair_new [OF L new]
  have live: "x \<in> live_bevs (lev_calls st)" if "cores st e = Some ce" "ep_bev ce = Some x" for e ce x
    using core_inv_bound [OF inv that(1)] that by (auto simp: bound_to_def)
  have new_bound: "bound_to st' a (c\<lparr>ep_bev := Some p0, partner_id := core_id d\<rparr>)
      b (d\<lparr>ep_bev := Some p1, partner_id := core_id c\<rparr>)"
    using cs fresh by (auto simp: bound_to_def st')
  have frame: "bound_to st' e ce f cf" if "bound_to st e ce f cf" for e ce f cf
  proof -
    have "e \<notin> {a, b}" "f \<notin> {a, b}" using that cs by (auto simp: bound_to_def)
    then have "cores st' e = Some ce" "cores st' f = Some cf"
      using that by (simp_all add: bound_to_def st')
    then show ?thesis by (rule bound_to_frame [OF that]) (use fresh in \<open>auto simp: st'\<close>)
  qed
  show ?thesis
    unfolding core_inv_def
  proof (intro conjI allI impI)
    show "first_lap (ep_tbl st')" using core_inv_lap [OF inv] by (simp add: st')
    show "cores st' e = None" if "next_core st' \<le> e" for e
      using that core_inv_fresh [OF inv] cs(1,2) by (auto simp: st')
    show "find_endpoint st' (core_id ce) = Some e" if "cores st' e = Some ce" "core_id ce \<noteq> -1" for e ce
      using that core_inv_find [OF inv] cs by (auto simp: st' find_endpoint_def split: if_splits)
    show "\<exists>f cf. bound_to st' e ce f cf" if "cores st' e = Some ce" "ep_bev ce \<noteq> None" for e ce
    proof (cases "e \<in> {a, b}")
      case True
      with that cs(3) new_bound bound_to_sym [OF new_bound] show ?thesis
        by (auto simp: st' split: if_splits)
    next
      case False
      with that(1) have "cores st e = Some ce" by (simp add: st')
      from core_inv_bound [OF inv this that(2)] frame show ?thesis by blast
    qed
    show "partner_id ce = -1" if "cores st' e = Some ce" "ep_bev ce = None" for e ce
      using that core_inv_unbound [OF inv] by (auto simp: st' split: if_splits)
    show "e = f" if "cores st' e = Some ce" "cores st' f = Some cf" "ep_bev ce \<noteq> None"
        "ep_bev ce = ep_bev cf" for e f ce cf
      using that core_inv_inj [OF inv, of e _ f] live [of e ce] live [of f cf] fresh
      by (auto simp: st' split: if_splits)
  qed
qed


lemma paired_after_free:
  assumes "paired h z = Some w" "z \<notin> {x, y}" "w \<notin> {x, y}"
  shows "paired (Bev_Free y # Bev_Free x # h) z = Some w"
  using assms by auto

text \<open>
  Unbinding and, for a core that is being closed, giving up its descriptor: \<open>c'\<close> is the
  closing core with any descriptor, \<open>keep\<close> says whether it stays in the heap.
\<close>

lemma unbind_frees_pair:
  assumes inv: "core_inv st" and bound: "bound_to st a c b d"
    and x: "ep_bev c = Some x" and y: "ep_bev d = Some y"
    and st': "cores st' = (cores st)(b \<mapsto> d\<lparr>ep_bev := None, partner_id := -1\<rparr>, a := ca)"
      "ca = None \<or> ca = Some (c\<lparr>ep_bev := None, partner_id := -1\<rparr>)"
      "lev_calls st' = Bev_Free y # Bev_Free x # lev_calls st"
      "next_core st' = next_core st" "first_lap (ep_tbl st')"
      "registered (ep_tbl st') = registered (ep_tbl st)"
  shows "core_inv st'"
proof -
  have ab: "cores st a = Some c" "cores st b = Some d" "a \<noteq> b"
    using bound by (auto simp: bound_to_def)
  have find: "find_endpoint st' k = find_endpoint st k" for k
    using first_lap_get [OF st'(5)] first_lap_get [OF core_inv_lap [OF inv]] st'(6)
    by (simp add: find_endpoint_def)
  have frame: "bound_to st' e ce f cf" if e: "bound_to st e ce f cf" "e \<notin> {a, b}" for e ce f cf
  proof -
    have "f \<noteq> a"
    proof
      assume "f = a"
      with e(1) ab have "bound_to st a c e ce" by (metis bound_to_def bound_to_sym option.inject)
      with bound_to_unique [OF inv bound this] e(2) show False by simp
    qed
    moreover have "f \<noteq> b"
    proof
      assume "f = b"
      with e(1) ab have "bound_to st b d e ce" by (metis bound_to_def bound_to_sym option.inject)
      with bound_to_unique [OF inv bound_to_sym [OF bound] this] e(2) show False by simp
    qed
    ultimately have "f \<notin> {a, b}" by simp
    with e have "cores st' e = Some ce" "cores st' f = Some cf"
      by (auto simp: bound_to_def st'(1))
    note st'_cores = this
    have bev: "ep_bev cg \<noteq> Some x" "ep_bev cg \<noteq> Some y"
      if g: "cores st g = Some cg" "g \<notin> {a, b}" for g cg
      using core_inv_inj [OF inv g(1) ab(1)] core_inv_inj [OF inv g(1) ab(2)] g(2) x y by auto
    have core: "cores st e = Some ce" "cores st f = Some cf"
      using e(1) by (simp_all add: bound_to_def)
    note bev_e = bev [OF core(1) e(2)] and bev_f = bev [OF core(2) \<open>f \<notin> {a, b}\<close>]
    show ?thesis
      by (rule bound_to_frame [OF e(1) st'_cores]) (use bev_e bev_f in \<open>simp_all add: st'(3)\<close>)
  qed
  show ?thesis
    unfolding core_inv_def
  proof (intro conjI allI impI)
    show "first_lap (ep_tbl st')" by (rule st'(5))
    show "cores st' e = None" if "next_core st' \<le> e" for e
      using that core_inv_fresh [OF inv] ab st' by auto
    show "find_endpoint st' (core_id ce) = Some e" if "cores st' e = Some ce" "core_id ce \<noteq> -1" for e ce
      using that core_inv_find [OF inv] ab st'(1,2) by (auto simp: find split: if_splits)
    show "\<exists>f cf. bound_to st' e ce f cf" if "cores st' e = Some ce" "ep_bev ce \<noteq> None" for e ce
    proof -
      have e: "e \<notin> {a, b}" using that st'(1,2) by (auto split: if_splits)
      with that(1) have "cores st e = Some ce" by (simp add: st'(1))
      from core_inv_bound [OF inv this that(2)] frame e show ?thesis by blast
    qed
    show "partner_id ce = -1" if "cores st' e = Some ce" "ep_bev ce = None" for e ce
      using that core_inv_unbound [OF inv] st'(1,2) by (auto split: if_splits)
    show "e = f" if "cores st' e = Some ce" "cores st' f = Some cf" "ep_bev ce \<noteq> None"
        "ep_bev ce = ep_bev cf" for e f ce cf
      using that core_inv_inj [OF inv, of e _ f] st'(1,2) by (auto split: if_splits)
  qed
qed

lemma bound_partner:
  assumes "core_inv st" "lev_ok L" "bound_to st a c b d" "ep_bev c = Some x" "ep_bev d = Some y"
  shows "pair_get_partner L (lev_calls st) x = Some y" "find_endpoint st (partner_id c) = Some b"
  using assms core_inv_find [OF assms(1), of b d]
  by (auto simp: bound_to_def lev_ok_partner)

text \<open>
  Unbinding and closing in one statement each: the partner, if there is one, loses its binding,
  and no other core changes.
\<close>

definition unbound :: "'d ep_core \<Rightarrow> 'd ep_core" where
  "unbound c = c\<lparr>ep_bev := None, partner_id := -1\<rparr>"

definition freed_partner ::
  "('d, 'z) rte_scheme \<Rightarrow> addr \<Rightarrow> 'd ep_core \<Rightarrow> addr \<rightharpoonup> 'd ep_core" where
  "freed_partner st a c e =
     (if (\<exists>d. bound_to st a c e d) then map_option unbound (cores st e) else cores st e)"

lemma unbound_simps [simp]:
  "core_id (unbound c) = core_id c" "ep_type (unbound c) = ep_type c" "ep_data (unbound c) = ep_data c"
  "ep_bev (unbound c) = None" "partner_id (unbound c) = -1" "ep_base (unbound c) = ep_base c"
  by (simp_all add: unbound_def)

lemma unbound_eq: "ep_bev c = None \<Longrightarrow> partner_id c = -1 \<Longrightarrow> unbound c = c"
  by (simp add: unbound_def)

lemma freed_partner_bound:
  assumes "core_inv st" "bound_to st a c b d"
  shows "freed_partner st a c = (cores st)(b \<mapsto> unbound d)"
proof
  fix e
  have "cores st b = Some d" using assms(2) by (simp add: bound_to_def)
  moreover have "(\<exists>d'. bound_to st a c e d') \<longleftrightarrow> e = b"
    using assms bound_to_unique [OF assms] by blast
  ultimately show "freed_partner st a c e = ((cores st)(b \<mapsto> unbound d)) e"
    by (simp add: freed_partner_def)
qed

lemma freed_partner_unbound:
  "ep_bev c = None \<Longrightarrow> freed_partner st a c = cores st"
  by (intro ext) (auto simp: freed_partner_def bound_to_def)

lemma unbind_keeps_inv:
  assumes inv: "core_inv st" and L: "lev_ok L" and a: "cores st a = Some c"
  shows "\<exists>lc st'. unbind_endpoint L a st = Inr st' \<and> core_inv st' \<and>
    st' = st\<lparr>cores := (freed_partner st a c)(a \<mapsto> unbound c), lev_calls := lc\<rparr>"
proof (cases "ep_bev c")
  case None
  have "unbound c = c" by (rule unbound_eq [OF None core_inv_unbound [OF inv a None]])
  then have "(cores st)(a \<mapsto> unbound c) = cores st" using a by auto
  then have "st = st\<lparr>cores := (freed_partner st a c)(a \<mapsto> unbound c), lev_calls := lev_calls st\<rparr>"
    by (simp add: freed_partner_unbound [OF None])
  with unbind_unbound [OF a None] inv show ?thesis by metis
next
  case (Some x)
  then obtain b d where bound: "bound_to st a c b d" using core_inv_bound [OF inv a] by auto
  then obtain y where y: "ep_bev d = Some y" and ab: "cores st b = Some d" "a \<noteq> b"
    by (auto simp: bound_to_def)
  define st' where "st' = st\<lparr>cores := (freed_partner st a c)(a \<mapsto> unbound c),
      lev_calls := Bev_Free y # Bev_Free x # lev_calls st\<rparr>"
  have "unbind_endpoint L a st = Inr st'"
    using unbind_bound [OF a Some bound_partner(1) [OF inv L bound Some y]
        bound_partner(2) [OF inv L bound Some y] ab(1) y ab(2)]
    by (simp add: st'_def freed_partner_bound [OF inv bound] unbound_def)
  moreover have "core_inv st'"
    by (rule unbind_frees_pair [OF inv bound Some y, where ca = "Some (unbound c)"])
      (use core_inv_lap [OF inv] in
        \<open>simp_all add: st'_def freed_partner_bound [OF inv bound] unbound_def\<close>)
  ultimately show ?thesis unfolding st'_def by blast
qed

text \<open>Dropping an unbound core from the heap; its entry stays in the table.\<close>

lemma drop_core_inv:
  assumes inv: "core_inv st" and a: "cores st a = Some c" "ep_bev c = None"
    and st': "cores st' = (cores st)(a := None)" "lev_calls st' = lev_calls st"
      "next_core st' = next_core st" "first_lap (ep_tbl st')"
      "registered (ep_tbl st') = registered (ep_tbl st)"
  shows "core_inv st'"
proof -
  have find: "find_endpoint st' k = find_endpoint st k" for k
    using first_lap_get [OF st'(4)] first_lap_get [OF core_inv_lap [OF inv]] st'(5)
    by (simp add: find_endpoint_def)
  have frame: "bound_to st' e ce f cf" if "bound_to st e ce f cf" for e ce f cf
  proof -
    have "e \<noteq> a" "f \<noteq> a" using that a by (auto simp: bound_to_def)
    then show ?thesis using bound_to_frame [OF that, of st'] that
      by (auto simp: bound_to_def st'(1,2))
  qed
  show ?thesis
    unfolding core_inv_def
  proof (intro conjI allI impI)
    show "first_lap (ep_tbl st')" by (rule st'(4))
    show "cores st' e = None" if "next_core st' \<le> e" for e
      using that core_inv_fresh [OF inv] st'(1,3) by simp
    show "find_endpoint st' (core_id ce) = Some e" if "cores st' e = Some ce" "core_id ce \<noteq> -1" for e ce
      using that core_inv_find [OF inv] by (auto simp: find st'(1) split: if_splits)
    show "\<exists>f cf. bound_to st' e ce f cf" if "cores st' e = Some ce" "ep_bev ce \<noteq> None" for e ce
      using that core_inv_bound [OF inv] frame by (fastforce simp: st'(1) split: if_splits)
    show "partner_id ce = -1" if "cores st' e = Some ce" "ep_bev ce = None" for e ce
      using that core_inv_unbound [OF inv] by (auto simp: st'(1) split: if_splits)
    show "e = f" if "cores st' e = Some ce" "cores st' f = Some cf" "ep_bev ce \<noteq> None"
        "ep_bev ce = ep_bev cf" for e f ce cf
      using that core_inv_inj [OF inv] by (auto simp: st'(1) split: if_splits)
  qed
qed

lemma core_id_registered:
  assumes "core_inv st" "cores st a = Some c" "core_id c \<noteq> -1"
  shows "0 \<le> core_id c" "nat (core_id c) < length (registered (ep_tbl st))"
  using core_inv_find [OF assms] first_lap_get [OF core_inv_lap [OF assms(1)], of "core_id c"]
  by (auto simp: find_endpoint_def split: if_splits)

lemma close_keeps_inv:
  assumes inv: "core_inv st" and L: "lev_ok L" and a: "cores st a = Some c" "core_id c \<noteq> -1"
  shows "\<exists>t lc st'. and_then (unregister_endpoint L a st) (destroy_endpoint a) = Inr st' \<and> core_inv st' \<and>
    st' = st\<lparr>ep_tbl := t, cores := (freed_partner st a c)(a := None), lev_calls := lc\<rparr> \<and>
    registered t = registered (ep_tbl st) \<and> capacity t = capacity (ep_tbl st)"
proof -
  obtain t where t: "dtbl_del (ep_tbl st) (core_id c) = Inr t" "first_lap t"
      "registered t = registered (ep_tbl st)" "capacity t = capacity (ep_tbl st)"
    using first_lap_del [OF core_inv_lap [OF inv] core_id_registered [OF inv a]] by blast
  let ?c = "c\<lparr>core_id := -1\<rparr>"
  define st1 where "st1 = st\<lparr>ep_tbl := t, cores := (cores st)(a \<mapsto> ?c)\<rparr>"
  have unreg: "unregister_endpoint L a st = unbind_endpoint L a st1"
    using a t(1) by (simp add: unregister_endpoint_def set_core_def st1_def)
  have a1: "cores st1 a = Some ?c" by (simp add: st1_def)
  show ?thesis
  proof (cases "ep_bev c")
    case None
    define st' where "st' = st\<lparr>ep_tbl := t, cores := (freed_partner st a c)(a := None),
      lev_calls := lev_calls st\<rparr>"
    have "and_then (unregister_endpoint L a st) (destroy_endpoint a) = Inr st'"
      using unbind_unbound [OF a1] None unreg
      by (simp add: destroy_endpoint_def a1) (simp add: st1_def st'_def freed_partner_unbound)
    moreover have "core_inv st'"
      by (rule drop_core_inv [OF inv a(1) None])
        (simp_all add: st'_def t freed_partner_unbound [OF None])
    ultimately show ?thesis using t(3,4) unfolding st'_def by blast
  next
    case (Some x)
    then obtain b d where bound: "bound_to st a c b d" using core_inv_bound [OF inv a(1)] by auto
    then obtain y where y: "ep_bev d = Some y" and ab: "cores st b = Some d" "a \<noteq> b"
      by (auto simp: bound_to_def)
    define st' where "st' = st\<lparr>ep_tbl := t, cores := (freed_partner st a c)(a := None),
      lev_calls := Bev_Free y # Bev_Free x # lev_calls st\<rparr>"
    have find: "find_endpoint st1 k = find_endpoint st k" for k
      using first_lap_get [OF t(2)] first_lap_get [OF core_inv_lap [OF inv]] t(3)
      by (simp add: find_endpoint_def st1_def)
    have "unbind_endpoint L a st1 = Inr (st1\<lparr>
        cores := (cores st1)(b \<mapsto> d\<lparr>ep_bev := None, partner_id := -1\<rparr>,
          a \<mapsto> ?c\<lparr>ep_bev := None, partner_id := -1\<rparr>),
        lev_calls := Bev_Free y # Bev_Free x # lev_calls st1\<rparr>)"
      by (rule unbind_bound [OF a1]) (use Some y ab bound_partner [OF inv L bound Some y] find in
          \<open>simp_all add: st1_def\<close>)
    then have "and_then (unregister_endpoint L a st) (destroy_endpoint a) = Inr st'"
      using ab(2) unreg
      by (simp add: destroy_endpoint_def st1_def st'_def freed_partner_bound [OF inv bound]
          unbound_def fun_upd_twist [of a b])
    moreover have "core_inv st'"
      by (rule unbind_frees_pair [OF inv bound Some y, where ca = None])
        (simp_all add: st'_def t freed_partner_bound [OF inv bound] unbound_def fun_upd_twist [of a b])
    ultimately show ?thesis using t(3,4) unfolding st'_def by blast
  qed
qed

end
