(* ===== verification/Message.thy ===== *)
theory Message
  imports Prelude
begin

section \<open>Message framing (src/src/message.c, src/src/message.h)\<close>

text \<open>
  A message on a stream is a 32-bit length in network order followed by that many bytes. An
  evbuffer of libevent is modelled by the bytes it holds: removing takes from the front,
  adding appends. What a bufferevent does with the bytes written to it is libevent's affair,
  so \<open>bufferevent_write_buffer\<close> is an argument; malloc is an argument too, \<open>M n\<close> saying
  whether an allocation of \<open>n\<close> bytes succeeds.
\<close>

abbreviation ntohl :: "32 word \<Rightarrow> 32 word" where
  "ntohl \<equiv> htonl"

text \<open>\<open>msglen + 4\<close> is computed in 32 bits and wraps.\<close>

definition msg_length :: "byte list \<Rightarrow> 32 word" where
  "msg_length buf =
     (let buflen = length buf
      in if buflen < 4 then 0
         else (let msglen = ntohl (of_le32 (take 4 buf))
               in if buflen < unat (msglen + 4) then 0 else msglen))"

text \<open>
  \<open>Drain_Msg n bs\<close>: a buffer of \<open>n\<close> bytes was allocated and \<open>evbuffer_remove\<close> filled it with
  \<open>bs\<close>, which is shorter than \<open>n\<close> when the evbuffer held less than it announced.
\<close>

datatype drained = Drain_Empty | Drain_Error | Drain_Msg nat "byte list"

definition rteipc_msg_drain :: "(nat \<Rightarrow> bool) \<Rightarrow> byte list \<Rightarrow> drained \<times> byte list" where
  "rteipc_msg_drain M buf =
     (let len = msg_length buf
      in if len = 0 then (Drain_Empty, buf)
         else if \<not> M (unat len) then (Drain_Error, buf)
         else (let buf1 = drop 4 buf
               in (Drain_Msg (unat len) (take (unat len) buf1), drop (unat len) buf1)))"

text \<open>
  \<open>nl\<close> is a \<open>size_t\<close> holding \<open>htonl(len)\<close>; its first four bytes in memory are prepended.
\<close>

definition frame :: "byte list \<Rightarrow> byte list" where
  "frame buf = take 4 (le64 (ucast (htonl (of_nat (length buf))))) @ buf"

definition rteipc_evbuffer ::
  "(byte list \<Rightarrow> 'w \<Rightarrow> int \<times> 'w) \<Rightarrow> byte list \<Rightarrow> 'w \<Rightarrow> int \<times> 'w" where
  "rteipc_evbuffer bufferevent_write_buffer buf w = bufferevent_write_buffer (frame buf) w"

definition rteipc_buffer ::
  "(byte list \<Rightarrow> 'w \<Rightarrow> int \<times> 'w) \<Rightarrow> byte list \<Rightarrow> 'w \<Rightarrow> int \<times> 'w" where
  "rteipc_buffer bufferevent_write_buffer data w =
     rteipc_evbuffer bufferevent_write_buffer ([] @ data) w"

text \<open>
  \<open>rteipc_msg_write\<close>: the kernel's \<open>write\<close> is an argument, called with the number of the
  call and the bytes offered. EINTR and EAGAIN repeat the call, any other error closes the
  descriptor (the last component of the result). The loop need not end.
\<close>

datatype write_result = Written nat | Interrupted | Write_Failed

partial_function (option) rteipc_msg_write ::
  "(nat \<Rightarrow> byte list \<Rightarrow> write_result) \<Rightarrow> byte list \<Rightarrow> nat \<Rightarrow> nat \<Rightarrow> byte list \<Rightarrow>
   (int \<times> byte list \<times> bool) option" where
  "rteipc_msg_write os_write data offset calls out =
     (if offset < length data then
        (case os_write calls (drop offset data) of
           Written n \<Rightarrow>
             rteipc_msg_write os_write data (offset + n) (calls + 1)
               (out @ take n (drop offset data))
         | Interrupted \<Rightarrow> rteipc_msg_write os_write data offset (calls + 1) out
         | Write_Failed \<Rightarrow> Some (-1, out, True))
      else Some (0, out, False))"


subsection \<open>The receive loop of every data callback\<close>

text \<open>
  \<open>connect_read_cb\<close>, \<open>loop_on_data\<close>, the \<open>on_data\<close> operations of the device endpoints and
  \<open>iface_trigger\<close> of the daemon all run the same loop: drain a message, stop when there is
  none or on an error, otherwise handle it and go on. The handler gets \<open>len\<close>, the message
  and the state it works on.
\<close>

lemma rteipc_msg_drain_shorter:
  "rteipc_msg_drain M buf = (Drain_Msg n msg, rest) \<Longrightarrow> length rest < length buf"
  by (auto simp: rteipc_msg_drain_def msg_length_def Let_def split: if_splits)

function drain_loop ::
  "(nat \<Rightarrow> bool) \<Rightarrow> (nat \<Rightarrow> byte list \<Rightarrow> 's \<Rightarrow> 's outcome) \<Rightarrow> 's \<Rightarrow> byte list \<Rightarrow>
   ('s \<times> byte list) outcome" where
  "drain_loop M handle s buf =
     (case rteipc_msg_drain M buf of
        (Drain_Empty, buf') \<Rightarrow> Inr (s, buf')
      | (Drain_Error, buf') \<Rightarrow> Inr (s, buf')
      | (Drain_Msg n msg, buf') \<Rightarrow>
          and_then (handle n msg s) (\<lambda>s'. drain_loop M handle s' buf'))"
  by pat_completeness auto
termination
  by (relation "measure (\<lambda>(M, handle, s, buf). length buf)")
    (auto dest: rteipc_msg_drain_shorter [OF sym])

declare drain_loop.simps [simp del]


subsection \<open>Framing and draining are inverse\<close>

lemma take_4_le64: "take 4 (le64 w) = le32 (ucast w)"
  by (simp add: le64_def)

lemma frame_eq: "frame buf = rev (le32 (of_nat (length buf))) @ buf"
proof -
  have "ucast (ucast v :: 64 word) = v" for v :: "32 word"
    by (rule bit_word_eqI) (simp add: bit_simps)
  then show ?thesis by (simp add: frame_def take_4_le64 htonl_bytes)
qed

lemma length_frame [simp]: "length (frame buf) = 4 + length buf"
  by (simp add: frame_eq)

definition sendable :: "byte list \<Rightarrow> bool" where
  "sendable msg \<longleftrightarrow> 0 < length msg \<and> length msg < 2 ^ 32 - 4"

lemma unat_of_length: "length msg < 2 ^ 32 - 4 \<Longrightarrow> unat (of_nat (length msg) :: 32 word) = length msg"
  by (simp add: unat_of_nat)

lemma unat_header: "length msg < 2 ^ 32 - 4 \<Longrightarrow> unat (of_nat (length msg) + 4 :: 32 word) = length msg + 4"
  by (simp add: unat_word_ariths unat_of_nat)

lemma header_of_frame:
  "4 \<le> length bs \<Longrightarrow> take 4 bs = rev (le32 w) \<Longrightarrow> ntohl (of_le32 (take 4 bs)) = w"
  by (metis htonl_bytes htonl_htonl of_le32_le32_Nil)

lemma take_4_frame: "take 4 (frame msg @ rest) = rev (le32 (of_nat (length msg)))"
  by (simp add: frame_eq)

lemma msg_length_frame:
  assumes "length msg < 2 ^ 32 - 4" and "bs = take k (frame msg @ rest)" and "4 \<le> k"
  shows "msg_length bs = (if length bs < length msg + 4 then 0 else of_nat (length msg))"
proof (cases "length bs < 4")
  case True
  with assms show ?thesis by (simp add: msg_length_def)
next
  case False
  have "take 4 bs = rev (le32 (of_nat (length msg)))"
    using assms(2,3) take_4_frame [of msg rest] by (simp add: min_def)
  with False have "ntohl (of_le32 (take 4 bs)) = of_nat (length msg)"
    by (intro header_of_frame) simp_all
  with False assms(1) show ?thesis
    by (simp add: msg_length_def unat_header Let_def)
qed

lemma drain_frame:
  assumes "sendable msg"
  shows "rteipc_msg_drain M (frame msg @ rest) =
    (if M (length msg) then (Drain_Msg (length msg) msg, rest) else (Drain_Error, frame msg @ rest))"
proof -
  have len: "msg_length (frame msg @ rest) = of_nat (length msg)"
    using msg_length_frame [of msg "frame msg @ rest" "length (frame msg @ rest)" rest] assms
    by (simp add: sendable_def)
  have "unat (of_nat (length msg) :: 32 word) = length msg"
    using assms by (simp add: sendable_def unat_of_length)
  moreover from this have "(of_nat (length msg) :: 32 word) \<noteq> 0"
    using assms by (metis sendable_def less_irrefl unat_0)
  moreover have "drop 4 (frame msg @ rest) = msg @ rest"
    by (simp add: frame_eq)
  ultimately show ?thesis
    by (simp add: rteipc_msg_drain_def len Let_def)
qed

lemma drain_partial:
  assumes "sendable msg" and "frame msg = bs @ more" and "more \<noteq> []"
  shows "rteipc_msg_drain M bs = (Drain_Empty, bs)"
proof -
  have "length bs + length more = length msg + 4"
    using arg_cong [OF assms(2), of length] by simp
  with assms(3) have short: "length bs < length msg + 4" by (cases more) auto
  have "msg_length bs = 0"
  proof (cases "length bs < 4")
    case False
    moreover have "bs = take (length bs) (frame msg @ [])" using assms(2) by simp
    ultimately show ?thesis
      using msg_length_frame [of msg bs "length bs" "[]"] assms(1) short
      by (simp add: sendable_def)
  qed (simp add: msg_length_def)
  then show ?thesis by (simp add: rteipc_msg_drain_def)
qed


subsection \<open>The interface: a stream of messages\<close>

text \<open>
  What the receivers rely on: an encoding whose decoder finds the first message in front of
  whatever follows and finds nothing in an incomplete one, and a receive loop that decodes
  and handles until nothing is found. \<open>each\<close> handles a list of messages in turn;
  \<open>feed\<close> is the history of a connection: chunks of bytes arrive one by one and after each
  arrival the callback runs on what the buffer holds.
\<close>

fun each :: "('m \<Rightarrow> 's \<Rightarrow> 's outcome) \<Rightarrow> 'm list \<Rightarrow> 's \<Rightarrow> 's outcome" where
  "each handle [] s = Inr s"
| "each handle (m # ms) s = and_then (handle m s) (each handle ms)"

fun feed ::
  "('s \<Rightarrow> byte list \<Rightarrow> ('s \<times> byte list) outcome) \<Rightarrow> 's \<Rightarrow> byte list \<Rightarrow> byte list list \<Rightarrow>
   ('s \<times> byte list) outcome" where
  "feed run s buf [] = Inr (s, buf)"
| "feed run s buf (c # cs) = and_then (run s (buf @ c)) (\<lambda>(s', buf'). feed run s' buf' cs)"

locale message_stream =
  fixes good :: "'m \<Rightarrow> bool"
    and enc :: "'m \<Rightarrow> byte list"
    and dec :: "byte list \<Rightarrow> ('m \<times> byte list) option"
    and run :: "('m \<Rightarrow> 's \<Rightarrow> 's outcome) \<Rightarrow> 's \<Rightarrow> byte list \<Rightarrow> ('s \<times> byte list) outcome"
  assumes dec_enc: "good m \<Longrightarrow> dec (enc m @ rest) = Some (m, rest)"
    and dec_partial: "good m \<Longrightarrow> enc m = bs @ more \<Longrightarrow> more \<noteq> [] \<Longrightarrow> dec bs = None"
    and dec_Nil: "dec [] = None"
    and run_None: "dec bs = None \<Longrightarrow> run h s bs = Inr (s, bs)"
    and run_Some: "dec bs = Some (m, rest) \<Longrightarrow> run h s bs = and_then (h m s) (\<lambda>s'. run h s' rest)"
begin

lemma run_stream:
  assumes "\<forall>m \<in> set ms. good m" and "dec p = None"
  shows "run h s (concat (map enc ms) @ p) = and_then (each h ms s) (\<lambda>s'. Inr (s', p))"
  using assms
proof (induction ms arbitrary: s)
  case Nil
  then show ?case by (simp add: run_None)
next
  case (Cons m ms)
  have "dec (enc m @ (concat (map enc ms) @ p)) = Some (m, concat (map enc ms) @ p)"
    using Cons.prems by (intro dec_enc) simp
  from run_Some [OF this, of h s] Cons show ?case
    by (cases "h m s") simp_all
qed

text \<open>A prefix of a stream is some whole messages and an incomplete one.\<close>

lemma stream_prefix:
  assumes "\<forall>m \<in> set ms. good m" and "bs @ more = concat (map enc ms)"
  shows "\<exists>ms1 ms2 p. ms = ms1 @ ms2 \<and> bs = concat (map enc ms1) @ p \<and>
           p @ more = concat (map enc ms2) \<and> dec p = None"
  using assms
proof (induction ms arbitrary: bs)
  case Nil
  then have "bs = []" "more = []" by simp_all
  then show ?case using dec_Nil by (intro exI [of _ "[]"]) simp
next
  case (Cons m ms)
  then consider (part) us where "enc m = bs @ us" "us \<noteq> []" "more = us @ concat (map enc ms)"
    | (whole) us where "bs = enc m @ us" "us @ more = concat (map enc ms)"
    by (auto simp: append_eq_append_conv2) (metis append_Nil2 append_Nil)
  then show ?case
  proof cases
    case part
    then have "dec bs = None" using Cons.prems(1) by (auto intro: dec_partial)
    with part show ?thesis
      by (intro exI [of _ "[]"] exI [of _ "m # ms"] exI [of _ bs]) simp
  next
    case whole
    with Cons obtain ms1 ms2 p where "ms = ms1 @ ms2" "us = concat (map enc ms1) @ p"
        "p @ more = concat (map enc ms2)" "dec p = None"
      by (metis list.set_intros(2))
    with whole show ?thesis
      by (intro exI [of _ "m # ms1"] exI [of _ ms2] exI [of _ p]) simp
  qed
qed

lemma stream_undecodable:
  "\<forall>m \<in> set ms. good m \<Longrightarrow> dec (concat (map enc ms)) = None \<Longrightarrow> ms = []"
  by (cases ms) (auto simp: dec_enc)

lemma each_append: "each h (ms1 @ ms2) s = and_then (each h ms1 s) (each h ms2)"
proof (induction ms1 arbitrary: s)
  case (Cons m ms1)
  then show ?case by (cases "h m s") simp_all
qed simp

text \<open>
  A callback has local variables of its own: it runs the loop on them and the shared state
  (\<open>enter\<close>) and drops them when it returns (\<open>leave\<close>). If handling any run of messages in
  one callback amounts to handling them one by one by \<open>g\<close>, so does the whole history.
\<close>

lemma feed_callback_inv:
  assumes "\<forall>r \<in> set rs. P r" and "buf @ concat cs = concat (map (\<lambda>r. enc (f r)) rs)" and "dec buf = None"
    and "I s"
    and good: "\<And>r. P r \<Longrightarrow> good (f r)"
    and cb: "\<And>rs s. \<forall>r \<in> set rs. P r \<Longrightarrow> I s \<Longrightarrow>
      and_then (each h (map f rs) (enter s)) (\<lambda>l. Inr (leave l)) = each g rs s"
    and keep: "\<And>rs s s'. I s \<Longrightarrow> each g rs s = Inr s' \<Longrightarrow> I s'"
  shows "feed (\<lambda>s buf. and_then (run h (enter s) buf) (\<lambda>(l, rest). Inr (leave l, rest))) s buf cs =
    and_then (each g rs s) (\<lambda>s'. Inr (s', []))"
  using assms(1-4)
proof (induction cs arbitrary: rs buf s)
  case Nil
  then have "map f rs = []"
    using stream_undecodable [of "map f rs"] good by (simp add: comp_def)
  with Nil show ?case by simp
next
  case (Cons c cs)
  have good_all: "\<forall>m \<in> set (map f rs). good m" using Cons.prems(1) good by simp
  have "(buf @ c) @ concat cs = concat (map enc (map f rs))"
    using Cons.prems(2) by (simp add: comp_def)
  from stream_prefix [OF good_all this] obtain ms1 ms2 p where
    split: "map f rs = ms1 @ ms2" "buf @ c = concat (map enc ms1) @ p"
      "p @ concat cs = concat (map enc ms2)" "dec p = None" by blast
  then obtain rs1 rs2 where rs: "rs = rs1 @ rs2" "ms1 = map f rs1" "ms2 = map f rs2"
    by (auto simp: map_eq_append_conv)
  have "run h (enter s) (buf @ c) = and_then (each h ms1 (enter s)) (\<lambda>l. Inr (l, p))"
    using good_all split by (simp add: run_stream)
  then have "and_then (run h (enter s) (buf @ c)) (\<lambda>(l, rest). Inr (leave l, rest)) =
      and_then (and_then (each h ms1 (enter s)) (\<lambda>l. Inr (leave l))) (\<lambda>s'. Inr (s', p))"
    by (simp add: and_then_assoc)
  also have "\<dots> = and_then (each g rs1 s) (\<lambda>s'. Inr (s', p))"
    using cb [of rs1 s] Cons.prems(1,4) rs by simp
  finally have first: "and_then (run h (enter s) (buf @ c)) (\<lambda>(l, rest). Inr (leave l, rest)) =
      and_then (each g rs1 s) (\<lambda>s'. Inr (s', p))" .
  have "feed (\<lambda>s buf. and_then (run h (enter s) buf) (\<lambda>(l, rest). Inr (leave l, rest))) s' p cs =
      and_then (each g rs2 s') (\<lambda>s'. Inr (s', []))" if "each g rs1 s = Inr s'" for s'
    using Cons.IH [of rs2 p s'] keep [OF Cons.prems(4) that] Cons.prems(1) split rs
    by (simp add: comp_def)
  with first show ?case
    by (cases "each g rs1 s") (simp_all add: rs(1) each_append and_then_assoc)
qed

lemmas feed_callback = feed_callback_inv [where I = "\<lambda>_. True", OF _ _ _ TrueI _ _ TrueI, simplified]

lemma feed_stream:
  assumes "\<forall>m \<in> set ms. good m" and "buf @ concat cs = concat (map enc ms)" and "dec buf = None"
  shows "feed (run h) s buf cs = and_then (each h ms s) (\<lambda>s'. Inr (s', []))"
proof -
  have "and_then (run h s buf) (\<lambda>(l, rest). Inr (l, rest)) = run h s buf" for s buf
    by (cases "run h s buf") (auto split: prod.splits)
  moreover have "and_then (each h ms s) Inr = each h ms s" for ms s
    by (cases "each h ms s") auto
  ultimately show ?thesis
    using feed_callback [where f = "\<lambda>m. m" and enter = "\<lambda>s. s" and leave = "\<lambda>l. l",
        OF assms(1,2,3), of h h s]
    by simp
qed

end

text \<open>The library's framing implements it, when malloc does.\<close>

abbreviation drained_message :: "byte list \<Rightarrow> (byte list \<times> byte list) option" where
  "drained_message bs \<equiv>
     (case rteipc_msg_drain (\<lambda>_. True) bs of (Drain_Msg n m, rest) \<Rightarrow> Some (m, rest) | _ \<Rightarrow> None)"

interpretation rte: message_stream sendable frame drained_message
    "\<lambda>h. drain_loop (\<lambda>_. True) (\<lambda>_. h)"
proof unfold_locales
  fix m rest bs more s and h :: "byte list \<Rightarrow> 's \<Rightarrow> 's outcome"
  show "drained_message (frame m @ rest) = Some (m, rest)" if "sendable m"
    using that by (simp add: drain_frame)
  show "drained_message bs = None" if "sendable m" "frame m = bs @ more" "more \<noteq> []"
    using drain_partial [OF that] by simp
  show "drained_message [] = None"
    by (simp add: rteipc_msg_drain_def msg_length_def)
  show "drain_loop (\<lambda>_. True) (\<lambda>_. h) s bs = Inr (s, bs)" if "drained_message bs = None"
    using that
    by (subst drain_loop.simps)
      (auto simp: rteipc_msg_drain_def Let_def split: drained.splits prod.splits if_splits)
  show "drain_loop (\<lambda>_. True) (\<lambda>_. h) s bs =
      and_then (h m s) (\<lambda>s'. drain_loop (\<lambda>_. True) (\<lambda>_. h) s' rest)"
    if "drained_message bs = Some (m, rest)"
    using that by (subst drain_loop.simps) (auto split: drained.splits prod.splits)
qed


text \<open>The same with the length the handler is told, which is the length of the message.\<close>

abbreviation drained_sized :: "byte list \<Rightarrow> ((nat \<times> byte list) \<times> byte list) option" where
  "drained_sized bs \<equiv>
     (case rteipc_msg_drain (\<lambda>_. True) bs of (Drain_Msg n m, rest) \<Rightarrow> Some ((n, m), rest) | _ \<Rightarrow> None)"

interpretation sized: message_stream "\<lambda>(n, m). n = length m \<and> sendable m" "\<lambda>(n, m). frame m"
    drained_sized "\<lambda>h. drain_loop (\<lambda>_. True) (\<lambda>n m. h (n, m))"
proof unfold_locales
  fix m :: "nat \<times> byte list" and rest bs more s and h :: "nat \<times> byte list \<Rightarrow> 's \<Rightarrow> 's outcome"
  show "drained_sized ((case m of (n, m) \<Rightarrow> frame m) @ rest) = Some (m, rest)"
    if "case m of (n, m) \<Rightarrow> n = length m \<and> sendable m"
    using that by (auto simp: drain_frame split: prod.splits)
  show "drained_sized bs = None" if "case m of (n, m) \<Rightarrow> n = length m \<and> sendable m"
      "(case m of (n, m) \<Rightarrow> frame m) = bs @ more" "more \<noteq> []"
    using that drain_partial [of "snd m" bs more] by (auto split: prod.splits)
  show "drained_sized [] = None"
    by (simp add: rteipc_msg_drain_def msg_length_def)
  show "drain_loop (\<lambda>_. True) (\<lambda>n m. h (n, m)) s bs = Inr (s, bs)" if "drained_sized bs = None"
    using that
    by (subst drain_loop.simps)
      (auto simp: rteipc_msg_drain_def Let_def split: drained.splits prod.splits if_splits)
  show "drain_loop (\<lambda>_. True) (\<lambda>n m. h (n, m)) s bs =
      and_then (h m s) (\<lambda>s'. drain_loop (\<lambda>_. True) (\<lambda>n m. h (n, m)) s' rest)"
    if "drained_sized bs = Some (m, rest)"
    using that by (subst drain_loop.simps) (auto split: drained.splits prod.splits)
qed

lemma each_lengths: "each (\<lambda>(n, m). h n m) (map (\<lambda>m. (length m, m)) ms) s = each (\<lambda>m. h (length m) m) ms s"
  by (induction ms arbitrary: s) (auto intro: and_then_cong)

text \<open>One run of the loop over complete messages; and a stream of them, however it is cut.\<close>

lemma drain_batch:
  assumes "\<forall>m \<in> set ms. sendable m"
  shows "drain_loop (\<lambda>_. True) h l (concat (map frame ms)) =
    and_then (each (\<lambda>m. h (length m) m) ms l) (\<lambda>l'. Inr (l', []))"
  using sized.run_stream [of "map (\<lambda>m. (length m, m)) ms" "[]" "\<lambda>(n, m). h n m" l] assms sized.dec_Nil
  by (simp add: comp_def each_lengths)

lemma feed_batch:
  assumes "\<forall>m \<in> set ms. sendable m" "concat chunks = concat (map frame ms)"
  shows "feed (drain_loop (\<lambda>_. True) h) s [] chunks =
    and_then (each (\<lambda>m. h (length m) m) ms s) (\<lambda>s'. Inr (s', []))"
  using sized.feed_stream [of "map (\<lambda>m. (length m, m)) ms" "[]" chunks "\<lambda>(n, m). h n m" s] assms sized.dec_Nil
  by (simp add: comp_def each_lengths)

text \<open>What every handler keeps, the loop keeps; and what two callbacks agree on.\<close>

lemma drain_loop_inv:
  assumes "drain_loop M h s buf = Inr (s', rest)" "P s" and "\<And>n m s s'. P s \<Longrightarrow> h n m s = Inr s' \<Longrightarrow> P s'"
  shows "P s'"
  using assms(1,2)
proof (induction "length buf" arbitrary: s buf rule: less_induct)
  case less
  show ?case
  proof (cases "rteipc_msg_drain M buf")
    case (Pair d buf')
    with less.prems show ?thesis
    proof (cases d)
      case (Drain_Msg n m)
      with less.prems Pair obtain s1 where "h n m s = Inr s1" "drain_loop M h s1 buf' = Inr (s', rest)"
        by (auto simp: drain_loop.simps [of M h s buf] and_then_eq_Inr)
      with less.hyps [of buf' s1] rteipc_msg_drain_shorter [OF Pair [unfolded Drain_Msg]] less.prems(2) assms(3)
      show ?thesis by blast
    qed (auto simp: drain_loop.simps [of M h s buf])
  qed
qed

lemma drain_loop_keeps:
  assumes "drain_loop M h s buf = Inr (s', rest)" and "\<And>n m s s'. h n m s = Inr s' \<Longrightarrow> P s' = P s"
  shows "P s' = P s"
  by (rule drain_loop_inv [OF assms(1), where P = "\<lambda>t. P t = P s"]) (use assms(2) in auto)

lemma feed_agree:
  assumes "I s" and "\<And>s b. I s \<Longrightarrow> run s b = run' s b"
    and "\<And>s b s' b'. I s \<Longrightarrow> run' s b = Inr (s', b') \<Longrightarrow> I s'"
  shows "feed run s b cs = feed run' s b cs"
  using assms(1)
proof (induction cs arbitrary: s b)
  case (Cons c cs)
  show ?case
  proof (cases "run' s (b @ c)")
    case (Inr r)
    with Cons assms(2) assms(3) [of s "b @ c" "fst r" "snd r"] show ?thesis
      by (simp add: case_prod_beta)
  qed (use Cons.prems assms(2) in simp)
qed simp


text \<open>
  A callback that does something before the loop (\<open>enter\<close>) and undoes it afterwards (\<open>leave\<close>): it
  might as well do both for every message.
\<close>

lemma feed_bracketed:
  assumes "\<forall>m \<in> set ms. sendable m" "concat chunks = concat (map frame ms)" and "I s"
    and cb: "\<And>s buf. I s \<Longrightarrow> cb s buf = and_then (drain_loop (\<lambda>_. True) h (enter s) buf) (\<lambda>(l, rest). Inr (leave l, rest))"
    and g: "\<And>s m. I s \<Longrightarrow> g m s = and_then (h (length m) m (enter s)) (\<lambda>l. Inr (leave l))"
    and inside: "\<And>s. I s \<Longrightarrow> L (enter s)" "\<And>l n m l'. L l \<Longrightarrow> h n m l = Inr l' \<Longrightarrow> L l'"
    and undo: "\<And>s. I s \<Longrightarrow> leave (enter s) = s" "\<And>l. L l \<Longrightarrow> enter (leave l) = l \<and> I (leave l)"
  shows "feed cb s [] chunks = and_then (each g ms s) (\<lambda>s'. Inr (s', []))"
proof -
  let ?run = "\<lambda>s buf. and_then (drain_loop (\<lambda>_. True) (\<lambda>n m. (\<lambda>(n, m). h n m) (n, m)) (enter s) buf)
      (\<lambda>(l, rest). Inr (leave l, rest))"
  have step: "and_then (each (\<lambda>(n, m). h n m) (map (\<lambda>m. (length m, m)) ms) (enter s)) (\<lambda>l. Inr (leave l)) = each g ms s"
    if "I s" for ms s
    using that
  proof (induction ms arbitrary: s)
    case (Cons m ms)
    show ?case
    proof (cases "h (length m) m (enter s)")
      case (Inr l)
      with inside Cons.prems have "L l" by blast
      with Inr undo(2) [of l] Cons.IH [of "leave l"] g [OF Cons.prems] show ?thesis by simp
    qed (simp add: g [OF Cons.prems])
  qed (simp add: undo)
  have kept: "I s'" if "I s" "each g ms s = Inr s'" for ms s s'
    using that
  proof (induction ms arbitrary: s)
    case (Cons m ms)
    then obtain l where "h (length m) m (enter s) = Inr l" "each g ms (leave l) = Inr s'"
      by (auto simp: g and_then_eq_Inr)
    with Cons.IH [of "leave l"] inside Cons.prems(1) undo(2) show ?case by blast
  qed simp
  have "feed cb s [] chunks = feed ?run s [] chunks"
  proof (rule feed_agree [where I = I])
    show "I s'" if "I s" "?run s buf = Inr (s', rest)" for s buf s' rest
    proof -
      from that(2) obtain l where l: "drain_loop (\<lambda>_. True) h (enter s) buf = Inr (l, rest)" "s' = leave l"
        by (auto simp: and_then_eq_Inr)
      have "L l" by (rule drain_loop_inv [where P = L, OF l(1) inside(1) [OF that(1)]]) (rule inside(2))
      with undo(2) l(2) show ?thesis by simp
    qed
  qed (simp_all add: assms(3) cb)
  also have "\<dots> = and_then (each g ms s) (\<lambda>s'. Inr (s', []))"
    by (rule sized.feed_callback_inv [where f = "\<lambda>m. (length m, m)" and P = sendable and I = I])
      (use assms(1-3) step kept sized.dec_Nil in auto)
  finally show ?thesis .
qed

subsection \<open>What the framing promises\<close>

text \<open>
  C9: however the bytes of a connection are cut into chunks by the transport, the receive loop
  run after each chunk handles exactly the messages that were sent, complete, in order, each
  once, and leaves nothing behind, for messages of 1 to 2^32 - 5 bytes. A handler that
  misbehaves stops the run as it would without the framing.
\<close>

theorem stream_reassembly:
  assumes "\<forall>m \<in> set ms. sendable m" and "concat chunks = concat (map frame ms)"
  shows "feed (drain_loop (\<lambda>_. True) (\<lambda>_. handle)) s [] chunks =
           and_then (each handle ms s) (\<lambda>s'. Inr (s', []))"
  by (rule rte.feed_stream) (use assms rte.dec_Nil in simp_all)

theorem stream_reassembly_witness:
  "feed (drain_loop (\<lambda>_. True) (\<lambda>_ m seen. Inr (seen @ [m]))) []
     [] [[0, 0], [0, 2, 65], [66, 0, 0, 0, 1, 67]] = Inr ([[65, 66], [67]], [])"
proof -
  have "\<forall>m \<in> set [[65, 66], [67 :: byte]]. sendable m"
    by (simp add: sendable_def)
  moreover have "concat [[0, 0], [0, 2, 65], [66, 0, 0, 0, 1, 67]] =
      concat (map frame [[65, 66], [67 :: byte]])"
    by (simp add: frame_eq le32_def)
  ultimately have "feed (drain_loop (\<lambda>_. True) (\<lambda>_ m seen. Inr (seen @ [m]))) []
      [] [[0, 0], [0, 2, 65], [66, 0, 0, 0, 1, 67]] =
      and_then (each (\<lambda>m seen. Inr (seen @ [m])) [[65, 66], [67]] []) (\<lambda>s'. Inr (s', []))"
    by (rule stream_reassembly)
  then show ?thesis by (simp only: each.simps and_then_Inr append.simps)
qed

text \<open>
  An incomplete message is not touched: for every proper prefix of an encoded message,
  \<open>rteipc_msg_drain\<close> reports an empty buffer, whatever malloc would do, and leaves every byte
  in place for the next call.
\<close>

theorem msg_drain_incomplete:
  assumes "sendable msg" and "k < length (frame msg)"
  shows "rteipc_msg_drain M (take k (frame msg)) = (Drain_Empty, take k (frame msg))"
proof (rule drain_partial [OF assms(1)])
  show "frame msg = take k (frame msg) @ drop k (frame msg)" by simp
  show "drop k (frame msg) \<noteq> []" using assms(2) by simp
qed

theorem msg_drain_incomplete_witness:
  "rteipc_msg_drain (\<lambda>n. n < 100) (take 5 (frame [1, 2])) = (Drain_Empty, [0, 0, 0, 2, 1])"
  using msg_drain_incomplete [of "[1, 2]" 5 "\<lambda>n. n < 100"]
  by (simp add: sendable_def frame_eq le32_def)

text \<open>
  A message of length zero blocks its stream. \<open>rteipc_buffer\<close> sends an empty message as
  a bare header; from then on the receive loop handles nothing, whatever was or will be sent
  behind it.
\<close>

theorem empty_message_blocks:
  "drain_loop M handle s (frame [] @ rest) = Inr (s, frame [] @ rest)"
proof -
  have "msg_length (frame [] @ rest) = 0"
    using take_4_frame [of "[]" rest] header_of_frame [of "frame [] @ rest" 0]
    by (simp add: msg_length_def Let_def)
  then show ?thesis
    by (subst drain_loop.simps) (simp add: rteipc_msg_drain_def)
qed

text \<open>
  C26: the length check wraps. A header of 2^32 - 4 or more passes it with nothing but the
  four header bytes in the buffer: the message is announced with that huge size while it holds
  only what was there.
\<close>

theorem msg_length_wraps:
  assumes "2 ^ 32 - 4 \<le> unat w" and "M (unat w)" and "length rest < 2 ^ 32 - 4"
  shows "rteipc_msg_drain M (rev (le32 w) @ rest) = (Drain_Msg (unat w) rest, [])"
proof -
  have head: "ntohl (of_le32 (take 4 (rev (le32 w) @ rest))) = w"
    by (rule header_of_frame) simp_all
  have "unat (w + 4) = (unat w + 4) mod 2 ^ 32"
    by (simp add: unat_word_ariths)
  moreover have "unat w < 2 ^ 32"
    by (rule less_le_trans [OF unsigned_less]) simp
  ultimately have wrap: "unat (w + 4) < 4"
    using assms(1) by (simp add: mod_if split: if_splits)
  then have len: "msg_length (rev (le32 w) @ rest) = w"
    using head by (simp add: msg_length_def Let_def)
  moreover have "w \<noteq> 0" using assms(1) by auto
  ultimately show ?thesis
    using assms by (simp add: rteipc_msg_drain_def Let_def)
qed

theorem msg_length_wraps_witness:
  "rteipc_msg_drain (\<lambda>_. True) ([255, 255, 255, 254] @ [7]) = (Drain_Msg 4294967294 [7], [])"
proof -
  have "rev (le32 0xFFFFFFFE) = [255, 255, 255, 254]"
    by (simp add: le32_def drop_bit_eq_div)
  then show ?thesis
    using msg_length_wraps [of "0xFFFFFFFE" "\<lambda>_. True" "[7]"] by simp
qed


lemma msg_write_loop:
  assumes os: "\<And>k bs n. os_write k bs = Written n \<Longrightarrow> bs \<noteq> [] \<Longrightarrow> 0 < n \<and> n \<le> length bs"
    and retries: "\<And>k bs. os_write k bs = Interrupted \<Longrightarrow> k < B"
  shows "out = take offset data \<Longrightarrow> offset \<le> length data \<Longrightarrow>
    \<exists>k. rteipc_msg_write os_write data offset calls out = Some (0, data, False) \<or>
        k < length data \<and>
        rteipc_msg_write os_write data offset calls out = Some (-1, take k data, True)"
proof (induction "length data - offset + (B - calls)" arbitrary: offset calls out rule: less_induct)
  case less
  show ?case
  proof (cases "offset < length data")
    case False
    with less.prems show ?thesis by (subst (1 2) rteipc_msg_write.simps) simp
  next
    case True
    then have rest: "drop offset data \<noteq> []" by simp
    show ?thesis
    proof (cases "os_write calls (drop offset data)")
      case (Written n)
      with os [OF Written rest] True have n: "0 < n" "offset + n \<le> length data" by auto
      have "out @ take n (drop offset data) = take (offset + n) data"
        by (simp add: less.prems take_add)
      with n less.hyps [of "offset + n" "calls + 1" "take (offset + n) data"]
      show ?thesis
        by (subst (1 2) rteipc_msg_write.simps) (use True Written in auto)
    next
      case Interrupted
      then have "calls < B" by (rule retries)
      with less.hyps [of offset "calls + 1" out] less.prems have
        "\<exists>k. rteipc_msg_write os_write data offset (calls + 1) out = Some (0, data, False) \<or>
           k < length data \<and>
           rteipc_msg_write os_write data offset (calls + 1) out = Some (-1, take k data, True)"
        by auto
      with True Interrupted show ?thesis
        by (subst (1 2) rteipc_msg_write.simps) simp
    next
      case Write_Failed
      with True less.prems show ?thesis
        by (subst (1 2) rteipc_msg_write.simps) auto
    qed
  qed
qed

text \<open>
  C25: where the kernel's \<open>write\<close> takes between one and all of the bytes offered, fails, or is
  interrupted only finitely often, \<open>rteipc_msg_write\<close> ends: either it returns 0 and exactly
  the data has been written, in order, or it returns -1, a proper prefix of the data has been
  written and the descriptor is closed.
\<close>

theorem msg_write_complete:
  assumes "\<And>k bs n. os_write k bs = Written n \<Longrightarrow> bs \<noteq> [] \<Longrightarrow> 0 < n \<and> n \<le> length bs"
    and "\<And>k bs. os_write k bs = Interrupted \<Longrightarrow> k < B"
  shows "\<exists>k. rteipc_msg_write os_write data 0 0 [] = Some (0, data, False) \<or>
             k < length data \<and>
             rteipc_msg_write os_write data 0 0 [] = Some (-1, take k data, True)"
  by (rule msg_write_loop [where B = B]) (use assms in auto)

theorem msg_write_complete_witness:
  "\<exists>k. rteipc_msg_write (\<lambda>k bs. if k < 2 then Interrupted else Written 1) [1, 2, 3] 0 0 [] =
        Some (0, [1, 2, 3], False) \<or>
       k < length [1, 2, 3 :: byte] \<and>
       rteipc_msg_write (\<lambda>k bs. if k < 2 then Interrupted else Written 1) [1, 2, 3] 0 0 [] =
        Some (-1, take k [1, 2, 3], True)"
  by (rule msg_write_complete [where B = 2]) (auto simp: Suc_le_eq split: if_splits)

end
