(* ===== verification/Endpoint.thy ===== *)
theory Endpoint
  imports Ep_Core Message Text
begin

section \<open>What the data callbacks of the endpoints share\<close>

text \<open>
  Writing to the bufferevent of an endpoint, the pointer a receive loop keeps across its
  rounds, and the contract between a data format and the callback that serves it.
\<close>

definition bufferevent_write_buffer ::
  "lev \<Rightarrow> bev \<Rightarrow> byte list \<Rightarrow> ('d, 'z) rte_scheme \<Rightarrow> int \<times> ('d, 'z) rte_scheme" where
  "bufferevent_write_buffer L b bytes st =
     (write_status L (lev_calls st) b bytes, lev_call (Bev_Write b bytes) st)"

text \<open>
  \<open>if (self->bev) rteipc_buffer(self->bev, ...)\<close>, whose status the callbacks ignore.
\<close>

definition answer_to ::
  "lev \<Rightarrow> bev option \<Rightarrow> byte list \<Rightarrow> ('d, 'z) rte_scheme \<Rightarrow> ('d, 'z) rte_scheme" where
  "answer_to L self_bev data st =
     (case self_bev of
        None \<Rightarrow> st
      | Some b \<Rightarrow> snd (rteipc_buffer (bufferevent_write_buffer L b) data st))"

text \<open>A process that has done nothing yet.\<close>

definition idle_rte :: "'d rte" where
  "idle_rte = \<lparr>os_calls = [], base = None, live_bases = {}, base_calls = [], cores = Map.empty,
     next_core = 0, ep_tbl = DTBL_INITIALIZER MAX_NR_EP, lev_calls = []\<rparr>"

text \<open>A local pointer that is NULL, or points to a block that is allocated or was freed.\<close>

datatype local_ptr = Null | Live | Freed

definition free_ptr :: "local_ptr \<Rightarrow> local_ptr outcome" where
  "free_ptr p = (case p of Null \<Rightarrow> Inr Null | Live \<Rightarrow> Inr Freed | Freed \<Rightarrow> Inl Dangling)"

text \<open>
  A \<^emph>\<open>service\<close>: requests, their encoding as the payload of a message, the handler of one
  message in the receive loop of a callback (over the callback's variables, which
  \<open>enter\<close> makes from the shared state and \<open>leave\<close> drops), and what a request is meant to do
  to the shared state. However the requests arrive, they are served one by one, in order.
\<close>

definition serve_callback ::
  "(nat \<Rightarrow> byte list \<Rightarrow> 'l \<Rightarrow> 'l outcome) \<Rightarrow> ('s \<Rightarrow> 'l) \<Rightarrow> ('l \<Rightarrow> 's) \<Rightarrow> 's \<Rightarrow> byte list \<Rightarrow>
   ('s \<times> byte list) outcome" where
  "serve_callback handle enter leave s buf =
     and_then (drain_loop (\<lambda>_. True) handle (enter s) buf) (\<lambda>(l, rest). Inr (leave l, rest))"

locale service =
  fixes good :: "'r \<Rightarrow> bool"
    and enc :: "'r \<Rightarrow> byte list"
    and handle :: "nat \<Rightarrow> byte list \<Rightarrow> 'l \<Rightarrow> 'l outcome"
    and enter :: "'s \<Rightarrow> 'l"
    and leave :: "'l \<Rightarrow> 's"
    and exec :: "'r \<Rightarrow> 's \<Rightarrow> 's outcome"
  assumes enc_sendable: "good r \<Longrightarrow> sendable (enc r)"
    and handles: "\<forall>r \<in> set rs. good r \<Longrightarrow>
      and_then (each (\<lambda>m. handle (length m) m) (map enc rs) (enter s)) (\<lambda>l. Inr (leave l)) =
      each exec rs s"
begin

lemma serves:
  assumes "\<forall>r \<in> set rs. good r" and "concat chunks = concat (map (\<lambda>r. frame (enc r)) rs)"
  shows "feed (serve_callback handle enter leave) s [] chunks =
    and_then (each exec rs s) (\<lambda>s'. Inr (s', []))"
proof -
  have "and_then (each (\<lambda>(n, m). handle n m) (map (\<lambda>r. (length (enc r), enc r)) rs) (enter s))
      (\<lambda>l. Inr (leave l)) = each exec rs s" if "\<forall>r \<in> set rs. good r" for rs s
    using handles [OF that] each_lengths [of handle "map enc rs" "enter s"] by (simp add: comp_def)
  from sized.feed_callback [where f = "\<lambda>r. (length (enc r), enc r)" and P = good, OF assms(1) _ _ _ this,
      of "[]" chunks s] assms(2) sized.dec_Nil enc_sendable
  show ?thesis by (simp add: serve_callback_def [abs_def])
qed

end

end
