(* ===== verification/Ep_I2c.thy ===== *)
theory Ep_I2c
  imports Endpoint Os
begin

section \<open>The I2C endpoint (src/src/ep/ep_i2c.c)\<close>

text \<open>
  The private data is the descriptor of the bus device; \<open>i2c_mem\<close> is the address of the
  structure. \<open>i2c_handle\<close> is the body of the receive loop of \<open>i2c_on_data\<close>: its local
  variable \<open>rx_buf\<close> is declared outside the loop and so keeps its value from one message to
  the next.
\<close>

record i2c_data =
  i2c_mem :: nat
  i2c_fd :: int

abbreviation (input) I2C_M_RD :: "16 word" where "I2C_M_RD \<equiv> 1"
abbreviation (input) I2C_FUNC_I2C :: "64 word" where "I2C_FUNC_I2C \<equiv> 1"

definition i2c_msgs :: "16 word \<Rightarrow> 16 word \<Rightarrow> 16 word \<Rightarrow> byte list \<Rightarrow> i2c_msg list" where
  "i2c_msgs addr wlen rlen tx =
     (let w = \<lparr>i2c_addr = addr, i2c_flags = 0, i2c_len = wlen, i2c_tx = tx\<rparr>;
          r = \<lparr>i2c_addr = addr, i2c_flags = I2C_M_RD, i2c_len = rlen, i2c_tx = []\<rparr>
      in if wlen \<noteq> 0 \<and> rlen \<noteq> 0 then [w, r]
         else if wlen \<noteq> 0 then [w] else [r])"

fun return_rx ::
  "lev \<Rightarrow> bev option \<Rightarrow> (nat \<Rightarrow> byte) \<Rightarrow> i2c_msg list \<Rightarrow> ('d, 'z) rte_scheme \<Rightarrow> ('d, 'z) rte_scheme" where
  "return_rx L self_bev rx [] st = st"
| "return_rx L self_bev rx (m # ms) st =
     return_rx L self_bev rx ms
       (if self_bev \<noteq> None \<and> i2c_flags m AND I2C_M_RD \<noteq> 0
        then answer_to L self_bev (map rx [0..<unat (i2c_len m)]) st else st)"

definition i2c_free_msg :: "local_ptr \<Rightarrow> 's \<Rightarrow> (local_ptr \<times> 's) outcome" where
  "i2c_free_msg rx st = and_then (free_ptr rx) (\<lambda>rx'. Inr (rx', st))"

definition i2c_handle ::
  "(nat \<Rightarrow> bool) \<Rightarrow> os \<Rightarrow> lev \<Rightarrow> i2c_data \<Rightarrow> bev option \<Rightarrow> nat \<Rightarrow> byte list \<Rightarrow>
   local_ptr \<times> ('d, 'z) rte_scheme \<Rightarrow> (local_ptr \<times> ('d, 'z) rte_scheme) outcome" where
  "i2c_handle M E L data self_bev len msg = (\<lambda>(rx_buf, st).
     if len < 6 then i2c_free_msg rx_buf st
     else if length msg < 6 then Inl Uninitialised
     else
       (let addr = of_le16 msg; wlen = of_le16 (drop 2 msg); rlen = of_le16 (drop 4 msg);
            pos = drop 6 msg
        in if (wlen = 0 \<and> rlen = 0) \<or> 6 + unat wlen \<noteq> len then i2c_free_msg rx_buf st
           else if rlen \<noteq> 0 \<and> \<not> M (unat rlen) then i2c_free_msg Null st
           else
             (let rx = (if rlen \<noteq> 0 then Live else rx_buf);
                  msgs = i2c_msgs addr wlen rlen (take (unat wlen) pos);
                  xfer = Sys_Ioctl (i2c_fd data) (I2C_RDWR msgs)
              in case sys (os_int E) xfer st of
                   (r, st1) \<Rightarrow>
                     if r < 0 then i2c_free_msg rx st1
                     else i2c_free_msg rx
                       (return_rx L self_bev (os_byte E (os_calls st) xfer) msgs st1))))"

definition i2c_on_data ::
  "(nat \<Rightarrow> bool) \<Rightarrow> os \<Rightarrow> lev \<Rightarrow> i2c_data \<Rightarrow> bev option \<Rightarrow> ('d, 'z) rte_scheme \<Rightarrow> byte list \<Rightarrow>
   (('d, 'z) rte_scheme \<times> byte list) outcome" where
  "i2c_on_data M E L data self_bev st inp =
     and_then (drain_loop M (i2c_handle M E L data self_bev) (Null, st) inp) (\<lambda>(l, rest).
     Inr (snd l, rest))"

definition init_i2c :: "os \<Rightarrow> string \<Rightarrow> 'z os_state_scheme \<Rightarrow> int \<times> 'z os_state_scheme" where
  "init_i2c E path st =
     (case sys (os_int E) (Sys_Open path) st of
        (fd, st1) \<Rightarrow>
          if fd < 0 then (-1, st1)
          else
            (let get = Sys_Ioctl fd I2C_FUNCS;
                 funcs = of_le64 (map (os_byte E (os_calls st1) get) [0..<8])
             in case sys (os_int E) get st1 of
                  (r, st2) \<Rightarrow>
                    if r < 0 then (-1, note_call (Sys_Close fd) st2)
                    else if funcs AND I2C_FUNC_I2C = 0 then (-1, note_call (Sys_Close fd) st2)
                    else (fd, st2)))"

definition i2c_open ::
  "os \<Rightarrow> string \<Rightarrow> 'z os_state_scheme \<Rightarrow> int \<times> i2c_data option \<times> 'z os_state_scheme" where
  "i2c_open E path st =
     (case sys (os_ptr E) (Malloc 4) st of
        (None, st1) \<Rightarrow> (-1, None, st1)
      | (Some p, st1) \<Rightarrow>
          (case init_i2c E path st1 of
             (fd, st2) \<Rightarrow>
               if fd < 0 then (-1, None, note_call (Free p) st2)
               else (0, Some \<lparr>i2c_mem = p, i2c_fd = fd\<rparr>, st2)))"

definition i2c_close :: "i2c_data \<Rightarrow> 'z os_state_scheme \<Rightarrow> 'z os_state_scheme" where
  "i2c_close data st = note_call (Free (i2c_mem data)) (note_call (Sys_Close (i2c_fd data)) st)"

definition i2c_compatible :: "nat \<Rightarrow> bool" where
  "i2c_compatible = compatible_with COMPAT_IPC"


subsection \<open>Serving requests\<close>

text \<open>
  What a request (slave address, bytes to write, number of bytes to read) means: one transfer
  with a message that writes the bytes, if any, and one that reads, if anything is to be read.
  A request for neither is none.
\<close>

type_synonym i2c_req = "16 word \<times> byte list \<times> 16 word"

fun i2c_request :: "i2c_req \<Rightarrow> byte list" where
  "i2c_request (addr, tx, rlen) = le16 addr @ le16 (of_nat (length tx)) @ le16 rlen @ tx"

definition bus_messages :: "16 word \<Rightarrow> byte list \<Rightarrow> 16 word \<Rightarrow> i2c_msg list" where
  "bus_messages addr tx rlen =
     (if tx = [] then [] else [\<lparr>i2c_addr = addr, i2c_flags = 0, i2c_len = of_nat (length tx), i2c_tx = tx\<rparr>]) @
     (if rlen = 0 then [] else [\<lparr>i2c_addr = addr, i2c_flags = 1, i2c_len = rlen, i2c_tx = []\<rparr>])"

fun i2c_exec ::
  "os \<Rightarrow> lev \<Rightarrow> i2c_data \<Rightarrow> bev option \<Rightarrow> i2c_req \<Rightarrow> ('d, 'z) rte_scheme \<Rightarrow>
   ('d, 'z) rte_scheme outcome" where
  "i2c_exec E L data self_bev (addr, tx, rlen) st =
     (let xfer = Sys_Ioctl (i2c_fd data) (I2C_RDWR (bus_messages addr tx rlen));
          st1 = note_call xfer st;
          rx = map (os_byte E (os_calls st) xfer) [0..<unat rlen]
      in if tx = [] \<and> rlen = 0 then Inr st
         else if os_int E (os_calls st) xfer < 0 \<or> rlen = 0 then Inr st1
         else Inr (answer_to L self_bev rx st1))"

lemma unat_len16: "length tx < 2 ^ 16 \<Longrightarrow> unat (of_nat (length tx) :: 16 word) = length tx"
  by (simp add: unat_of_nat)

lemma len16_0: "length tx < 2 ^ 16 \<Longrightarrow> (of_nat (length tx) :: 16 word) = 0 \<longleftrightarrow> tx = []"
  using unat_len16 [of tx] by (metis length_0_conv unat_eq_zero)

lemma i2c_msgs_meant:
  assumes "length tx < 2 ^ 16" "tx \<noteq> [] \<or> rlen \<noteq> 0"
  shows "i2c_msgs addr (of_nat (length tx)) rlen tx = bus_messages addr tx rlen"
  using assms(2) len16_0 [OF assms(1)] by (auto simp: i2c_msgs_def bus_messages_def Let_def)

lemma i2c_exec_Inr: "\<exists>st'. i2c_exec E L data b r st = Inr st'"
  by (cases r) (simp add: Let_def)

lemma i2c_request_sendable: "length (fst (snd r)) < 2 ^ 16 \<Longrightarrow> sendable (i2c_request r)"
  by (cases r) (simp add: sendable_def)

lemma i2c_request_fields [simp]:
  "of_le16 (i2c_request (addr, tx, rlen)) = addr"
  "of_le16 (drop 2 (i2c_request (addr, tx, rlen))) = of_nat (length tx)"
  "of_le16 (drop 4 (i2c_request (addr, tx, rlen))) = rlen"
  "drop 6 (i2c_request (addr, tx, rlen)) = tx"
  "length (i2c_request (addr, tx, rlen)) = 6 + length tx"
  by simp_all

lemma return_rx_msgs:
  "rlen \<noteq> 0 \<Longrightarrow> return_rx L b rx (i2c_msgs addr wlen rlen tx) st =
     answer_to L b (map rx [0..<unat rlen]) st"
  "rlen = 0 \<Longrightarrow> wlen \<noteq> 0 \<Longrightarrow> return_rx L b rx (i2c_msgs addr wlen rlen tx) st = st"
  by (auto simp: i2c_msgs_def Let_def answer_to_def split: option.splits)

text \<open>
  One request in the loop: a reading request is served whatever \<open>rx_buf\<close> was and leaves it
  dangling; a writing one needs \<open>rx_buf\<close> to be NULL, and otherwise frees the old buffer again.
\<close>

lemma i2c_handle_read:
  assumes "length tx < 2 ^ 16" "rlen \<noteq> 0" "\<And>n. M n"
  shows "i2c_handle M E L data b (6 + length tx) (i2c_request (addr, tx, rlen)) (rx, st) =
    and_then (i2c_exec E L data b (addr, tx, rlen) st) (\<lambda>st'. Inr (Freed, st'))"
  using assms unat_len16 [OF assms(1)] len16_0 [OF assms(1)]
  by (simp add: i2c_handle_def Let_def i2c_free_msg_def free_ptr_def sys_def note_call_def
      return_rx_msgs(1) flip: i2c_msgs_meant del: i2c_request.simps)

lemma i2c_handle_write:
  assumes "length tx < 2 ^ 16"
  shows "i2c_handle M E L data b (6 + length tx) (i2c_request (addr, tx, 0)) (rx, st) =
    and_then (i2c_exec E L data b (addr, tx, 0) st) (i2c_free_msg rx)"
  using assms unat_len16 [OF assms(1)] len16_0 [OF assms(1)]
  by (simp add: i2c_handle_def Let_def sys_def note_call_def return_rx_msgs(2)
      flip: i2c_msgs_meant del: i2c_request.simps)

lemma each_i2c_reads:
  assumes "\<forall>r \<in> set rs. length (fst (snd r)) < 2 ^ 16 \<and> snd (snd r) \<noteq> 0"
  shows "and_then (each (\<lambda>m. i2c_handle (\<lambda>_. True) E L data b (length m) m) (map i2c_request rs) (rx, st))
      (\<lambda>l. Inr (snd l)) = each (i2c_exec E L data b) rs st"
  using assms
proof (induction rs arbitrary: rx st)
  case (Cons r rs)
  obtain addr tx rlen where r: "r = (addr, tx, rlen)" by (cases r)
  with Cons show ?case
    by (cases "i2c_exec E L data b (addr, tx, rlen) st")
      (simp_all add: i2c_handle_read del: i2c_request.simps i2c_exec.simps)
qed simp

lemma each_i2c_writes:
  assumes "\<forall>r \<in> set rs. length (fst (snd r)) < 2 ^ 16 \<and> snd (snd r) = 0"
  shows "and_then (each (\<lambda>m. i2c_handle (\<lambda>_. True) E L data b (length m) m) (map i2c_request rs) (Null, st))
      (\<lambda>l. Inr (snd l)) = each (i2c_exec E L data b) rs st"
  using assms
proof (induction rs arbitrary: st)
  case (Cons r rs)
  obtain addr tx where r: "r = (addr, tx, 0)" using Cons.prems by (cases r) auto
  with Cons show ?case
    by (cases "i2c_exec E L data b (addr, tx, 0) st")
      (simp_all add: i2c_handle_write i2c_free_msg_def free_ptr_def
        del: i2c_request.simps i2c_exec.simps)
qed simp

interpretation i2c_reads: service "\<lambda>r. length (fst (snd r)) < 2 ^ 16 \<and> snd (snd r) \<noteq> 0" i2c_request
    "i2c_handle (\<lambda>_. True) E L data b" "\<lambda>st. (Null, st)" snd "i2c_exec E L data b" for E L data b
  by unfold_locales (use i2c_request_sendable each_i2c_reads in blast)+

interpretation i2c_writes: service "\<lambda>r. length (fst (snd r)) < 2 ^ 16 \<and> snd (snd r) = 0" i2c_request
    "i2c_handle (\<lambda>_. True) E L data b" "\<lambda>st. (Null, st)" snd "i2c_exec E L data b" for E L data b
  by unfold_locales (use i2c_request_sendable each_i2c_writes in blast)+

lemma i2c_on_data_serve:
  "i2c_on_data (\<lambda>_. True) E L data b =
   serve_callback (i2c_handle (\<lambda>_. True) E L data b) (\<lambda>st. (Null, st)) snd"
  by (intro ext) (simp add: i2c_on_data_def serve_callback_def)


subsection \<open>Opening and closing\<close>

fun i2c_res :: "i2c_data \<Rightarrow> resource set" where
  "i2c_res d = {Mem (i2c_mem d), Fd (i2c_fd d)}"

interpretation i2c_dev: device "os_ok E" "\<lambda>st. held E (os_calls st)" "i2c_open E" i2c_close i2c_res
  for E
proof
  fix p d and r :: int and st st' :: "'z os_state_scheme"
  assume sane: "os_ok E"
  note ok = os_okD(1) [OF sane, of "os_calls st" 4] os_okD(2) [OF sane, of "Malloc 4 # os_calls st" p]
  show "i2c_open E p st = (r, None, st') \<Longrightarrow>
      r = -1 \<and> held E (os_calls st') = held E (os_calls st)"
    using ok by (auto simp: i2c_open_def init_i2c_def os_defs Let_def split: option.splits if_splits)
  show "i2c_open E p st = (r, Some d, st') \<Longrightarrow>
      r = 0 \<and> held E (os_calls st') = held E (os_calls st) \<union> i2c_res d \<and>
      i2c_res d \<inter> held E (os_calls st) = {}"
    using ok by (auto simp: i2c_open_def init_i2c_def os_defs Let_def split: option.splits if_splits)
next
  fix d and st :: "'z os_state_scheme"
  show "held E (os_calls (i2c_close d st)) = held E (os_calls st) - i2c_res d"
    by (auto simp: i2c_close_def os_defs)
qed


subsection \<open>What the endpoint promises\<close>

text \<open>
  C27: requests that all read (or all only write) are served as they were meant and in order,
  however the stream is cut into chunks. A request that writes or reads anything makes one bus
  transfer, of one message with its bytes and one to read, as far as it asks for them; a request
  for neither makes none. A reply is sent exactly for a request that reads and whose transfer
  succeeds, with the bytes that the bus delivered; nothing is left in the buffer.
\<close>

theorem i2c_serves:
  assumes "\<forall>r \<in> set rs. length (fst (snd r)) < 2 ^ 16"
    and "(\<forall>r \<in> set rs. snd (snd r) \<noteq> 0) \<or> (\<forall>r \<in> set rs. snd (snd r) = 0)"
    and "concat chunks = concat (map (\<lambda>r. frame (i2c_request r)) rs)"
  shows "feed (i2c_on_data (\<lambda>_. True) E L data b) st [] chunks =
    and_then (each (i2c_exec E L data b) rs st) (\<lambda>st'. Inr (st', []))"
  using assms i2c_reads.serves [of rs chunks E L data b st]
    i2c_writes.serves [of rs chunks E L data b st]
  unfolding i2c_on_data_serve by blast

theorem i2c_serves_witness:
  "\<forall>E L (st :: unit rte).
   feed (i2c_on_data (\<lambda>_. True) E L \<lparr>i2c_mem = 1, i2c_fd = 5\<rparr> (Some 2)) st []
     [[0, 0, 0, 8, 0x50, 0], [2, 0, 4, 0, 0xAB, 0xCD]] =
   and_then (i2c_exec E L \<lparr>i2c_mem = 1, i2c_fd = 5\<rparr> (Some 2) (0x50, [0xAB, 0xCD], 4) st)
     (\<lambda>st'. Inr (st', []))"
proof (intro allI)
  fix E L and st :: "unit rte"
  have "each f [x] st = f x st" for f :: "i2c_req \<Rightarrow> unit rte \<Rightarrow> _" and x
    by (cases "f x st") simp_all
  moreover have "frame (i2c_request (0x50, [0xAB, 0xCD], 4)) =
      [0, 0, 0, 8, 0x50, 0, 2, 0, 4, 0, 0xAB, 0xCD]"
    by (simp add: frame_eq le16_def le32_def)
  ultimately show "feed (i2c_on_data (\<lambda>_. True) E L \<lparr>i2c_mem = 1, i2c_fd = 5\<rparr> (Some 2)) st []
     [[0, 0, 0, 8, 0x50, 0], [2, 0, 4, 0, 0xAB, 0xCD]] =
   and_then (i2c_exec E L \<lparr>i2c_mem = 1, i2c_fd = 5\<rparr> (Some 2) (0x50, [0xAB, 0xCD], 4) st)
     (\<lambda>st'. Inr (st', []))"
    using i2c_serves [of "[(0x50, [0xAB, 0xCD], 4)]" "[[0, 0, 0, 8, 0x50, 0], [2, 0, 4, 0, 0xAB, 0xCD]]"
        E L "\<lparr>i2c_mem = 1, i2c_fd = 5\<rparr>" "Some 2" st]
    by (simp del: i2c_request.simps i2c_exec.simps)
qed

text \<open>What the bus delivers in a transfer that reads.\<close>

definition bus_reply :: "os \<Rightarrow> os_call list \<Rightarrow> os_call \<Rightarrow> 16 word \<Rightarrow> byte list" where
  "bus_reply E h xfer rlen = map (os_byte E h xfer) [0..<unat rlen]"

lemma bus_reply_sendable:
  assumes "rlen \<noteq> 0"
  shows "sendable (bus_reply E h xfer rlen)"
proof -
  have "0 < unat rlen" using assms by (simp add: unat_gt_0)
  moreover have "unat rlen < 2 ^ 16" using unsigned_less [of rlen] by simp
  ultimately show ?thesis by (simp add: sendable_def bus_reply_def)
qed

text \<open>One request to read, cut into whatever chunks: one transfer, and one reply.\<close>

lemma i2c_one_read:
  assumes "length tx < 2 ^ 16" "rlen \<noteq> 0" "concat chunks = frame (i2c_request (addr, tx, rlen))"
    and "xfer = Sys_Ioctl (i2c_fd data) (I2C_RDWR (bus_messages addr tx rlen))"
      "0 \<le> os_int E (os_calls sv) xfer"
  shows "feed (i2c_on_data (\<lambda>_. True) E L data (Some y)) sv [] chunks =
    Inr (lev_call (Bev_Write y (frame (bus_reply E (os_calls sv) xfer rlen))) (note_call xfer sv), [])"
proof -
  have "i2c_exec E L data (Some y) (addr, tx, rlen) sv =
      Inr (lev_call (Bev_Write y (frame (bus_reply E (os_calls sv) xfer rlen))) (note_call xfer sv))"
    using assms by (simp add: Let_def answer_to_def rteipc_buffer_def rteipc_evbuffer_def
        bufferevent_write_buffer_def bus_reply_def)
  then show ?thesis
    using i2c_reads.serves [of "[(addr, tx, rlen)]" chunks E L data "Some y" sv] assms(1-3)
    by (simp add: i2c_on_data_serve del: i2c_request.simps i2c_exec.simps)
qed

text \<open>
  Whether a read followed by a write is served depends on how the stream is cut. Handled
  in two runs of the callback, both transfers are made; handled in one run, the callback frees
  the receive buffer of the first request a second time.
\<close>

theorem i2c_read_then_write:
  fixes addr addr' :: "16 word"
  assumes "length tx < 2 ^ 16" "length tx' < 2 ^ 16" "rlen \<noteq> 0"
  defines "req \<equiv> frame (i2c_request (addr, tx, rlen))"
    and "req' \<equiv> frame (i2c_request (addr', tx', 0))"
  shows "i2c_on_data (\<lambda>_. True) E L data b st (req @ req') = Inl Dangling \<and>
    feed (i2c_on_data (\<lambda>_. True) E L data b) st [] [req, req'] =
      and_then (each (i2c_exec E L data b) [(addr, tx, rlen), (addr', tx', 0)] st)
        (\<lambda>st'. Inr (st', []))"
proof -
  let ?f = "i2c_on_data (\<lambda>_. True) E L data b"
  let ?r = "(addr, tx, rlen)" and ?r' = "(addr', tx', 0 :: 16 word)"
  obtain st1 where r: "i2c_exec E L data b ?r st = Inr st1" using i2c_exec_Inr by blast
  obtain st2 where r': "i2c_exec E L data b ?r' st1 = Inr st2" using i2c_exec_Inr by blast
  have send: "sendable (i2c_request ?r)" "sendable (i2c_request ?r')"
    using assms(1,2) i2c_request_sendable [of ?r] i2c_request_sendable [of ?r'] by simp_all
  note step = i2c_handle_read [OF assms(1,3), of "\<lambda>_. True"] i2c_handle_write [OF assms(2)] r r'
  have "?f st (req @ req') = Inl Dangling"
    using drain_batch [of "[i2c_request ?r, i2c_request ?r']" "i2c_handle (\<lambda>_. True) E L data b" "(Null, st)"] send
    by (simp add: step req_def req'_def i2c_on_data_def i2c_free_msg_def free_ptr_def
        del: i2c_request.simps i2c_exec.simps)
  moreover have "?f st req = Inr (st1, [])"
    using drain_batch [of "[i2c_request ?r]" "i2c_handle (\<lambda>_. True) E L data b" "(Null, st)"] send
    by (simp add: step req_def i2c_on_data_def del: i2c_request.simps i2c_exec.simps)
  moreover have "?f st1 req' = Inr (st2, [])"
    using drain_batch [of "[i2c_request ?r']" "i2c_handle (\<lambda>_. True) E L data b" "(Null, st1)"] send
    by (simp add: step req'_def i2c_on_data_def i2c_free_msg_def free_ptr_def
        del: i2c_request.simps i2c_exec.simps)
  ultimately show ?thesis
    using r r' by (simp del: i2c_request.simps i2c_exec.simps)
qed

theorem i2c_read_then_write_witness:
  "\<forall>E L data b (st :: unit rte). i2c_on_data (\<lambda>_. True) E L data b st
     (frame (i2c_request (0x50, [1], 2)) @ frame (i2c_request (0x50, [1, 7], 0))) = Inl Dangling"
  by (intro allI i2c_read_then_write [THEN conjunct1]) simp_all

text \<open>
  C33: opening and closing I2C endpoints leaks neither memory nor descriptors: whatever the
  system answers, and whatever the order of the calls, once every endpoint that was opened has
  been closed the process holds exactly what it held before. A device without plain I2C
  transfers is refused and its descriptor closed.
\<close>

theorem i2c_no_leak:
  assumes "os_ok E" and "dev_run (i2c_open E) i2c_close ops ([], st) = ([], st')"
  shows "held E (os_calls st') = held E (os_calls st)"
  using i2c_dev.no_leak assms by blast

lemma i2c_open_counting:
  "i2c_open counting_os path st =
     (0, Some \<lparr>i2c_mem = length (os_calls st), i2c_fd = int (length (os_calls st)) + 1\<rparr>,
      st\<lparr>os_calls := Sys_Ioctl (int (length (os_calls st)) + 1) I2C_FUNCS # Sys_Open path # Malloc 4 #
        os_calls st\<rparr>)"
proof -
  have "[0..<8] = [0, 1, 2, 3, 4, 5, 6, 7 :: nat]" by (simp add: upt_rec)
  then have "of_le64 (map (\<lambda>n. word_of_nat (n + 1)) [0..<8]) AND 1 \<noteq> 0"
    by (simp add: of_le64_def)
  then show ?thesis
    by (simp add: i2c_open_def init_i2c_def os_defs Let_def)
qed

theorem i2c_no_leak_witness:
  "\<exists>st'. dev_run (i2c_open counting_os) i2c_close
       [Dev_Open ''/dev/i2c-1'', Dev_Open ''/dev/i2c-2'', Dev_Close 1, Dev_Close 0]
       ([], \<lparr>os_calls = [Sys_Unlink None]\<rparr>) = ([], st') \<and>
     length (os_calls st') = 11 \<and> held counting_os (os_calls st') = {}"
proof -
  obtain st' where run: "dev_run (i2c_open counting_os) i2c_close
      [Dev_Open ''/dev/i2c-1'', Dev_Open ''/dev/i2c-2'', Dev_Close 1, Dev_Close 0]
      ([], \<lparr>os_calls = [Sys_Unlink None]\<rparr>) = ([], st')" and "length (os_calls st') = 11"
    by (simp add: i2c_open_counting i2c_close_def os_defs)
  with i2c_no_leak [OF os_ok_counting run] show ?thesis by simp
qed

end
