(* ===== verification/Ep_Spi.thy ===== *)
theory Ep_Spi
  imports Endpoint Os
begin

section \<open>The SPI endpoint (src/src/ep/ep_spi.c)\<close>

text \<open>
  As for I2C, the receive loop keeps its pointers \<open>rx_buf\<close> and \<open>xfer\<close> from one message to
  the next. Every byte of a request is a transfer of its own.
\<close>

record spi_data =
  spi_mem :: nat
  spi_fd :: int

fun spi_transfer ::
  "os \<Rightarrow> int \<Rightarrow> byte list \<Rightarrow> 'z os_state_scheme \<Rightarrow> byte list option \<times> 'z os_state_scheme" where
  "spi_transfer E fd [] st = (Some [], st)"
| "spi_transfer E fd (b # bs) st =
     (let xfer = Sys_Ioctl fd (SPI_IOC_MESSAGE b)
      in case sys (os_int E) xfer st of
           (r, st1) \<Rightarrow>
             if r < 0 then (None, st1)
             else (case spi_transfer E fd bs st1 of
                     (rx, st2) \<Rightarrow>
                       (map_option (Cons (os_byte E (os_calls st) xfer 0)) rx, st2)))"

definition spi_free_msg ::
  "local_ptr \<Rightarrow> local_ptr \<Rightarrow> 's \<Rightarrow> ((local_ptr \<times> local_ptr) \<times> 's) outcome" where
  "spi_free_msg rx xfer st =
     and_then (free_ptr rx) (\<lambda>rx'. and_then (free_ptr xfer) (\<lambda>xfer'. Inr ((rx', xfer'), st)))"

definition spidev_handle ::
  "(nat \<Rightarrow> bool) \<Rightarrow> os \<Rightarrow> lev \<Rightarrow> spi_data \<Rightarrow> bev option \<Rightarrow> nat \<Rightarrow> byte list \<Rightarrow>
   (local_ptr \<times> local_ptr) \<times> ('d, 'z) rte_scheme \<Rightarrow>
   ((local_ptr \<times> local_ptr) \<times> ('d, 'z) rte_scheme) outcome" where
  "spidev_handle M E L data self_bev len msg = (\<lambda>((rx_buf, xfer), st).
     if len < 3 then spi_free_msg rx_buf xfer st
     else if length msg < 3 then Inl Uninitialised
     else
       (let wlen = of_le16 msg; rdflag = msg ! 2; pos = drop 3 msg
        in if 3 + unat wlen \<noteq> len then spi_free_msg rx_buf xfer st
           else
             (let rx1 = (if M (unat wlen) then Live else Null);
                  xfer1 = (if M (32 * unat wlen) then Live else Null)
              in if rx1 = Null \<or> xfer1 = Null then spi_free_msg rx1 xfer1 st
                 else (case spi_transfer E (spi_fd data) (take (unat wlen) pos) st of
                         (None, st1) \<Rightarrow> spi_free_msg rx1 xfer1 st1
                       | (Some rx, st1) \<Rightarrow>
                           spi_free_msg rx1 xfer1
                             (if self_bev \<noteq> None \<and> rdflag \<noteq> 0 then answer_to L self_bev rx st1
                              else st1)))))"

definition spidev_on_data ::
  "(nat \<Rightarrow> bool) \<Rightarrow> os \<Rightarrow> lev \<Rightarrow> spi_data \<Rightarrow> bev option \<Rightarrow> ('d, 'z) rte_scheme \<Rightarrow> byte list \<Rightarrow>
   (('d, 'z) rte_scheme \<times> byte list) outcome" where
  "spidev_on_data M E L data self_bev st inp =
     and_then (drain_loop M (spidev_handle M E L data self_bev) ((Null, Null), st) inp) (\<lambda>(l, rest).
     Inr (snd l, rest))"

definition init_spidev ::
  "os \<Rightarrow> string \<Rightarrow> int \<Rightarrow> int \<Rightarrow> 'z os_state_scheme \<Rightarrow> int \<times> 'z os_state_scheme" where
  "init_spidev E path speed mode st =
     (case sys (os_int E) (Sys_Open path) st of
        (fd, st1) \<Rightarrow>
          if fd < 0 then (-1, st1)
          else (case sys (os_int E) (Sys_Ioctl fd (SPI_IOC_WR_MODE mode)) st1 of
                  (r, st2) \<Rightarrow>
                    if r < 0 then (-1, note_call (Sys_Close fd) st2)
                    else (case sys (os_int E) (Sys_Ioctl fd (SPI_IOC_WR_MAX_SPEED_HZ speed)) st2 of
                            (r, st3) \<Rightarrow>
                              if r < 0 then (-1, note_call (Sys_Close fd) st3) else (fd, st3))))"

text \<open>\<open>sscanf(path, "%[^,],%d,%d", dev, &speed, &mode)\<close>: the speed has no default.\<close>

definition spi_scan :: "string \<Rightarrow> (string \<times> int option \<times> int) outcome" where
  "spi_scan path =
     (case scan_not '','' path of
        None \<Rightarrow> Inr ([], None, 3)
      | Some (d, s1) \<Rightarrow> and_then (fit 128 d) (\<lambda>dev.
          (case Option.bind (scan_lit '','' s1) scan_d of
             None \<Rightarrow> Inr (dev, None, 3)
           | Some (speed, s2) \<Rightarrow>
               (case Option.bind (scan_lit '','' s2) scan_d of
                  None \<Rightarrow> Inr (dev, Some speed, 3)
                | Some (mode, _) \<Rightarrow> Inr (dev, Some speed, mode)))))"

definition spidev_open ::
  "os \<Rightarrow> string \<Rightarrow> 'z os_state_scheme \<Rightarrow> (int \<times> spi_data option \<times> 'z os_state_scheme) outcome" where
  "spidev_open E path st =
     and_then (spi_scan path) (\<lambda>(dev, speed, mode).
     (case sys (os_ptr E) (Malloc 4) st of
        (None, st1) \<Rightarrow> Inr (-1, None, st1)
      | (Some p, st1) \<Rightarrow>
          (case speed of
             None \<Rightarrow> Inl Uninitialised
           | Some sp \<Rightarrow>
               (case init_spidev E dev sp mode st1 of
                  (fd, st2) \<Rightarrow>
                    if fd < 0 then Inr (-1, None, st2)
                    else Inr (0, Some \<lparr>spi_mem = p, spi_fd = fd\<rparr>, st2)))))"

definition spidev_close :: "spi_data \<Rightarrow> 'z os_state_scheme \<Rightarrow> 'z os_state_scheme" where
  "spidev_close data st = note_call (Free (spi_mem data)) (note_call (Sys_Close (spi_fd data)) st)"

definition spidev_compatible :: "nat \<Rightarrow> bool" where
  "spidev_compatible = compatible_with COMPAT_IPC"


subsection \<open>Serving requests\<close>

type_synonym spi_req = "byte list \<times> bool"

fun spi_request :: "spi_req \<Rightarrow> byte list" where
  "spi_request (tx, rd) = le16 (of_nat (length tx)) @ [if rd then 1 else 0] @ tx"

text \<open>
  What a request means: \<open>spi_log fd tx j h\<close> is the history \<open>h\<close> with a transfer of each of the first
  \<open>j\<close> bytes. The first transfer that fails ends the request; when none does, the device has
  delivered one byte per byte, which are the reply if one was asked for.
\<close>

definition spi_log :: "int \<Rightarrow> byte list \<Rightarrow> nat \<Rightarrow> os_call list \<Rightarrow> os_call list" where
  "spi_log fd tx j h = rev (map (\<lambda>b. Sys_Ioctl fd (SPI_IOC_MESSAGE b)) (take j tx)) @ h"

definition spi_failed :: "os \<Rightarrow> int \<Rightarrow> byte list \<Rightarrow> os_call list \<Rightarrow> nat \<Rightarrow> bool" where
  "spi_failed E fd tx h j \<longleftrightarrow> os_int E (spi_log fd tx j h) (Sys_Ioctl fd (SPI_IOC_MESSAGE (tx ! j))) < 0"

definition spi_received :: "os \<Rightarrow> int \<Rightarrow> byte list \<Rightarrow> os_call list \<Rightarrow> nat \<Rightarrow> byte" where
  "spi_received E fd tx h j = os_byte E (spi_log fd tx j h) (Sys_Ioctl fd (SPI_IOC_MESSAGE (tx ! j))) 0"

fun spi_exec ::
  "os \<Rightarrow> lev \<Rightarrow> spi_data \<Rightarrow> bev option \<Rightarrow> spi_req \<Rightarrow> ('d, 'z) rte_scheme \<Rightarrow>
   ('d, 'z) rte_scheme outcome" where
  "spi_exec E L data self_bev (tx, rd) st =
     (let fd = spi_fd data; h = os_calls st
      in case find (spi_failed E fd tx h) [0..<length tx] of
           Some j \<Rightarrow> Inr (st\<lparr>os_calls := spi_log fd tx (Suc j) h\<rparr>)
         | None \<Rightarrow>
             (let st1 = st\<lparr>os_calls := spi_log fd tx (length tx) h\<rparr>
              in Inr (if rd then answer_to L self_bev (map (spi_received E fd tx h) [0..<length tx]) st1
                      else st1)))"

lemma spi_log_step:
  "spi_log fd tx 0 h = h"
  "spi_log fd (b # bs) (Suc j) h = spi_log fd bs j (Sys_Ioctl fd (SPI_IOC_MESSAGE b) # h)"
  "spi_failed E fd (b # bs) h (Suc j) = spi_failed E fd bs (Sys_Ioctl fd (SPI_IOC_MESSAGE b) # h) j"
  "spi_received E fd (b # bs) h (Suc j) = spi_received E fd bs (Sys_Ioctl fd (SPI_IOC_MESSAGE b) # h) j"
  by (simp_all add: spi_log_def spi_failed_def spi_received_def)

lemma upt_Suc_map: "[0..<Suc n] = 0 # map Suc [0..<n]"
  by (simp add: upt_conv_Cons map_Suc_upt)

lemma find_map: "find P (map f xs) = map_option f (find (P \<circ> f) xs)"
  by (induction xs) simp_all

text \<open>The loop over the bytes makes these transfers.\<close>

lemma spi_transfer_meant:
  "spi_transfer E fd tx st =
     (case find (spi_failed E fd tx (os_calls st)) [0..<length tx] of
        Some j \<Rightarrow> (None, st\<lparr>os_calls := spi_log fd tx (Suc j) (os_calls st)\<rparr>)
      | None \<Rightarrow> (Some (map (spi_received E fd tx (os_calls st)) [0..<length tx]),
          st\<lparr>os_calls := spi_log fd tx (length tx) (os_calls st)\<rparr>))"
proof (induction tx arbitrary: st)
  case Nil
  then show ?case by (simp add: spi_log_def)
next
  case (Cons b bs)
  let ?c = "Sys_Ioctl fd (SPI_IOC_MESSAGE b)"
  have head: "spi_failed E fd (b # bs) h 0 \<longleftrightarrow> os_int E h ?c < 0" "spi_received E fd (b # bs) h 0 = os_byte E h ?c 0"
      "spi_log fd (b # bs) (Suc 0) h = ?c # h" for h
    by (simp_all add: spi_failed_def spi_received_def spi_log_def)
  have comp: "spi_failed E fd (b # bs) h \<circ> Suc = spi_failed E fd bs (?c # h)"
      "spi_received E fd (b # bs) h \<circ> Suc = spi_received E fd bs (?c # h)" for h
    by (simp_all add: fun_eq_iff spi_log_step)
  show ?case
    by (simp add: upt_Suc_map find_map comp head sys_def note_call_def Cons.IH spi_log_step Let_def
        del: upt_Suc split: option.split)
qed

lemma spi_request_sendable: "length (fst r) < 2 ^ 16 \<Longrightarrow> sendable (spi_request r)"
  by (cases r) (simp add: sendable_def)

lemma spi_request_fields [simp]:
  "of_le16 (spi_request (tx, rd)) = of_nat (length tx)"
  "spi_request (tx, rd) ! 2 = (if rd then 1 else 0)"
  "drop 3 (spi_request (tx, rd)) = tx"
  "length (spi_request (tx, rd)) = 3 + length tx"
  by (simp_all add: nth_append)

lemma spi_exec_Inr: "\<exists>st'. spi_exec E L data b r st = Inr st'"
  by (cases r) (simp add: Let_def split: option.split)

lemma answer_to_None [simp]: "answer_to L None rx st = st"
  by (simp add: answer_to_def)

text \<open>A well-formed request is served whatever the pointers were.\<close>

lemma spidev_handle_request:
  assumes "length tx < 2 ^ 16"
  shows "spidev_handle (\<lambda>_. True) E L data b (3 + length tx) (spi_request (tx, rd)) (l, st) =
    and_then (spi_exec E L data b (tx, rd) st) (\<lambda>st'. Inr ((Freed, Freed), st'))"
proof -
  have "unat (of_nat (length tx) :: 16 word) = length tx" using assms by (simp add: unat_of_nat)
  then show ?thesis
    by (cases l) (simp add: spidev_handle_def Let_def spi_free_msg_def free_ptr_def spi_transfer_meant
        del: spi_request.simps split: option.split)
qed

text \<open>One that is too short or whose size is wrong only frees the pointers.\<close>

lemma spidev_handle_malformed:
  assumes "length msg < 3 \<or> 3 + unat (of_le16 msg) \<noteq> length msg"
  shows "spidev_handle M E L data b (length msg) msg ((rx, xfer), st) = spi_free_msg rx xfer st"
  using assms by (auto simp: spidev_handle_def Let_def)

lemma each_spi:
  assumes "\<forall>r \<in> set rs. length (fst r) < 2 ^ 16"
  shows "and_then (each (\<lambda>m. spidev_handle (\<lambda>_. True) E L data b (length m) m) (map spi_request rs) (l, st))
      (\<lambda>l. Inr (snd l)) = each (spi_exec E L data b) rs st"
  using assms
proof (induction rs arbitrary: l st)
  case (Cons r rs)
  obtain tx rd where r: "r = (tx, rd)" by (cases r)
  with Cons show ?case
    by (cases "spi_exec E L data b (tx, rd) st")
      (simp_all add: spidev_handle_request del: spi_request.simps spi_exec.simps)
qed simp

interpretation spi: service "\<lambda>r. length (fst r) < 2 ^ 16" spi_request
    "spidev_handle (\<lambda>_. True) E L data b" "\<lambda>st. ((Null, Null), st)" snd "spi_exec E L data b"
  for E L data b
  by unfold_locales (use spi_request_sendable each_spi in blast)+

lemma spidev_on_data_serve:
  "spidev_on_data (\<lambda>_. True) E L data b =
   serve_callback (spidev_handle (\<lambda>_. True) E L data b) (\<lambda>st. ((Null, Null), st)) snd"
  by (intro ext) (simp add: spidev_on_data_def serve_callback_def)


subsection \<open>What the endpoint promises\<close>

text \<open>
  C28: well-formed SPI requests are served as they were meant and in order, however the stream
  is cut into chunks. Each byte of a request is a transfer of its own, until one fails, which
  ends the request without a reply; when none fails, the reply is one received byte per byte
  sent, and is sent exactly when the request asks for it.
\<close>

theorem spi_serves:
  assumes "\<forall>r \<in> set rs. length (fst r) < 2 ^ 16"
    and "concat chunks = concat (map (\<lambda>r. frame (spi_request r)) rs)"
  shows "feed (spidev_on_data (\<lambda>_. True) E L data b) st [] chunks =
    and_then (each (spi_exec E L data b) rs st) (\<lambda>st'. Inr (st', []))"
  using spi.serves [OF assms] unfolding spidev_on_data_serve .

theorem spi_serves_witness:
  "\<forall>E L data b (st :: unit rte).
     feed (spidev_on_data (\<lambda>_. True) E L data b) st [] [[0, 0, 0], [5, 2, 0, 1, 7, 8]] =
     and_then (spi_exec E L data b ([7, 8], True) st) (\<lambda>st'. Inr (st', []))"
proof (intro allI)
  fix E L data b and st :: "unit rte"
  have "each f [x] st = f x st" for f :: "spi_req \<Rightarrow> unit rte \<Rightarrow> _" and x
    by (cases "f x st") simp_all
  moreover have "frame (spi_request ([7, 8], True)) = [0, 0, 0, 5, 2, 0, 1, 7, 8]"
    by (simp add: frame_eq le16_def le32_def)
  ultimately show "feed (spidev_on_data (\<lambda>_. True) E L data b) st [] [[0, 0, 0], [5, 2, 0, 1, 7, 8]] =
     and_then (spi_exec E L data b ([7, 8], True) st) (\<lambda>st'. Inr (st', []))"
    using spi_serves [of "[([7, 8], True)]" "[[0, 0, 0], [5, 2, 0, 1, 7, 8]]" E L data b st]
    by (simp del: spi_request.simps spi_exec.simps)
qed

text \<open>
  A malformed message that follows a well-formed request in the same run of the callback
  frees the buffers of that request a second time; handled on its own it is ignored.
\<close>

theorem spi_malformed_after_request:
  assumes "length tx < 2 ^ 16" and "sendable junk"
    and "length junk < 3 \<or> 3 + unat (of_le16 junk) \<noteq> length junk"
  shows "spidev_on_data (\<lambda>_. True) E L data b st (frame (spi_request (tx, rd)) @ frame junk) =
      Inl Dangling \<and>
    spidev_on_data (\<lambda>_. True) E L data b st (frame junk) = Inr (st, [])"
proof -
  obtain st1 where r: "spi_exec E L data b (tx, rd) st = Inr st1" using spi_exec_Inr by blast
  note step = spidev_handle_request [OF assms(1)] spidev_handle_malformed [OF assms(3)] r
  have send: "sendable (spi_request (tx, rd))"
    using assms(1) spi_request_sendable [of "(tx, rd)"] by simp
  show ?thesis
    using drain_batch [of "[spi_request (tx, rd), junk]" "spidev_handle (\<lambda>_. True) E L data b"
        "((Null, Null), st)"]
      drain_batch [of "[junk]" "spidev_handle (\<lambda>_. True) E L data b" "((Null, Null), st)"]
      send assms(2)
    by (simp add: step spidev_on_data_def spi_free_msg_def free_ptr_def
        del: spi_request.simps spi_exec.simps)
qed

theorem spi_malformed_after_request_witness:
  "\<forall>E L data b (st :: unit rte).
     spidev_on_data (\<lambda>_. True) E L data b st (frame (spi_request ([1], False)) @ frame [9]) =
     Inl Dangling"
  by (intro allI spi_malformed_after_request [THEN conjunct1]) (simp_all add: sendable_def)

text \<open>
  An SPI endpoint whose device cannot be set up is refused and the descriptor closed, but
  the private data allocated for it is never freed; and a path without a clock speed makes the
  code use an uninitialised variable.
\<close>

theorem spi_open_outcomes:
  assumes "os_ok E" and "spi_scan path = Inr (dev, speed, mode)"
    and "os_ptr E (os_calls st) (Malloc 4) = Some p"
  shows "(case speed of
      None \<Rightarrow> spidev_open E path st = Inl Uninitialised
    | Some sp \<Rightarrow> \<exists>r d st'. spidev_open E path st = Inr (r, d, st') \<and>
        (case d of
           None \<Rightarrow> r = -1 \<and> held E (os_calls st') = held E (os_calls st) \<union> {Mem p}
         | Some data \<Rightarrow> r = 0 \<and> spi_mem data = p \<and>
             held E (os_calls st') = held E (os_calls st) \<union> {Mem p, Fd (spi_fd data)}))"
proof (cases speed)
  case None
  with assms show ?thesis by (simp add: spidev_open_def sys_def)
next
  case (Some sp)
  with assms os_okD(2) [OF assms(1), of "Malloc 4 # os_calls st" dev]
  show ?thesis
    by (auto simp: spidev_open_def init_spidev_def os_defs Let_def)
qed

theorem spi_open_outcomes_witness:
  "spidev_open counting_os ''/dev/spidev0.0'' \<lparr>os_calls = []\<rparr> = Inl Uninitialised"
  using spi_open_outcomes [of counting_os "''/dev/spidev0.0''" "''/dev/spidev0.0''" None 3
      "\<lparr>os_calls = []\<rparr>" 0]
  by (simp add: spi_scan_def scan_not_def Let_def)

end
