(* ===== verification/Ep_Gpio.thy ===== *)
theory Ep_Gpio
  imports Endpoint Os
begin

section \<open>The GPIO endpoint (src/src/ep/ep_gpio.c)\<close>

text \<open>
  The chip and the line are handles of libgpiod. \<open>gpio_ev\<close> is the descriptor whose event was
  added to the loop, for an input line. \<open>gpio_upstream\<close> is the callback of that event.
\<close>

record gpio_data =
  gpio_mem :: nat
  gpio_chip :: nat
  gpio_line :: nat
  gpio_out :: bool
  gpio_ev :: "int option"

definition gpio_event_payload :: "bool \<Rightarrow> 64 word \<Rightarrow> 64 word \<Rightarrow> byte list" where
  "gpio_event_payload rising sec nsec = [if rising then 1 else 0] @ le64 sec @ le64 nsec"

text \<open>
  \<open>gpiod_line_event_read\<close> fills in the event: its type (1 is a rising edge) and its time.
\<close>

definition gpio_upstream ::
  "os \<Rightarrow> lev \<Rightarrow> gpio_data \<Rightarrow> bev option \<Rightarrow> ('d, 'z) rte_scheme \<Rightarrow> ('d, 'z) rte_scheme" where
  "gpio_upstream E L data self_bev st =
     (let get = Line_Event_Read (gpio_line data);
          ev = os_byte E (os_calls st) get;
          payload = gpio_event_payload (ev 0 = 1) (of_le64 (map ev [1..<9])) (of_le64 (map ev [9..<17]))
      in case sys (os_int E) get st of
           (r, st1) \<Rightarrow>
             if r < 0 then
               (case gpio_ev data of None \<Rightarrow> st1 | Some fd \<Rightarrow> note_call (Event_Del fd) st1)
             else (case self_bev of
                     None \<Rightarrow> st1
                   | Some b \<Rightarrow> snd (bufferevent_write_buffer L b (frame payload) st1)))"

definition gpio_handle ::
  "gpio_data \<Rightarrow> nat \<Rightarrow> byte list \<Rightarrow> ('d, 'z) rte_scheme \<Rightarrow> ('d, 'z) rte_scheme outcome" where
  "gpio_handle data len msg st =
     (if \<not> gpio_out data then Inr st
      else if msg = [] then Inl Uninitialised
      else (let v = msg ! 0
            in if len \<noteq> 1 \<or> v > 1 then Inr st
               else Inr (note_call (Line_Set_Value (gpio_line data) v) st)))"

definition gpio_on_data ::
  "(nat \<Rightarrow> bool) \<Rightarrow> gpio_data \<Rightarrow> ('d, 'z) rte_scheme \<Rightarrow> byte list \<Rightarrow>
   (('d, 'z) rte_scheme \<times> byte list) outcome" where
  "gpio_on_data M data st inp = drain_loop M (gpio_handle data) st inp"

text \<open>
  \<open>sscanf(path, "%[^@]@%[^-]-%d,%[^,],%d", consumer, chip_path, &num, dir, &val)\<close>, where
  every variable has a default.
\<close>

record gpio_path =
  gp_consumer :: string
  gp_chip_path :: string
  gp_num :: int
  gp_dir :: string
  gp_val :: int

definition gpio_scan :: "string \<Rightarrow> gpio_path outcome" where
  "gpio_scan path =
     (let g0 = \<lparr>gp_consumer = [], gp_chip_path = [], gp_num = 0, gp_dir = [], gp_val = 0\<rparr>
      in case scan_not ''@'' path of None \<Rightarrow> Inr g0 | Some (c, s1) \<Rightarrow>
         and_then (fit 256 c) (\<lambda>c. let g1 = g0\<lparr>gp_consumer := c\<rparr> in
         case Option.bind (scan_lit ''@'' s1) (scan_not ''-'') of None \<Rightarrow> Inr g1 | Some (p, s2) \<Rightarrow>
         and_then (fit 4096 p) (\<lambda>p. let g2 = g1\<lparr>gp_chip_path := p\<rparr> in
         case Option.bind (scan_lit ''-'' s2) scan_d of None \<Rightarrow> Inr g2 | Some (n, s3) \<Rightarrow>
         let g3 = g2\<lparr>gp_num := n\<rparr> in
         case Option.bind (scan_lit '','' s3) (scan_not '','') of None \<Rightarrow> Inr g3 | Some (d, s4) \<Rightarrow>
         and_then (fit 4 d) (\<lambda>d. let g4 = g3\<lparr>gp_dir := d\<rparr> in
         case Option.bind (scan_lit '','' s4) scan_d of None \<Rightarrow> Inr g4 | Some (v, _) \<Rightarrow>
         Inr (g4\<lparr>gp_val := v\<rparr>)))))"

definition gpio_open_line ::
  "os \<Rightarrow> gpio_path \<Rightarrow> 'z os_state_scheme \<Rightarrow> int \<times> gpio_data option \<times> 'z os_state_scheme" where
  "gpio_open_line E g st =
     (case sys (os_ptr E) (Malloc 32) st of
        (None, st1) \<Rightarrow> (-1, None, st1)
      | (Some p, st1) \<Rightarrow>
          (let free_data = (\<lambda>st. (-1, None, note_call (Free p) st))
           in case sys (os_ptr E) (Chip_Open (gp_chip_path g)) st1 of
                (None, st2) \<Rightarrow> free_data st2
              | (Some chip, st2) \<Rightarrow>
                  (let free_chip = (\<lambda>st. free_data (note_call (Chip_Close chip) st))
                   in case sys (os_ptr E) (Chip_Get_Line chip (gp_num g)) st2 of
                        (None, st3) \<Rightarrow> free_chip st3
                      | (Some line, st3) \<Rightarrow>
                          if map tolower (gp_dir g) = ''out'' then
                            (case sys (os_int E) (Line_Request_Output line (gp_consumer g) (gp_val g)) st3 of
                               (r, st4) \<Rightarrow>
                                 if r < 0 then free_chip st4
                                 else (0, Some \<lparr>gpio_mem = p, gpio_chip = chip, gpio_line = line,
                                                gpio_out = True, gpio_ev = None\<rparr>, st4))
                          else if map tolower (gp_dir g) = ''in'' then
                            (case sys (os_int E) (Line_Request_Events line (gp_consumer g)) st3 of
                               (r, st4) \<Rightarrow>
                                 if r < 0 then free_chip st4
                                 else (case sys (os_int E) (Line_Event_Fd line) st4 of
                                         (fd, st5) \<Rightarrow>
                                           if fd < 0 then free_chip st5
                                           else (0, Some \<lparr>gpio_mem = p, gpio_chip = chip,
                                                          gpio_line = line, gpio_out = False,
                                                          gpio_ev = Some fd\<rparr>,
                                                 note_call (Event_Add fd) st5)))
                          else free_chip st3)))"

definition gpio_open ::
  "os \<Rightarrow> string \<Rightarrow> 'z os_state_scheme \<Rightarrow> (int \<times> gpio_data option \<times> 'z os_state_scheme) outcome" where
  "gpio_open E path st = and_then (gpio_scan path) (\<lambda>g. Inr (gpio_open_line E g st))"

definition gpio_close :: "gpio_data \<Rightarrow> 'z os_state_scheme \<Rightarrow> 'z os_state_scheme" where
  "gpio_close data st =
     (let st1 = (case gpio_ev data of None \<Rightarrow> st | Some fd \<Rightarrow> note_call (Event_Del fd) st)
      in note_call (Free (gpio_mem data)) (note_call (Chip_Close (gpio_chip data)) st1))"

definition gpio_compatible :: "nat \<Rightarrow> bool" where
  "gpio_compatible = compatible_with COMPAT_IPC"


subsection \<open>Serving requests\<close>

text \<open>
  Whatever the payload of a message is, it sets the line exactly when the line is an output
  and the payload is the one byte 0 or 1.
\<close>

fun gpio_exec :: "gpio_data \<Rightarrow> byte list \<Rightarrow> ('d, 'z) rte_scheme \<Rightarrow> ('d, 'z) rte_scheme outcome" where
  "gpio_exec data msg st =
     Inr (if gpio_out data \<and> msg \<in> {[0], [1]}
          then note_call (Line_Set_Value (gpio_line data) (hd msg)) st else st)"

lemma byte_gt_1: "1 < (v :: byte) \<longleftrightarrow> v \<noteq> 0 \<and> v \<noteq> 1"
proof -
  have "v = 0 \<longleftrightarrow> unat v = 0" "v = 1 \<longleftrightarrow> unat v = 1" by (simp_all add: word_unat_eq_iff)
  then show ?thesis by (simp only: word_less_nat_alt unsigned_1) linarith
qed

lemma gpio_handle_payload:
  assumes "sendable msg"
  shows "gpio_handle data (length msg) msg st = gpio_exec data msg st"
proof (cases msg)
  case Nil
  with assms show ?thesis by (simp add: sendable_def)
next
  case (Cons v vs)
  then show ?thesis by (cases vs) (auto simp: gpio_handle_def Let_def byte_gt_1)
qed

interpretation gpio: service sendable "\<lambda>m. m" "gpio_handle data" "\<lambda>st. st" "\<lambda>st. st" "gpio_exec data"
  for data
proof unfold_locales
  fix rs and s :: "('d, 'z) rte_scheme"
  show "and_then (each (\<lambda>m. gpio_handle data (length m) m) (map (\<lambda>m. m) rs) s) (\<lambda>l. Inr l) =
      each (gpio_exec data) rs s" if "\<forall>m \<in> set rs. sendable m"
    using that
  proof (induction rs arbitrary: s)
    case (Cons m rs)
    then show ?case by (simp add: gpio_handle_payload)
  qed simp
qed

lemma gpio_on_data_serve: "gpio_on_data (\<lambda>_. True) data = serve_callback (gpio_handle data) (\<lambda>st. st) (\<lambda>st. st)"
proof (intro ext)
  fix st :: "('a, 'b) rte_scheme" and inp
  show "gpio_on_data (\<lambda>_. True) data st inp = serve_callback (gpio_handle data) (\<lambda>st. st) (\<lambda>st. st) st inp"
    by (cases "drain_loop (\<lambda>_. True) (gpio_handle data) st inp")
      (auto simp: gpio_on_data_def serve_callback_def)
qed


subsection \<open>Opening and closing\<close>

fun gpio_res :: "gpio_data \<Rightarrow> resource set" where
  "gpio_res d = {Mem (gpio_mem d), Chip (gpio_chip d)}"

text \<open>Everything held but the events registered with the loop.\<close>

definition held_handles :: "os \<Rightarrow> os_call list \<Rightarrow> resource set" where
  "held_handles E h = {r \<in> held E h. \<forall>fd. r \<noteq> Event fd}"

lemma held_handles_simps [simp]:
  "held_handles E [] = {}"
  "held_handles E (Event_Add fd # h) = held_handles E h"
  "held_handles E (Event_Del fd # h) = held_handles E h"
  "held_handles E (Malloc n # h) = held_handles E h \<union> Mem ` set_option (os_ptr E h (Malloc n))"
  "held_handles E (Chip_Open s # h) = held_handles E h \<union> Chip ` set_option (os_ptr E h (Chip_Open s))"
  "held_handles E (Free p # h) = held_handles E h - {Mem p}"
  "held_handles E (Chip_Close c # h) = held_handles E h - {Chip c}"
  "held_handles E (Chip_Get_Line c k # h) = held_handles E h"
  "held_handles E (Line_Request_Output l t v # h) = held_handles E h"
  "held_handles E (Line_Request_Events l t # h) = held_handles E h"
  "held_handles E (Line_Event_Fd l # h) = held_handles E h"
  by (auto simp: held_handles_def)

lemma gpio_fresh:
  assumes "os_ok E"
  shows "os_ptr E h (Malloc n) = Some p \<Longrightarrow> Mem p \<notin> held_handles E h"
    and "os_ptr E h (Chip_Open s) = Some p \<Longrightarrow> Chip p \<notin> held_handles E h"
  using os_okD(1,3) [OF assms] by (auto simp: held_handles_def)

interpretation gpio_dev: device "os_ok E" "\<lambda>st. held_handles E (os_calls st)"
    "\<lambda>path st. case gpio_open E path st of Inr r \<Rightarrow> r | Inl e \<Rightarrow> (-1, None, st)" gpio_close gpio_res
  for E
proof
  fix p d and r :: int and st st' :: "'z os_state_scheme"
  let ?open = "case gpio_open E p st of Inr r \<Rightarrow> r | Inl e \<Rightarrow> (-1, None, st)"
  assume sane: "os_ok E"
  note ok = gpio_fresh(1) [OF sane, of "os_calls st" 32]
    gpio_fresh(2) [OF sane, of "Malloc 32 # os_calls st"]
  show "?open = (r, None, st') \<Longrightarrow>
      r = -1 \<and> held_handles E (os_calls st') = held_handles E (os_calls st)"
    using ok by (cases "gpio_scan p")
      (auto simp: gpio_open_def gpio_open_line_def os_defs Let_def split: option.splits if_splits)
  show "?open = (r, Some d, st') \<Longrightarrow>
      r = 0 \<and> held_handles E (os_calls st') = held_handles E (os_calls st) \<union> gpio_res d \<and>
      gpio_res d \<inter> held_handles E (os_calls st) = {}"
    using ok by (cases "gpio_scan p")
      (auto simp: gpio_open_def gpio_open_line_def os_defs Let_def split: option.splits if_splits)
next
  fix d and st :: "'z os_state_scheme"
  show "held_handles E (os_calls (gpio_close d st)) = held_handles E (os_calls st) - gpio_res d"
    by (auto simp: gpio_close_def os_defs split: option.splits)
qed


subsection \<open>What the endpoint promises\<close>

text \<open>
  C29: whatever messages arrive, however cut into chunks, an output line is set exactly by the
  messages that consist of the one byte 0 or 1, in their order; every other message, and every
  message to an input line, changes nothing.
\<close>

theorem gpio_serves:
  assumes "\<forall>m \<in> set ms. sendable m" and "concat chunks = concat (map frame ms)"
  shows "feed (gpio_on_data (\<lambda>_. True) data) st [] chunks =
    Inr (st\<lparr>os_calls := rev (map (\<lambda>m. Line_Set_Value (gpio_line data) (hd m))
           (filter (\<lambda>m. gpio_out data \<and> (m = [0] \<or> m = [1])) ms)) @ os_calls st\<rparr>, [])"
proof -
  have "each (gpio_exec data) ms st = Inr (st\<lparr>os_calls :=
      rev (map (\<lambda>m. Line_Set_Value (gpio_line data) (hd m))
        (filter (\<lambda>m. gpio_out data \<and> (m = [0] \<or> m = [1])) ms)) @ os_calls st\<rparr>)"
    by (induction ms arbitrary: st) (auto simp: note_call_def)
  with gpio.serves [OF assms(1), of chunks data st] assms(2) show ?thesis
    unfolding gpio_on_data_serve by simp
qed

theorem gpio_serves_witness:
  "\<forall>st :: unit rte. feed (gpio_on_data (\<lambda>_. True)
      \<lparr>gpio_mem = 1, gpio_chip = 2, gpio_line = 3, gpio_out = True, gpio_ev = None\<rparr>) st []
      [[0, 0, 0], [1, 1, 0, 0], [0, 2, 1, 1, 0, 0, 0, 1, 2]] =
    Inr (st\<lparr>os_calls := Line_Set_Value 3 1 # os_calls st\<rparr>, [])"
proof
  fix st :: "unit rte"
  show "feed (gpio_on_data (\<lambda>_. True)
      \<lparr>gpio_mem = 1, gpio_chip = 2, gpio_line = 3, gpio_out = True, gpio_ev = None\<rparr>) st []
      [[0, 0, 0], [1, 1, 0, 0], [0, 2, 1, 1, 0, 0, 0, 1, 2]] =
    Inr (st\<lparr>os_calls := Line_Set_Value 3 1 # os_calls st\<rparr>, [])"
    using gpio_serves [of "[[1], [1, 1], [2]]" "[[0, 0, 0], [1, 1, 0, 0], [0, 2, 1, 1, 0, 0, 0, 1, 2]]"
        "\<lparr>gpio_mem = 1, gpio_chip = 2, gpio_line = 3, gpio_out = True, gpio_ev = None\<rparr>" st]
    by (simp add: frame_eq le32_def sendable_def)
qed

text \<open>
  C30: an event of a bound input line reaches the partner as one message of 17 bytes, from
  which the partner's receive loop recovers the edge (1 for rising), the seconds and the
  nanoseconds of the event; an unbound endpoint sends nothing.
\<close>

theorem gpio_event_delivered:
  assumes "0 \<le> os_int E (os_calls st) (Line_Event_Read (gpio_line data))"
  defines "ev \<equiv> os_byte E (os_calls st) (Line_Event_Read (gpio_line data))"
  shows "lev_calls (gpio_upstream E L data None st) = lev_calls st \<and>
    (\<exists>bytes. lev_calls (gpio_upstream E L data (Some b) st) = Bev_Write b bytes # lev_calls st \<and>
       (\<exists>m. rteipc_msg_drain (\<lambda>_. True) bytes = (Drain_Msg 17 m, []) \<and>
          m ! 0 = (if ev 0 = 1 then 1 else 0) \<and>
          of_le64 (drop 1 m) = of_le64 (map ev [1..<9]) \<and>
          of_le64 (drop 9 m) = of_le64 (map ev [9..<17])))"
proof -
  let ?sec = "of_le64 (map ev [1..<9])" and ?nsec = "of_le64 (map ev [9..<17])"
  let ?m = "gpio_event_payload (ev 0 = 1) ?sec ?nsec"
  have m: "?m ! 0 = (if ev 0 = 1 then 1 else 0)" "of_le64 (drop 1 ?m) = ?sec"
      "of_le64 (drop 9 ?m) = ?nsec" "length ?m = 17" "sendable ?m"
    using of_le64_le64 [of ?nsec "[]"]
    by (simp_all add: gpio_event_payload_def sendable_def)
  have "rteipc_msg_drain (\<lambda>_. True) (frame ?m @ []) = (Drain_Msg 17 ?m, [])"
    using drain_frame [OF m(5), of "\<lambda>_. True" "[]"] m(4) by simp
  with m assms(1) show ?thesis
    by (simp add: gpio_upstream_def sys_def Let_def ev_def bufferevent_write_buffer_def
        lev_call_def del: of_le16.simps of_le32.simps)
qed

theorem gpio_event_delivered_witness:
  "\<forall>L. \<exists>bytes m. lev_calls (gpio_upstream counting_os L
      \<lparr>gpio_mem = 1, gpio_chip = 2, gpio_line = 3, gpio_out = False, gpio_ev = Some 9\<rparr> (Some 4)
      \<lparr>os_calls = [], base = None, live_bases = {}, base_calls = [], cores = Map.empty,
       next_core = 0, ep_tbl = DTBL_INITIALIZER MAX_NR_EP, lev_calls = []\<rparr>) = [Bev_Write 4 bytes] \<and>
    rteipc_msg_drain (\<lambda>_. True) bytes = (Drain_Msg 17 m, []) \<and> m ! 0 = 1"
proof
  fix L
  show "\<exists>bytes m. lev_calls (gpio_upstream counting_os L
      \<lparr>gpio_mem = 1, gpio_chip = 2, gpio_line = 3, gpio_out = False, gpio_ev = Some 9\<rparr> (Some 4)
      \<lparr>os_calls = [], base = None, live_bases = {}, base_calls = [], cores = Map.empty,
       next_core = 0, ep_tbl = DTBL_INITIALIZER MAX_NR_EP, lev_calls = []\<rparr>) = [Bev_Write 4 bytes] \<and>
    rteipc_msg_drain (\<lambda>_. True) bytes = (Drain_Msg 17 m, []) \<and> m ! 0 = 1"
    using gpio_event_delivered [of counting_os "\<lparr>os_calls = [], base = None, live_bases = {},
        base_calls = [], cores = Map.empty, next_core = 0, ep_tbl = DTBL_INITIALIZER MAX_NR_EP,
        lev_calls = []\<rparr>" "\<lparr>gpio_mem = 1, gpio_chip = 2, gpio_line = 3, gpio_out = False, gpio_ev = Some 9\<rparr>"
        L 4]
    by auto
qed

end
