(* ===== verification/Ep_Sysfs.thy ===== *)
theory Ep_Sysfs
  imports Endpoint Os
begin

section \<open>The sysfs endpoint (src/src/ep/ep_sysfs.c)\<close>

text \<open>
  The device is a handle of libudev. A message is text: \<open>strndup\<close> copies it up to its length
  or its first NUL. \<open>udev_device_set_sysattr_value\<close> gets the text before the first equals
  sign and a value, NULL when the message ends with the equals sign.
\<close>

record sysfs_data =
  sysfs_mem :: nat
  sysfs_device :: nat

definition PATH_MAX :: nat where "PATH_MAX = 4096"

definition sysfs_handle ::
  "(nat \<Rightarrow> bool) \<Rightarrow> os \<Rightarrow> lev \<Rightarrow> sysfs_data \<Rightarrow> bev option \<Rightarrow> nat \<Rightarrow> byte list \<Rightarrow>
   ('d, 'z) rte_scheme \<Rightarrow> ('d, 'z) rte_scheme outcome" where
  "sysfs_handle M E L data self_bev len msg st =
     (let text = c_string (text_of msg)
      in if length msg < len \<and> NUL \<notin> set (text_of msg) then Inl Uninitialised
         else if \<not> M (length text + 1) then Inl Null_Deref
         else (case split_at CHR ''='' text of
                 Some (attr, v) \<Rightarrow>
                   (let pos = (if len \<le> length attr + 1 then None else Some v)
                    in Inr (snd (sys (os_int E) (Sysattr_Set (sysfs_device data) attr pos) st)))
               | None \<Rightarrow>
                   (case sys (os_data E) (Sysattr_Get (sysfs_device data) text) st of
                      (None, st1) \<Rightarrow> Inr st1
                    | (Some v, st1) \<Rightarrow>
                        (let buf = take (PATH_MAX - 1) (text @ ''='' @ c_string (text_of v))
                         in Inr (answer_to L self_bev (bytes_of buf) st1)))))"

definition sysfs_on_data ::
  "(nat \<Rightarrow> bool) \<Rightarrow> os \<Rightarrow> lev \<Rightarrow> sysfs_data \<Rightarrow> bev option \<Rightarrow> ('d, 'z) rte_scheme \<Rightarrow> byte list \<Rightarrow>
   (('d, 'z) rte_scheme \<times> byte list) outcome" where
  "sysfs_on_data M E L data self_bev st inp =
     drain_loop M (sysfs_handle M E L data self_bev) st inp"

text \<open>
  \<open>sysfs_open\<close> tries the path as a syspath, then, when it has a colon, as a device id, then as
  a subsystem and a name. The \<open>strncpy\<close> leaves no terminator when the path has 4096 characters
  or more.
\<close>

definition sysfs_device_of ::
  "os \<Rightarrow> string \<Rightarrow> 'z os_state_scheme \<Rightarrow> nat option \<times> 'z os_state_scheme" where
  "sysfs_device_of E buf st =
     (case sys (os_ptr E) (Device_From_Syspath buf) st of
        (Some d, st1) \<Rightarrow> (Some d, st1)
      | (None, st1) \<Rightarrow>
          (case split_at CHR '':'' buf of
             None \<Rightarrow> (None, st1)
           | Some (subsystem, sysname) \<Rightarrow>
               (case sys (os_ptr E) (Device_From_Id buf) st1 of
                  (Some d, st2) \<Rightarrow> (Some d, st2)
                | (None, st2) \<Rightarrow> sys (os_ptr E) (Device_From_Subsystem subsystem sysname) st2)))"

definition sysfs_open ::
  "os \<Rightarrow> string \<Rightarrow> 'z os_state_scheme \<Rightarrow> (int \<times> sysfs_data option \<times> 'z os_state_scheme) outcome" where
  "sysfs_open E path st =
     (case sys (os_ptr E) (Malloc 8) st of
        (None, st1) \<Rightarrow> Inr (-1, None, st1)
      | (Some p, st1) \<Rightarrow>
          (case sys (os_ptr E) Udev_New st1 of
             (None, st2) \<Rightarrow> Inr (-1, None, note_call (Free p) st2)
           | (Some udev, st2) \<Rightarrow>
               and_then (read_str (strncpy PATH_MAX path)) (\<lambda>buf.
               (case sysfs_device_of E buf st2 of
                  (Some d, st3) \<Rightarrow> Inr (0, Some \<lparr>sysfs_mem = p, sysfs_device = d\<rparr>, st3)
                | (None, st3) \<Rightarrow>
                    Inr (-1, None, note_call (Free p) (note_call (Udev_Unref udev) st3))))))"

definition sysfs_close :: "sysfs_data \<Rightarrow> 'z os_state_scheme \<Rightarrow> 'z os_state_scheme" where
  "sysfs_close data st =
     note_call (Free (sysfs_mem data)) (note_call (Device_Unref (sysfs_device data)) st)"

definition sysfs_compatible :: "nat \<Rightarrow> bool" where
  "sysfs_compatible = compatible_with COMPAT_IPC"


subsection \<open>Serving requests\<close>

text \<open>An attribute to set (\<open>Some\<close> value, the empty one for NULL) or to read (\<open>None\<close>).\<close>

type_synonym sysfs_req = "string \<times> string option"

fun sysfs_request :: "sysfs_req \<Rightarrow> byte list" where
  "sysfs_request (attr, None) = bytes_of attr"
| "sysfs_request (attr, Some v) = bytes_of (attr @ ''='' @ v)"

fun sysfs_req_ok :: "sysfs_req \<Rightarrow> bool" where
  "sysfs_req_ok (attr, v) \<longleftrightarrow>
     attr \<noteq> [] \<and> NUL \<notin> set attr \<and> CHR ''='' \<notin> set attr \<and>
     (case v of None \<Rightarrow> True | Some w \<Rightarrow> NUL \<notin> set w) \<and> sendable (sysfs_request (attr, v))"

fun sysfs_exec ::
  "os \<Rightarrow> lev \<Rightarrow> sysfs_data \<Rightarrow> bev option \<Rightarrow> sysfs_req \<Rightarrow> ('d, 'z) rte_scheme \<Rightarrow>
   ('d, 'z) rte_scheme outcome" where
  "sysfs_exec E L data self_bev (attr, Some v) st =
     Inr (note_call (Sysattr_Set (sysfs_device data) attr (if v = [] then None else Some v)) st)"
| "sysfs_exec E L data self_bev (attr, None) st =
     (let get = Sysattr_Get (sysfs_device data) attr; st1 = note_call get st
      in case os_data E (os_calls st) get of
           None \<Rightarrow> Inr st1
         | Some v \<Rightarrow>
             Inr (answer_to L self_bev
               (bytes_of (take 4095 (attr @ ''='' @ c_string (text_of v)))) st1))"

lemma sysfs_handle_request:
  assumes "sysfs_req_ok (attr, v)"
  shows "sysfs_handle (\<lambda>_. True) E L data b (length (sysfs_request (attr, v)))
      (sysfs_request (attr, v)) st = sysfs_exec E L data b (attr, v) st"
proof (cases v)
  case None
  with assms have "split_at CHR ''='' attr = None" by (simp add: split_at_None)
  with None assms show ?thesis
    by (simp add: sysfs_handle_def os_defs Let_def PATH_MAX_def split: option.splits)
next
  case (Some w)
  with assms have "split_at CHR ''='' (attr @ CHR ''='' # w) = Some (attr, w)"
    by (simp add: split_at_append)
  with Some assms show ?thesis
    by (simp add: sysfs_handle_def os_defs Let_def)
qed

interpretation sysfs: service sysfs_req_ok sysfs_request "sysfs_handle (\<lambda>_. True) E L data b"
    "\<lambda>st. st" "\<lambda>st. st" "sysfs_exec E L data b" for E L data b
proof unfold_locales
  fix rs and s :: "('d, 'z) rte_scheme"
  show "and_then (each (\<lambda>m. sysfs_handle (\<lambda>_. True) E L data b (length m) m) (map sysfs_request rs) s)
      (\<lambda>l. Inr l) = each (sysfs_exec E L data b) rs s" if "\<forall>r \<in> set rs. sysfs_req_ok r"
    using that
  proof (induction rs arbitrary: s)
    case (Cons r rs)
    obtain attr v where r: "r = (attr, v)" by (cases r)
    with Cons show ?case
      by (cases "sysfs_exec E L data b (attr, v) s")
        (simp_all add: sysfs_handle_request del: sysfs_req_ok.simps)
  qed simp
next
  fix r show "sendable (sysfs_request r)" if "sysfs_req_ok r" using that by (cases r) simp
qed

lemma sysfs_on_data_serve:
  "sysfs_on_data (\<lambda>_. True) E L data b =
   serve_callback (sysfs_handle (\<lambda>_. True) E L data b) (\<lambda>st. st) (\<lambda>st. st)"
proof (intro ext)
  fix st :: "('a, 'b) rte_scheme" and inp
  show "sysfs_on_data (\<lambda>_. True) E L data b st inp =
      serve_callback (sysfs_handle (\<lambda>_. True) E L data b) (\<lambda>st. st) (\<lambda>st. st) st inp"
    by (cases "drain_loop (\<lambda>_. True) (sysfs_handle (\<lambda>_. True) E L data b) st inp")
      (auto simp: sysfs_on_data_def serve_callback_def)
qed


subsection \<open>What the endpoint promises\<close>

text \<open>
  C31: requests to set and to read attributes (with no equals sign or NUL in the name) act on
  the attributes they name, in order, an empty value as NULL, and every successful read is
  answered with the text of name and value, cut after 4095 characters.
\<close>

theorem sysfs_serves:
  assumes "\<forall>r \<in> set rs. sysfs_req_ok r"
    and "concat chunks = concat (map (\<lambda>r. frame (sysfs_request r)) rs)"
  shows "feed (sysfs_on_data (\<lambda>_. True) E L data b) st [] chunks =
    and_then (each (sysfs_exec E L data b) rs st) (\<lambda>st'. Inr (st', []))"
  using sysfs.serves [OF assms] unfolding sysfs_on_data_serve .

theorem sysfs_serves_witness:
  "\<forall>E L b (st :: unit rte).
     feed (sysfs_on_data (\<lambda>_. True) E L \<lparr>sysfs_mem = 1, sysfs_device = 2\<rparr> b) st []
       (map (\<lambda>r. frame (sysfs_request r)) [(''led'', Some ''on''), (''led'', Some [])]) =
     Inr (st\<lparr>os_calls := Sysattr_Set 2 ''led'' None # Sysattr_Set 2 ''led'' (Some ''on'') # os_calls st\<rparr>, [])"
proof (intro allI)
  fix E L b and st :: "unit rte"
  let ?rs = "[(''led'', Some ''on''), (''led'', Some [])]"
  show "feed (sysfs_on_data (\<lambda>_. True) E L \<lparr>sysfs_mem = 1, sysfs_device = 2\<rparr> b) st []
      (map (\<lambda>r. frame (sysfs_request r)) ?rs) =
    Inr (st\<lparr>os_calls := Sysattr_Set 2 ''led'' None # Sysattr_Set 2 ''led'' (Some ''on'') # os_calls st\<rparr>, [])"
    by (subst sysfs_serves [of ?rs]) (simp_all add: sendable_def note_call_def)
qed

text \<open>
  Opening a sysfs endpoint takes a reference to a udev context that closing never gives
  back: after a successful open and the close, the context is still held. A failing open gives
  everything back.
\<close>

theorem sysfs_open_close:
  assumes "os_ok E" and "length path < 4096" and "NUL \<notin> set path"
    and "sysfs_open E path st = Inr (r, d, st')"
  shows "(case d of
      None \<Rightarrow> r = -1 \<and> held E (os_calls st') = held E (os_calls st)
    | Some data \<Rightarrow> r = 0 \<and> (\<exists>udev. Udev udev \<notin> held E (os_calls st) \<and>
        held E (os_calls (sysfs_close data st')) = insert (Udev udev) (held E (os_calls st))))"
proof -
  note ok = os_okD [OF assms(1)]
  from assms(2,3) have "read_str (strncpy PATH_MAX path) = Inr path"
    by (simp add: read_strncpy PATH_MAX_def)
  with assms(4) ok(1) [of "os_calls st" 8] ok(4) [of "Malloc 8 # os_calls st"]
    ok(5) [of "Udev_New # Malloc 8 # os_calls st" path]
    ok(6) [of "Device_From_Syspath path # Udev_New # Malloc 8 # os_calls st" path]
    ok(7) [of "Device_From_Id path # Device_From_Syspath path # Udev_New # Malloc 8 # os_calls st"]
  show ?thesis
    by (auto simp: sysfs_open_def sysfs_close_def sysfs_device_of_def os_defs
        split: option.splits prod.splits)
qed

theorem sysfs_open_close_witness:
  "\<exists>data st'. sysfs_open counting_os ''/sys/class/leds/x'' \<lparr>os_calls = []\<rparr> = Inr (0, Some data, st') \<and>
     (\<exists>udev. held counting_os (os_calls (sysfs_close data st')) = {Udev udev})"
proof -
  obtain data st' where o: "sysfs_open counting_os ''/sys/class/leds/x'' \<lparr>os_calls = []\<rparr> =
      Inr (0, Some data, st')"
    by (simp add: sysfs_open_def sysfs_device_of_def os_defs read_strncpy PATH_MAX_def)
  from sysfs_open_close [OF os_ok_counting _ _ o] obtain udev where
    "held counting_os (os_calls (sysfs_close data st')) = {Udev udev}" by auto
  with o show ?thesis by blast
qed

end
