(* ===== verification/Ep_Loop.thy ===== *)
theory Ep_Loop
  imports Ep_I2c Ep_Spi Ep_Gpio Ep_Sysfs
begin

section \<open>The loopback endpoint (src/src/ep/ep_loop.c)\<close>

text \<open>
  \<open>lo_list\<close> is the list of open loops in the order they were pushed (theory Lists justifies
  the sequence); a loop is known by the address of its structure, which is the endpoint's
  private data. A callback is a number that \<open>call\<close> maps to what it does: it gets the name, the
  message, its length and the registered argument, and may change the state in any way.
  The payload of each transfer helper is an evbuffer: the bytes added to it in order.
\<close>

record loop =
  lo_addr :: nat
  lo_self :: addr
  lo_name :: string
  lo_cb :: "nat option"
  lo_arg :: nat

record 'd lrte = "'d rte" +
  lo_list :: "loop list"

abbreviation (input) MAX_LOOP_NAME :: nat where "MAX_LOOP_NAME \<equiv> 16"

definition lookup_lo :: "string \<Rightarrow> ('d, 'z) lrte_scheme \<Rightarrow> loop option" where
  "lookup_lo name st = find (\<lambda>lo. lo_name lo = name) (lo_list st)"

text \<open>\<open>lo->self->bev\<close>, which the message functions dereference.\<close>

definition lo_bev :: "loop \<Rightarrow> ('d, 'z) lrte_scheme \<Rightarrow> bev outcome" where
  "lo_bev lo st =
     and_then (deref (cores st) (Some (lo_self lo))) (\<lambda>c.
     (case ep_bev c of None \<Rightarrow> Inl Null_Deref | Some b \<Rightarrow> Inr b))"

definition rteipc_xfer ::
  "lev \<Rightarrow> string \<Rightarrow> byte list \<Rightarrow> ('d, 'z) lrte_scheme \<Rightarrow> (int \<times> ('d, 'z) lrte_scheme) outcome" where
  "rteipc_xfer L name data st =
     (case lookup_lo name st of
        None \<Rightarrow> Inr (-1, st)
      | Some lo \<Rightarrow>
          and_then (lo_bev lo st) (\<lambda>b.
          Inr (rteipc_buffer (bufferevent_write_buffer L b) data st)))"

definition rteipc_evxfer ::
  "lev \<Rightarrow> string \<Rightarrow> byte list \<Rightarrow> ('d, 'z) lrte_scheme \<Rightarrow> (int \<times> ('d, 'z) lrte_scheme) outcome" where
  "rteipc_evxfer L name buf st =
     (case lookup_lo name st of
        None \<Rightarrow> Inr (-1, st)
      | Some lo \<Rightarrow>
          and_then (lo_bev lo st) (\<lambda>b.
          Inr (rteipc_evbuffer (bufferevent_write_buffer L b) buf st)))"

definition rteipc_gpio_xfer ::
  "lev \<Rightarrow> string \<Rightarrow> byte \<Rightarrow> ('d, 'z) lrte_scheme \<Rightarrow> (int \<times> ('d, 'z) lrte_scheme) outcome" where
  "rteipc_gpio_xfer L name value st =
     (let v = (if value > 1 then 1 else value) in rteipc_evxfer L name [v] st)"

text \<open>\<open>evbuffer_add(buf, data, n)\<close> for a pointer that may be NULL, when \<open>n\<close> is not 0.\<close>

definition add_data :: "byte list option \<Rightarrow> 16 word \<Rightarrow> byte list outcome" where
  "add_data data n =
     (case data of
        None \<Rightarrow> Inr []
      | Some bs \<Rightarrow>
          if n = 0 then Inr []
          else if length bs < unat n then Inl Out_Of_Bounds
          else Inr (take (unat n) bs))"

definition rteipc_spi_xfer ::
  "lev \<Rightarrow> string \<Rightarrow> byte list option \<Rightarrow> 16 word \<Rightarrow> bool \<Rightarrow> ('d, 'z) lrte_scheme \<Rightarrow>
   (int \<times> ('d, 'z) lrte_scheme) outcome" where
  "rteipc_spi_xfer L name data len rdmode st =
     (let rdflag = (if rdmode then 1 else 0)
      in and_then (add_data data len) (\<lambda>tx.
         rteipc_evxfer L name (le16 len @ [rdflag] @ tx) st))"

definition rteipc_i2c_xfer ::
  "lev \<Rightarrow> string \<Rightarrow> 16 word \<Rightarrow> byte list option \<Rightarrow> 16 word \<Rightarrow> 16 word \<Rightarrow>
   ('d, 'z) lrte_scheme \<Rightarrow> (int \<times> ('d, 'z) lrte_scheme) outcome" where
  "rteipc_i2c_xfer L name addr data wlen rlen st =
     and_then (add_data data wlen) (\<lambda>tx.
     rteipc_evxfer L name (le16 addr @ le16 wlen @ le16 rlen @ tx) st)"

definition rteipc_sysfs_xfer ::
  "lev \<Rightarrow> string \<Rightarrow> string option \<Rightarrow> string option \<Rightarrow> ('d, 'z) lrte_scheme \<Rightarrow>
   (int \<times> ('d, 'z) lrte_scheme) outcome" where
  "rteipc_sysfs_xfer L name attr val st =
     (case attr of
        None \<Rightarrow> Inr (-1, st)
      | Some a \<Rightarrow>
          (let buf = bytes_of a @ (case val of None \<Rightarrow> [] | Some v \<Rightarrow> bytes_of (''='' @ v))
           in rteipc_evxfer L name buf st))"

text \<open>Writing fields of the loop at an address.\<close>

definition set_loop :: "nat \<Rightarrow> (loop \<Rightarrow> loop) \<Rightarrow> ('d, 'z) lrte_scheme \<Rightarrow> ('d, 'z) lrte_scheme" where
  "set_loop a f st =
     st\<lparr>lo_list := map (\<lambda>lo. if lo_addr lo = a then f lo else lo) (lo_list st)\<rparr>"

definition rteipc_xfer_setcb ::
  "string \<Rightarrow> nat option \<Rightarrow> nat \<Rightarrow> ('d, 'z) lrte_scheme \<Rightarrow> int \<times> ('d, 'z) lrte_scheme" where
  "rteipc_xfer_setcb name cb arg st =
     (case lookup_lo name st of
        None \<Rightarrow> (-1, st)
      | Some lo \<Rightarrow> (0, set_loop (lo_addr lo) (\<lambda>l. l\<lparr>lo_cb := cb, lo_arg := arg\<rparr>) st))"

definition find_loop :: "nat \<Rightarrow> ('d, 'z) lrte_scheme \<Rightarrow> loop outcome" where
  "find_loop a st =
     (case find (\<lambda>lo. lo_addr lo = a) (lo_list st) of None \<Rightarrow> Inl Dangling | Some lo \<Rightarrow> Inr lo)"

type_synonym 's lo_call = "nat \<Rightarrow> string \<Rightarrow> byte list \<Rightarrow> nat \<Rightarrow> nat \<Rightarrow> 's \<Rightarrow> 's outcome"

definition loop_handle ::
  "('d, 'z) lrte_scheme lo_call \<Rightarrow> nat \<Rightarrow> nat \<Rightarrow> byte list \<Rightarrow> ('d, 'z) lrte_scheme \<Rightarrow>
   ('d, 'z) lrte_scheme outcome" where
  "loop_handle call lo_p len msg st =
     and_then (find_loop lo_p st) (\<lambda>lo.
     (case lo_cb lo of
        None \<Rightarrow> Inr st
      | Some cb \<Rightarrow> call cb (lo_name lo) msg len (lo_arg lo) st))"

definition loop_on_data ::
  "(nat \<Rightarrow> bool) \<Rightarrow> ('d, 'z) lrte_scheme lo_call \<Rightarrow> nat \<Rightarrow> ('d, 'z) lrte_scheme \<Rightarrow> byte list \<Rightarrow>
   (('d, 'z) lrte_scheme \<times> byte list) outcome" where
  "loop_on_data M call lo_p st inp = drain_loop M (loop_handle call lo_p) st inp"

definition loop_open ::
  "os \<Rightarrow> addr \<Rightarrow> string \<Rightarrow> ('d, 'z) lrte_scheme \<Rightarrow> int \<times> nat option \<times> ('d, 'z) lrte_scheme" where
  "loop_open E self path st =
     (if path = [] then (-1, None, st)
      else if MAX_LOOP_NAME \<le> length path then (-1, None, st)
      else if lookup_lo path st \<noteq> None then (-1, None, st)
      else (case sys (os_ptr E) (Malloc 56) st of
              (None, st1) \<Rightarrow> (-1, None, st1)
            | (Some p, st1) \<Rightarrow>
                (0, Some p, st1\<lparr>lo_list := lo_list st1 @
                  [\<lparr>lo_addr = p, lo_self = self, lo_name = path, lo_cb = None, lo_arg = 0\<rparr>]\<rparr>)))"

definition loop_close :: "nat \<Rightarrow> ('d, 'z) lrte_scheme \<Rightarrow> ('d, 'z) lrte_scheme outcome" where
  "loop_close lo_p st =
     and_then (find_loop lo_p st) (\<lambda>lo.
     Inr (note_call (Free lo_p) (st\<lparr>lo_list := filter (\<lambda>l. lo_addr l \<noteq> lo_p) (lo_list st)\<rparr>)))"

definition loop_compatible :: "nat \<Rightarrow> bool" where
  "loop_compatible = compatible_with COMPAT_ANY"

lemmas loop_defs = lookup_lo_def set_loop_def find_loop_def loop_open_def loop_close_def
  rteipc_xfer_setcb_def os_defs


subsection \<open>The registry of loops\<close>

definition loops_ok :: "os \<Rightarrow> ('d, 'z) lrte_scheme \<Rightarrow> bool" where
  "loops_ok E st \<longleftrightarrow>
     distinct (map lo_name (lo_list st)) \<and> distinct (map lo_addr (lo_list st)) \<and>
     (\<forall>lo \<in> set (lo_list st). 0 < length (lo_name lo) \<and> length (lo_name lo) < 16 \<and>
        Mem (lo_addr lo) \<in> held E (os_calls st))"

lemma find_distinct:
  "distinct (map f xs) \<Longrightarrow> x \<in> set xs \<Longrightarrow> find (\<lambda>y. f y = f x) xs = Some x"
  by (induction xs) auto

lemma find_map_cong:
  "(\<And>x. x \<in> set xs \<Longrightarrow> P (g x) = P x) \<Longrightarrow> find P (map g xs) = map_option g (find P xs)"
  by (induction xs) auto

lemma find_append: "find P (xs @ ys) = (case find P xs of None \<Rightarrow> find P ys | Some x \<Rightarrow> Some x)"
  by (induction xs) auto

lemma lookup_lo_Some:
  "lookup_lo name st = Some lo \<Longrightarrow> lo \<in> set (lo_list st) \<and> lo_name lo = name"
  by (auto simp: lookup_lo_def find_Some_iff)

lemma lookup_lo_None: "lookup_lo name st = None \<longleftrightarrow> name \<notin> lo_name ` set (lo_list st)"
  by (auto simp: lookup_lo_def find_None_iff)

lemma find_filter_other:
  "(\<And>x. x \<in> set xs \<Longrightarrow> P x \<Longrightarrow> Q x) \<Longrightarrow> find P (filter Q xs) = find P xs"
  by (induction xs) auto

text \<open>
  The registry as a partial map from names, and its contract: it is what a client of the
  loopback functions relies on.
\<close>

locale registry =
  fixes sane :: bool
    and ok :: "'st \<Rightarrow> bool"
    and look :: "string \<Rightarrow> 'st \<Rightarrow> 'e option"
    and add :: "'k \<Rightarrow> string \<Rightarrow> 'st \<Rightarrow> int \<times> 'h option \<times> 'st"
    and del :: "'h \<Rightarrow> 'st \<Rightarrow> 'st outcome"
    and handle_of :: "'e \<Rightarrow> 'h"
  assumes add_works: "sane \<Longrightarrow> ok st \<Longrightarrow> add k n st = (r, Some h, st') \<Longrightarrow>
      r = 0 \<and> ok st' \<and> look n st = None \<and> (\<exists>e. look n st' = Some e \<and> handle_of e = h) \<and>
      (\<forall>m. m \<noteq> n \<longrightarrow> look m st' = look m st)"
    and add_fails: "add k n st = (r, None, st') \<Longrightarrow> ok st \<Longrightarrow>
      r = -1 \<and> ok st' \<and> (\<forall>m. look m st' = look m st)"
    and del_works: "ok st \<Longrightarrow> look n st = Some e \<Longrightarrow>
      \<exists>st'. del (handle_of e) st = Inr st' \<and> ok st' \<and> look n st' = None \<and>
        (\<forall>m. m \<noteq> n \<longrightarrow> look m st' = look m st)"
begin

lemma add_del:
  assumes sane "ok st" and "add k n st = (r, Some h, st1)"
  shows "\<exists>st2. del h st1 = Inr st2 \<and> ok st2 \<and> (\<forall>m. look m st2 = look m st)"
proof -
  from add_works [OF assms] obtain e where e: "ok st1" "look n st = None" "look n st1 = Some e"
      "handle_of e = h" "\<And>m. m \<noteq> n \<Longrightarrow> look m st1 = look m st" by blast
  from del_works [OF e(1,3)] e obtain st2 where "del h st1 = Inr st2" "ok st2" "look n st2 = None"
      "\<And>m. m \<noteq> n \<Longrightarrow> look m st2 = look m st1" by auto
  with e show ?thesis by (metis (no_types))
qed

end

lemma loops_okD:
  assumes "loops_ok E st"
  shows "distinct (map lo_name (lo_list st))" "distinct (map lo_addr (lo_list st))"
    and "lo \<in> set (lo_list st) \<Longrightarrow> Mem (lo_addr lo) \<in> held E (os_calls st)"
  using assms by (auto simp: loops_ok_def)

interpretation lo: registry "os_ok E" "loops_ok E" lookup_lo "loop_open E" loop_close lo_addr for E
proof
  fix st st' :: "('d, 'z) lrte_scheme" and k n r h
  assume sane: "os_ok E" and ok: "loops_ok E st" and op: "loop_open E k n st = (r, Some h, st')"
  let ?new = "\<lparr>lo_addr = h, lo_self = k, lo_name = n, lo_cb = None, lo_arg = 0\<rparr>"
  from op have n: "n \<noteq> []" "length n < 16" "lookup_lo n st = None" "r = 0"
    and h: "os_ptr E (os_calls st) (Malloc 56) = Some h"
    and st': "st' = (snd (sys (os_ptr E) (Malloc 56) st))\<lparr>lo_list := lo_list st @ [?new]\<rparr>"
    by (auto simp: loop_open_def sys_def split: if_splits option.splits)
  have fresh: "Mem h \<notin> held E (os_calls st)" using os_okD(1) [OF sane h] .
  then have "h \<notin> lo_addr ` set (lo_list st)" using loops_okD(3) [OF ok] by auto
  with ok n h fresh have "loops_ok E st'"
    by (auto simp: loops_ok_def st' sys_def lookup_lo_None)
  moreover have "lookup_lo n st' = Some ?new"
    using n(3) by (simp add: lookup_lo_def st' sys_def find_append)
  moreover have "lookup_lo m st' = lookup_lo m st" if "m \<noteq> n" for m
    using that by (auto simp: lookup_lo_def st' sys_def find_append split: option.splits)
  ultimately show "r = 0 \<and> loops_ok E st' \<and> lookup_lo n st = None \<and>
      (\<exists>e. lookup_lo n st' = Some e \<and> lo_addr e = h) \<and>
      (\<forall>m. m \<noteq> n \<longrightarrow> lookup_lo m st' = lookup_lo m st)"
    using n(3,4) by auto
next
  fix st st' :: "('d, 'z) lrte_scheme" and k n r
  assume "loop_open E k n st = (r, None, st')" "loops_ok E st"
  then show "r = -1 \<and> loops_ok E st' \<and> (\<forall>m. lookup_lo m st' = lookup_lo m st)"
    by (auto simp: loop_open_def sys_def loops_ok_def lookup_lo_def split: if_splits option.splits)
next
  fix st :: "('d, 'z) lrte_scheme" and n e
  assume ok: "loops_ok E st" and look: "lookup_lo n st = Some e"
  note e = lookup_lo_Some [OF look]
  have same: "lo = e" if "lo \<in> set (lo_list st)" "lo_name lo = n \<or> lo_addr lo = lo_addr e" for lo
    using that e loops_okD(1,2) [OF ok] by (auto simp: distinct_map dest: inj_onD)
  let ?ls = "filter (\<lambda>l. lo_addr l \<noteq> lo_addr e) (lo_list st)"
  let ?st' = "note_call (Free (lo_addr e)) (st\<lparr>lo_list := ?ls\<rparr>)"
  have "loop_close (lo_addr e) st = Inr ?st'"
    using find_distinct [OF loops_okD(2) [OF ok], of e] e
    by (simp add: loop_close_def find_loop_def)
  moreover have "loops_ok E ?st'"
    using ok by (auto simp: loops_ok_def note_call_def distinct_map inj_on_def)
  moreover have "lookup_lo n ?st' = None"
    using same by (auto simp: lookup_lo_None note_call_def)
  moreover have "lookup_lo m ?st' = lookup_lo m st" if "m \<noteq> n" for m
    using that same e by (auto simp: lookup_lo_def note_call_def intro!: find_filter_other)
  ultimately show "\<exists>st'. loop_close (lo_addr e) st = Inr st' \<and> loops_ok E st' \<and>
      lookup_lo n st' = None \<and> (\<forall>m. m \<noteq> n \<longrightarrow> lookup_lo m st' = lookup_lo m st)"
    by blast
qed


subsection \<open>What the endpoint promises\<close>

text \<open>
  C34: the names of the open loops are unique. Opening a loop either fails and changes no name,
  or makes exactly the new name resolve, to the loop that was opened; closing this loop brings
  every name back to what it was.
\<close>

theorem loop_open_close:
  assumes "os_ok E" and "loops_ok E st" and "loop_open E self path st = (r, d, st')"
  shows "loops_ok E st' \<and>
    (case d of
       None \<Rightarrow> r = -1 \<and> (\<forall>m. lookup_lo m st' = lookup_lo m st)
     | Some p \<Rightarrow> r = 0 \<and> lookup_lo path st = None \<and>
         (\<exists>lo. lookup_lo path st' = Some lo \<and> lo_addr lo = p) \<and>
         (\<forall>m. m \<noteq> path \<longrightarrow> lookup_lo m st' = lookup_lo m st) \<and>
         (\<exists>st2. loop_close p st' = Inr st2 \<and> loops_ok E st2 \<and>
            (\<forall>m. lookup_lo m st2 = lookup_lo m st)))"
proof (cases d)
  case None
  with lo.add_fails assms(2,3) show ?thesis by simp blast
next
  case (Some p)
  from lo.add_works [OF assms(1,2)] lo.add_del [OF assms(1,2)] assms(3) Some
  show ?thesis by simp
qed

text \<open>What the transfer helpers hand to libevent.\<close>

lemma lookup_bev:
  assumes "lookup_lo name st = Some lo" "cores st (lo_self lo) = Some c" "ep_bev c = Some b"
  shows "rteipc_evxfer L name buf st =
      Inr (bufferevent_write_buffer L b (frame buf) st)"
    and "rteipc_xfer L name buf st = Inr (bufferevent_write_buffer L b (frame buf) st)"
  using assms
  by (simp_all add: rteipc_evxfer_def rteipc_xfer_def lo_bev_def rteipc_evbuffer_def rteipc_buffer_def)

lemma add_data_whole:
  "length tx < 2 ^ 16 \<Longrightarrow> add_data (Some tx) (of_nat (length tx)) = Inr tx"
  using unat_len16 [of tx] len16_0 [of tx] by (simp add: add_data_def)

text \<open>
  The transfer helpers of the loopback endpoint write one message in the format that the
  endpoint of the device reads: what \<open>rteipc_i2c_xfer\<close>, \<open>rteipc_spi_xfer\<close>, \<open>rteipc_gpio_xfer\<close>
  and \<open>rteipc_sysfs_xfer\<close> send to the endpoint bound to the loop is the framed request of the
  respective endpoint with the arguments of the call, a GPIO value above 1 counting as 1.
\<close>

theorem xfer_requests:
  assumes "lookup_lo name st = Some lo" "cores st (lo_self lo) = Some c" "ep_bev c = Some b"
    and "length tx < 2 ^ 16"
  shows "rteipc_i2c_xfer L name addr (Some tx) (of_nat (length tx)) rlen st =
      Inr (bufferevent_write_buffer L b (frame (i2c_request (addr, tx, rlen))) st) \<and>
    rteipc_spi_xfer L name (Some tx) (of_nat (length tx)) rd st =
      Inr (bufferevent_write_buffer L b (frame (spi_request (tx, rd))) st) \<and>
    rteipc_gpio_xfer L name v st =
      Inr (bufferevent_write_buffer L b (frame (if v = 0 then [0] else [1])) st) \<and>
    rteipc_sysfs_xfer L name (Some a) w st =
      Inr (bufferevent_write_buffer L b (frame (sysfs_request (a, w))) st)"
proof -
  have "(if v > 1 then 1 else v) = (if v = 0 then 0 else 1)"
    by (auto simp: byte_gt_1)
  moreover have "bytes_of (x @ y) = bytes_of x @ bytes_of y" for x y by (simp add: bytes_of_def)
  ultimately show ?thesis
    using add_data_whole [OF assms(4)] lookup_bev(1) [OF assms(1-3)]
    by (auto simp: rteipc_i2c_xfer_def rteipc_spi_xfer_def rteipc_gpio_xfer_def
        rteipc_sysfs_xfer_def Let_def split: option.splits)
qed

text \<open>
  A transfer to a loop that exists but whose endpoint is not bound (never bound, or unbound
  again) dereferences its NULL bufferevent instead of reporting an error, while a transfer to
  an unknown name reports one.
\<close>

theorem xfer_unbound:
  assumes "lookup_lo name st = Some lo" "cores st (lo_self lo) = Some c" "ep_bev c = None"
    and "lookup_lo other st = None"
  shows "rteipc_xfer L name buf st = Inl Null_Deref \<and>
    rteipc_gpio_xfer L name v st = Inl Null_Deref \<and>
    rteipc_xfer L other buf st = Inr (-1, st)"
  using assms by (simp add: rteipc_xfer_def rteipc_gpio_xfer_def rteipc_evxfer_def lo_bev_def Let_def)

text \<open>The receive loop of a loop endpoint on one whole message, however it is cut.\<close>

lemma loop_receives:
  assumes "sendable msg" "concat chunks = frame msg" "find_loop p st = Inr lo" "lo_cb lo = Some cb"
  shows "feed (loop_on_data (\<lambda>_. True) call p) st [] chunks =
    and_then (call cb (lo_name lo) msg (length msg) (lo_arg lo) st) (\<lambda>st'. Inr (st', []))"
proof -
  have "loop_on_data (\<lambda>_. True) call p = drain_loop (\<lambda>_. True) (loop_handle call p)"
    by (intro ext) (simp add: loop_on_data_def)
  with feed_batch [of "[msg]" chunks "loop_handle call p" st] assms show ?thesis
    by (cases "call cb (lo_name lo) msg (length msg) (lo_arg lo) st") (simp_all add: loop_handle_def)
qed

text \<open>
  An I2C transfer over a loopback endpoint works end to end. The bytes that
  \<open>rteipc_i2c_xfer\<close> gives to libevent, delivered in any chunks to the I2C endpoint, make exactly
  the bus transfer that was asked for; when it succeeds, the endpoint writes a reply, and this
  reply, delivered in any chunks to the loop, makes it call the registered callback once, with
  the name of the loop, exactly the bytes that the bus delivered, and their number.
\<close>

theorem i2c_over_loopback:
  fixes st :: "('d, 'z) lrte_scheme"
  assumes ok: "loops_ok E st" and lo: "lookup_lo name st = Some lo" "lo_cb lo = Some cb"
    and core: "cores st (lo_self lo) = Some c" "ep_bev c = Some x"
    and req: "length tx < 2 ^ 16" "rlen \<noteq> 0"
    and bus: "xfer = Sys_Ioctl (i2c_fd data) (I2C_RDWR (bus_messages addr tx rlen))"
      "0 \<le> os_int E (os_calls st) xfer"
  shows "\<exists>r st1 bytes. rteipc_i2c_xfer L name addr (Some tx) (of_nat (length tx)) rlen st = Inr (r, st1) \<and>
    lev_calls st1 = Bev_Write x bytes # lev_calls st \<and>
    (\<forall>chunks. concat chunks = bytes \<longrightarrow>
       (\<exists>st2 reply. feed (i2c_on_data (\<lambda>_. True) E L data (Some y)) st1 [] chunks = Inr (st2, []) \<and>
          os_calls st2 = xfer # os_calls st \<and> lev_calls st2 = Bev_Write y reply # lev_calls st1 \<and>
          (\<forall>chunks'. concat chunks' = reply \<longrightarrow>
             feed (loop_on_data (\<lambda>_. True) call (lo_addr lo)) st2 [] chunks' =
             and_then (call cb name (map (os_byte E (os_calls st) xfer) [0..<unat rlen]) (unat rlen)
                         (lo_arg lo) st2) (\<lambda>st3. Inr (st3, [])))))"
proof -
  let ?req = "(addr, tx, rlen)"
  let ?rx = "map (os_byte E (os_calls st) xfer) [0..<unat rlen]"
  define st1 where "st1 = lev_call (Bev_Write x (frame (i2c_request ?req))) st"
  define st2 where "st2 = lev_call (Bev_Write y (frame ?rx)) (note_call xfer st1)"
  have send: "rteipc_i2c_xfer L name addr (Some tx) (of_nat (length tx)) rlen st =
      Inr (write_status L (lev_calls st) x (frame (i2c_request ?req)), st1)"
    using xfer_requests [OF lo(1) core req(1)] by (simp add: bufferevent_write_buffer_def st1_def)
  have "i2c_exec E L data (Some y) ?req st1 = Inr st2"
    using bus req by (simp add: Let_def answer_to_def rteipc_buffer_def rteipc_evbuffer_def
        bufferevent_write_buffer_def st2_def st1_def lev_call_def note_call_def)
  then have serve: "feed (i2c_on_data (\<lambda>_. True) E L data (Some y)) st1 [] chunks = Inr (st2, [])"
    if "concat chunks = frame (i2c_request ?req)" for chunks
    using i2c_reads.serves [of "[?req]" chunks E L data "Some y" st1] that req
    by (simp add: i2c_on_data_serve del: i2c_request.simps i2c_exec.simps)
  have "lo \<in> set (lo_list st)" "lo_name lo = name" using lookup_lo_Some [OF lo(1)] by simp_all
  then have found: "find_loop (lo_addr lo) st2 = Inr lo" "lo_name lo = name"
    using find_distinct [OF loops_okD(2) [OF ok], of lo]
    by (simp_all add: find_loop_def st2_def st1_def lev_call_def note_call_def)
  have "0 < unat rlen" using req(2) by (simp add: unat_gt_0)
  moreover have "unat rlen < 2 ^ 16" using unsigned_less [of rlen] by simp
  ultimately have "sendable ?rx" by (simp add: sendable_def)
  from loop_receives [OF this _ found(1) lo(2)] found(2)
  have receive: "feed (loop_on_data (\<lambda>_. True) call (lo_addr lo)) st2 [] chunks' =
      and_then (call cb name ?rx (unat rlen) (lo_arg lo) st2) (\<lambda>st3. Inr (st3, []))"
    if "concat chunks' = frame ?rx" for chunks'
    using that by simp
  show ?thesis
    using send serve receive
    by (intro exI [of _ st1] exI [of _ "frame (i2c_request ?req)"] exI conjI allI impI
        exI [of _ st2] exI [of _ "frame ?rx"])
      (auto simp: st1_def st2_def lev_call_def note_call_def)
qed


subsection \<open>A process with one loop\<close>

definition the_loop :: loop where
  "the_loop = \<lparr>lo_addr = 0, lo_self = 1, lo_name = ''lo'', lo_cb = Some 5, lo_arg = 9\<rparr>"

definition the_core :: "bev option \<Rightarrow> unit ep_core" where
  "the_core x = \<lparr>core_id = 0, partner_id = 1, ep_type = 8, ep_base = None, ep_bev = x, ep_data = None\<rparr>"

definition one_loop :: "bev option \<Rightarrow> unit lrte" where
  "one_loop x = \<lparr>os_calls = [Malloc 56], base = None, live_bases = {}, base_calls = [],
     cores = [1 \<mapsto> the_core x], next_core = 2, ep_tbl = DTBL_INITIALIZER MAX_NR_EP, lev_calls = [],
     lo_list = [the_loop]\<rparr>"

lemma one_loop_facts:
  "loops_ok counting_os (one_loop x)"
  "lookup_lo ''lo'' (one_loop x) = Some the_loop" "lookup_lo ''other'' (one_loop x) = None"
  "cores (one_loop x) (lo_self the_loop) = Some (the_core x)" "ep_bev (the_core x) = x"
  "lo_cb the_loop = Some 5" "lev_calls (one_loop x) = []"
  by (simp_all add: loops_ok_def lookup_lo_def one_loop_def the_loop_def the_core_def)

theorem loop_open_close_witness:
  "\<exists>p st'. loop_open counting_os 4 ''new'' (one_loop None) = (0, Some p, st') \<and>
     lookup_lo ''lo'' st' = lookup_lo ''lo'' (one_loop None) \<and>
     (\<exists>st2. loop_close p st' = Inr st2 \<and> lookup_lo ''new'' st2 = None)"
proof -
  have new: "lookup_lo ''new'' (one_loop None) = None"
    by (simp add: lookup_lo_def one_loop_def the_loop_def)
  then obtain p st' where o: "loop_open counting_os 4 ''new'' (one_loop None) = (0, Some p, st')"
    by (simp add: loop_open_def sys_def)
  from loop_open_close [OF os_ok_counting one_loop_facts(1) o] new
  have "lookup_lo ''lo'' st' = lookup_lo ''lo'' (one_loop None)"
    and "\<exists>st2. loop_close p st' = Inr st2 \<and> lookup_lo ''new'' st2 = None"
    by auto
  with o show ?thesis by blast
qed

theorem xfer_requests_witness:
  "\<forall>L. rteipc_spi_xfer L ''lo'' (Some [1, 2]) (of_nat (length [1, 2 :: byte])) True (one_loop (Some 3)) =
     Inr (bufferevent_write_buffer L 3 (frame (spi_request ([1, 2], True))) (one_loop (Some 3)))"
  by (intro allI xfer_requests [THEN conjunct2, THEN conjunct1,
        OF one_loop_facts(2) one_loop_facts(4,5)]) simp

theorem xfer_unbound_witness:
  "\<forall>L. rteipc_xfer L ''lo'' [1] (one_loop None) = Inl Null_Deref"
  by (intro allI xfer_unbound [THEN conjunct1, OF one_loop_facts(2,4,5,3)])

theorem i2c_over_loopback_witness:
  "\<forall>L. \<exists>r st1 bytes. rteipc_i2c_xfer L ''lo'' 0x50 (Some [7]) (of_nat (length [7 :: byte])) 2
     (one_loop (Some 3)) = Inr (r, st1) \<and> lev_calls st1 = [Bev_Write 3 bytes]"
proof
  fix L
  have "\<exists>r st1 bytes. rteipc_i2c_xfer L ''lo'' 0x50 (Some [7]) (of_nat (length [7 :: byte])) 2
      (one_loop (Some 3)) = Inr (r, st1) \<and> lev_calls st1 = Bev_Write 3 bytes # lev_calls (one_loop (Some 3))"
    if "length [7 :: byte] < 2 ^ 16" "(2 :: 16 word) \<noteq> 0"
      "0 \<le> os_int counting_os (os_calls (one_loop (Some 3)))
         (Sys_Ioctl (i2c_fd \<lparr>i2c_mem = 1, i2c_fd = 5\<rparr>)
           (I2C_RDWR (bus_messages 0x50 [7] 2)))"
    using i2c_over_loopback [OF one_loop_facts(1,2,6,4,5) that(1,2) refl that(3), of L] by blast
  then show "\<exists>r st1 bytes. rteipc_i2c_xfer L ''lo'' 0x50 (Some [7]) (of_nat (length [7 :: byte])) 2
     (one_loop (Some 3)) = Inr (r, st1) \<and> lev_calls st1 = [Bev_Write 3 bytes]"
    by (simp add: one_loop_facts(7))
qed

end
