(* ===== verification/Ep_Tty.thy ===== *)
theory Ep_Tty
  imports Endpoint Os
begin

section \<open>The serial line endpoint (src/src/ep/ep_tty.c)\<close>

text \<open>
  \<open>W h\<close> is the kernel's \<open>write\<close> after the calls \<open>h\<close>, in the form \<open>rteipc_msg_write\<close> takes
  it. A read that fails with EINTR answers -4, any other failure another negative number.
  \<open>tty_upstream\<close> is the callback of the read event; a callback in which a loop does not end
  is the fault \<open>Hangs\<close>.
\<close>

record tty_data =
  tty_mem :: nat
  tty_fd :: int

abbreviation (input) EINTR :: int where "EINTR \<equiv> 4"

text \<open>
  \<open>len\<close> is a \<open>size_t\<close>, so \<open>len <= 0\<close> only catches the end of the stream; after a failed read
  the message is built from \<open>(size_t)-1\<close> bytes of a buffer of 256.
\<close>

definition tty_upstream ::
  "os \<Rightarrow> lev \<Rightarrow> tty_data \<Rightarrow> bev option \<Rightarrow> ('d, 'z) rte_scheme \<Rightarrow> ('d, 'z) rte_scheme outcome" where
  "tty_upstream E L data self_bev st =
     (case self_bev of
        None \<Rightarrow> Inr st
      | Some b \<Rightarrow>
          (let get = Sys_Read (tty_fd data) 256
           in case sys (os_int E) get st of
                (r, st1) \<Rightarrow>
                  let len = (word_of_int r :: 64 word)
                  in if len = 0 then Inr (note_call (Event_Del (tty_fd data)) st1)
                     else if unat len > 256 then Inl Out_Of_Bounds
                     else Inr (snd (bufferevent_write_buffer L b
                       (frame (map (os_byte E (os_calls st) get) [0..<unat len])) st1))))"

partial_function (option) uart_flush ::
  "os \<Rightarrow> int \<Rightarrow> 'z os_state_scheme \<Rightarrow> 'z os_state_scheme option" where
  "uart_flush E fd st =
     (case sys (os_int E) (Sys_Read fd 256) st of
        (ret, st1) \<Rightarrow> if ret > 0 \<or> ret = - EINTR then uart_flush E fd st1 else Some st1)"

definition open_uart ::
  "os \<Rightarrow> string \<Rightarrow> int \<Rightarrow> 'z os_state_scheme \<Rightarrow> (int \<times> 'z os_state_scheme) outcome" where
  "open_uart E path speed st =
     (case sys (os_int E) (Sys_Open path) st of
        (fd, st1) \<Rightarrow>
          if fd < 0 then Inr (-1, st1)
          else (case sys (os_int E) (Set_Speed speed) st1 of
                  (r, st2) \<Rightarrow>
                    if r < 0 then Inr (-1, st2)
                    else (case sys (os_int E) (Set_Attr fd speed) st2 of
                            (r, st3) \<Rightarrow>
                              if r < 0 then Inr (-1, st3)
                              else (case uart_flush E fd st3 of
                                      None \<Rightarrow> Inl Hangs
                                    | Some st4 \<Rightarrow> Inr (fd, st4)))))"

definition tty_handle ::
  "(os_call list \<Rightarrow> nat \<Rightarrow> byte list \<Rightarrow> write_result) \<Rightarrow> tty_data \<Rightarrow> nat \<Rightarrow> byte list \<Rightarrow>
   ('d, 'z) rte_scheme \<Rightarrow> ('d, 'z) rte_scheme outcome" where
  "tty_handle W data len msg st =
     (if length msg < len then Inl Uninitialised
      else (case rteipc_msg_write (W (os_calls st)) msg 0 0 [] of
              None \<Rightarrow> Inl Hangs
            | Some (r, out, closed) \<Rightarrow>
                (let st1 = note_call (Sys_Write (tty_fd data) out) st
                 in Inr (if closed then note_call (Sys_Close (tty_fd data)) st1 else st1))))"

definition tty_on_data ::
  "(nat \<Rightarrow> bool) \<Rightarrow> (os_call list \<Rightarrow> nat \<Rightarrow> byte list \<Rightarrow> write_result) \<Rightarrow> tty_data \<Rightarrow>
   ('d, 'z) rte_scheme \<Rightarrow> byte list \<Rightarrow> (('d, 'z) rte_scheme \<times> byte list) outcome" where
  "tty_on_data M W data st inp = drain_loop M (tty_handle W data) st inp"

definition tty_speed :: "string \<Rightarrow> int" where
  "tty_speed baudrate =
     (if baudrate = ''921600'' then 921600
      else if baudrate = ''576000'' then 576000
      else if baudrate = ''500000'' then 500000
      else if baudrate = ''460800'' then 460800
      else if baudrate = ''230400'' then 230400
      else if baudrate = ''115200'' then 115200
      else if baudrate = ''57600'' then 57600
      else 115200)"

text \<open>\<open>sscanf(path, "%[^,],%[^,]", dev, baudrate)\<close> into arrays of 128 and 16 characters.\<close>

definition tty_scan :: "string \<Rightarrow> (string \<times> string) outcome" where
  "tty_scan path =
     (case scan_not '','' path of
        None \<Rightarrow> Inr ([], [])
      | Some (d, s1) \<Rightarrow> and_then (fit 128 d) (\<lambda>dev.
          (case Option.bind (scan_lit '','' s1) (scan_not '','') of
             None \<Rightarrow> Inr (dev, [])
           | Some (b, _) \<Rightarrow> and_then (fit 16 b) (\<lambda>baudrate. Inr (dev, baudrate)))))"

definition tty_open ::
  "os \<Rightarrow> string \<Rightarrow> 'z os_state_scheme \<Rightarrow> (int \<times> tty_data option \<times> 'z os_state_scheme) outcome" where
  "tty_open E path st =
     and_then (tty_scan path) (\<lambda>(dev, baudrate).
     (case sys (os_ptr E) (Malloc 16) st of
        (None, st1) \<Rightarrow> Inr (-1, None, st1)
      | (Some p, st1) \<Rightarrow>
          and_then (open_uart E dev (tty_speed baudrate) st1) (\<lambda>(fd, st2).
          if fd < 0 then Inr (-1, None, note_call (Free p) st2)
          else Inr (0, Some \<lparr>tty_mem = p, tty_fd = fd\<rparr>, note_call (Event_Add fd) st2))))"

definition tty_close :: "tty_data \<Rightarrow> 'z os_state_scheme \<Rightarrow> 'z os_state_scheme" where
  "tty_close data st =
     note_call (Free (tty_mem data)) (note_call (Sys_Close (tty_fd data))
       (note_call (Event_Del (tty_fd data)) st))"

definition tty_compatible :: "nat \<Rightarrow> bool" where
  "tty_compatible = compatible_with (COMPAT_IPC OR COMPAT_TTY)"


subsection \<open>What the endpoint promises\<close>

text \<open>The kernel makes progress on every write and interrupts it at most \<open>B\<close> times.\<close>

definition writes_progress ::
  "(os_call list \<Rightarrow> nat \<Rightarrow> byte list \<Rightarrow> write_result) \<Rightarrow> nat \<Rightarrow> bool" where
  "writes_progress W B \<longleftrightarrow>
     (\<forall>h k bs. (case W h k bs of
        Written n \<Rightarrow> bs \<noteq> [] \<longrightarrow> 0 < n \<and> n \<le> length bs
      | Interrupted \<Rightarrow> k < B
      | Write_Failed \<Rightarrow> True))"

lemma writes_progressD:
  assumes "writes_progress W B"
  shows "W h k bs = Written n \<Longrightarrow> bs \<noteq> [] \<Longrightarrow> 0 < n \<and> n \<le> length bs"
    and "W h k bs = Interrupted \<Longrightarrow> k < B"
proof -
  have "case W h k bs of Written n \<Rightarrow> bs \<noteq> [] \<longrightarrow> 0 < n \<and> n \<le> length bs
      | Interrupted \<Rightarrow> k < B | Write_Failed \<Rightarrow> True"
    using assms unfolding writes_progress_def by blast
  then show "W h k bs = Written n \<Longrightarrow> bs \<noteq> [] \<Longrightarrow> 0 < n \<and> n \<le> length bs"
    and "W h k bs = Interrupted \<Longrightarrow> k < B" by auto
qed

lemma tty_write_outcome:
  assumes "writes_progress W B"
  obtains "rteipc_msg_write (W h) msg 0 0 [] = Some (0, msg, False)"
  | k where "k < length msg" "rteipc_msg_write (W h) msg 0 0 [] = Some (-1, take k msg, True)"
  using msg_write_loop [of "W h" B "[]" 0 msg 0] writes_progressD [OF assms, of h] by auto

text \<open>What a message does to the line: all of it is written, or a part and the line is closed.\<close>

inductive tty_step :: "int \<Rightarrow> byte list \<Rightarrow> os_call list \<Rightarrow> os_call list \<Rightarrow> bool" for fd where
  tty_all: "tty_step fd m h (Sys_Write fd m # h)"
| tty_part: "k < length m \<Longrightarrow> tty_step fd m h (Sys_Close fd # Sys_Write fd (take k m) # h)"

inductive_cases tty_stepE: "tty_step fd m h h'"

inductive tty_steps :: "int \<Rightarrow> byte list list \<Rightarrow> os_call list \<Rightarrow> os_call list \<Rightarrow> bool" for fd where
  tty_done: "tty_steps fd [] h h"
| tty_more: "tty_step fd m h h1 \<Longrightarrow> tty_steps fd ms h1 h2 \<Longrightarrow> tty_steps fd (m # ms) h h2"

inductive_simps tty_steps_Nil [simp]: "tty_steps fd [] h h'"
inductive_simps tty_steps_Cons [simp]: "tty_steps fd (m # ms) h h'"

lemma each_tty:
  assumes "writes_progress W B" "\<forall>m \<in> set ms. sendable m"
  shows "\<exists>st'. each (\<lambda>m. tty_handle W data (length m) m) ms st = Inr st' \<and>
    tty_steps (tty_fd data) ms (os_calls st) (os_calls st')"
  using assms(2)
proof (induction ms arbitrary: st)
  case (Cons m ms)
  obtain st1 where st1: "tty_handle W data (length m) m st = Inr st1"
      "tty_step (tty_fd data) m (os_calls st) (os_calls st1)"
    by (rule tty_write_outcome [OF assms(1), of "os_calls st" m])
      (auto simp: tty_handle_def note_call_def Let_def intro: tty_step.intros)
  with Cons.IH [of st1] Cons.prems show ?case by auto
qed simp

text \<open>
  C32: on a kernel that takes something of every write and interrupts it finitely often, every
  run of the callback ends, whatever the chunks, and the line gets the messages in order, each
  whole or, when a write fails, a proper prefix after which the descriptor is closed.
\<close>

theorem tty_serves:
  fixes st :: "('d, 'z) rte_scheme"
  assumes "writes_progress W B" and "\<forall>m \<in> set ms. sendable m"
    and "concat chunks = concat (map frame ms)"
  shows "\<exists>st'. feed (tty_on_data (\<lambda>_. True) W data) st [] chunks = Inr (st', []) \<and>
    tty_steps (tty_fd data) ms (os_calls st) (os_calls st')"
proof -
  have "(tty_on_data (\<lambda>_. True) W data :: ('d, 'z) rte_scheme \<Rightarrow> _) = drain_loop (\<lambda>_. True) (tty_handle W data)"
    by (intro ext) (simp add: tty_on_data_def)
  with feed_batch [OF assms(2,3), of "tty_handle W data" st] each_tty [OF assms(1,2), of data st]
  show ?thesis by auto
qed

text \<open>
  After a failed write the endpoint keeps the descriptor it closed: the next message of
  the stream is written to that number again, whatever it stands for by then, and closing the
  endpoint closes it a second time.
\<close>

theorem tty_uses_closed_descriptor:
  assumes "sendable m" "sendable m'" "W (os_calls st) 0 m = Write_Failed"
    and "\<And>h. h \<noteq> os_calls st \<Longrightarrow> W h 0 m' = Written (length m')"
  shows "\<exists>st'. tty_on_data (\<lambda>_. True) W data st (frame m @ frame m') = Inr (st', []) \<and>
    os_calls (tty_close data st') =
      [Free (tty_mem data), Sys_Close (tty_fd data), Event_Del (tty_fd data),
       Sys_Write (tty_fd data) m', Sys_Close (tty_fd data), Sys_Write (tty_fd data) []] @ os_calls st"
proof -
  let ?h = "Sys_Close (tty_fd data) # Sys_Write (tty_fd data) [] # os_calls st"
  have "m \<noteq> []" "m' \<noteq> []" using assms(1,2) by (auto simp: sendable_def)
  then have fails: "rteipc_msg_write (W (os_calls st)) m 0 0 [] = Some (-1, [], True)"
    using assms(3) by (subst rteipc_msg_write.simps) simp
  have "W ?h 0 m' = Written (length m')"
    by (rule assms(4)) (metis length_Cons n_not_Suc_n Suc_n_not_n less_Suc_eq less_irrefl)
  then have works: "rteipc_msg_write (W ?h) m' 0 0 [] = Some (0, m', False)"
    using \<open>m' \<noteq> []\<close> by (subst rteipc_msg_write.simps, simp, subst rteipc_msg_write.simps, simp)
  show ?thesis
    using drain_batch [of "[m, m']" "tty_handle W data" st] assms(1,2)
    by (simp add: tty_on_data_def tty_handle_def note_call_def fails works tty_close_def)
qed

text \<open>
  A failed read is not noticed. The length is compared as an unsigned number, so a read
  that answers -1 goes on to copy 2^64 - 1 bytes out of a buffer of 256; the end of the stream
  and every successful read are handled as meant, one message per read.
\<close>

theorem tty_read_outcomes:
  assumes "r = os_int E (os_calls st) (Sys_Read (tty_fd data) 256)" and "-1 \<le> r" "r \<le> 256"
  shows "tty_upstream E L data (Some b) st =
    (if r = -1 then Inl Out_Of_Bounds
     else if r = 0 then
       Inr (st\<lparr>os_calls := [Event_Del (tty_fd data), Sys_Read (tty_fd data) 256] @ os_calls st\<rparr>)
     else Inr (st\<lparr>os_calls := Sys_Read (tty_fd data) 256 # os_calls st,
            lev_calls := Bev_Write b (frame (map (os_byte E (os_calls st)
              (Sys_Read (tty_fd data) 256)) [0..<nat r])) # lev_calls st\<rparr>))"
proof -
  have "unat (word_of_int r :: 64 word) = nat r" if "0 \<le> r"
    using that assms(3) by (simp add: unsigned_of_int take_bit_int_eq_self)
  moreover have "(word_of_int r :: 64 word) = 0 \<longleftrightarrow> r = 0" if "0 \<le> r"
    using calculation [OF that] that unat_eq_zero [of "word_of_int r :: 64 word"] by auto
  moreover have "256 < unat (-1 :: 64 word)" by (simp add: unsigned_minus_1_eq_mask mask_eq_exp_minus_1)
  moreover have "r = -1 \<or> 0 \<le> r" using assms(2) by linarith
  ultimately show ?thesis
    using assms
    by (auto simp: tty_upstream_def os_defs Let_def bufferevent_write_buffer_def lev_call_def)
qed

text \<open>A kernel that refuses the very first write and takes every later one whole.\<close>

definition refusing_write :: "os_call list \<Rightarrow> nat \<Rightarrow> byte list \<Rightarrow> write_result" where
  "refusing_write h k bs = (if h = [] then Write_Failed else Written (length bs))"

lemma refusing_write_progress: "writes_progress refusing_write 0"
  by (simp add: writes_progress_def refusing_write_def)

theorem tty_serves_witness:
  "\<exists>st'. feed (tty_on_data (\<lambda>_. True) refusing_write \<lparr>tty_mem = 1, tty_fd = 5\<rparr>) (idle_rte :: unit rte) []
       [frame [7], frame [8, 9]] = Inr (st', []) \<and>
     tty_steps 5 [[7], [8, 9]] [] (os_calls st')"
proof -
  have "os_calls (idle_rte :: unit rte) = []" by (simp add: idle_rte_def)
  with tty_serves [OF refusing_write_progress, of "[[7], [8, 9]]" "[frame [7], frame [8, 9]]"
      "\<lparr>tty_mem = 1, tty_fd = 5\<rparr>" "idle_rte :: unit rte"]
  show ?thesis by (simp add: sendable_def del: feed.simps tty_steps_Cons)
qed

theorem tty_uses_closed_descriptor_witness:
  "\<exists>st'. tty_on_data (\<lambda>_. True) refusing_write \<lparr>tty_mem = 1, tty_fd = 5\<rparr> (idle_rte :: unit rte)
       (frame [7] @ frame [8, 9]) = Inr (st', []) \<and>
     os_calls (tty_close \<lparr>tty_mem = 1, tty_fd = 5\<rparr> st') =
       [Free 1, Sys_Close 5, Event_Del 5, Sys_Write 5 [8, 9], Sys_Close 5, Sys_Write 5 []]"
  using tty_uses_closed_descriptor [of "[7]" "[8, 9]" refusing_write "idle_rte :: unit rte" "\<lparr>tty_mem = 1, tty_fd = 5\<rparr>"]
  by (simp add: sendable_def idle_rte_def refusing_write_def)

theorem tty_read_outcomes_witness:
  "\<forall>L. tty_upstream (counting_os\<lparr>os_int := \<lambda>h c. -1\<rparr>) L \<lparr>tty_mem = 1, tty_fd = 5\<rparr> (Some 3) (idle_rte :: unit rte) =
     Inl Out_Of_Bounds"
  by (intro allI, subst tty_read_outcomes [where E = "counting_os\<lparr>os_int := \<lambda>h c. -1\<rparr>" and r = "-1"]) simp_all

end
