(* ===== verification/Ep_Ipc.thy ===== *)
theory Ep_Ipc
  imports Endpoint Os
begin

section \<open>The IPC and INET endpoints (src/src/ep/ep_ipc.c)\<close>

text \<open>
  The endpoint listens on a socket and relays bytes between the one client it accepts and its
  bufferevent, without looking at them. Its private data changes while it is open, so the
  callbacks return it. The buffers are the bytes waiting in the client's bufferevent and in the
  endpoint's.
\<close>

record ipc_data =
  ipc_mem :: nat
  ipc_el :: nat
  ipc_cli :: "nat option"
  ipc_path :: "string option"
  ipc_abstract :: bool

abbreviation (input) INET_DEFAULT_PORT :: int where "INET_DEFAULT_PORT \<equiv> 9110"

definition ipc_event_cb ::
  "nat \<Rightarrow> ipc_data \<Rightarrow> ('d, 'z) rte_scheme \<Rightarrow> ipc_data \<times> ('d, 'z) rte_scheme" where
  "ipc_event_cb bev data st =
     (data\<lparr>ipc_cli := None\<rparr>,
      note_call (Listener_Accept (ipc_el data) True) (note_call (Cli_Free bev) st))"

definition ipc_read_cb ::
  "bev option \<Rightarrow> byte list \<Rightarrow> ('d, 'z) rte_scheme \<Rightarrow> byte list \<times> ('d, 'z) rte_scheme" where
  "ipc_read_cb self_bev inp st =
     (case self_bev of
        None \<Rightarrow> (inp, st)
      | Some b \<Rightarrow> ([], lev_call (Bev_Write b inp) st))"

definition ipc_error_cb :: "('d, 'z) rte_scheme \<Rightarrow> ('d, 'z) rte_scheme" where
  "ipc_error_cb st = note_call Loop_Exit st"

definition ipc_on_data ::
  "ipc_data \<Rightarrow> ('d, 'z) rte_scheme \<Rightarrow> byte list \<Rightarrow> ('d, 'z) rte_scheme \<times> byte list" where
  "ipc_on_data data st inp =
     (case ipc_cli data of
        None \<Rightarrow> (st, inp)
      | Some c \<Rightarrow> (note_call (Cli_Write c inp) st, []))"

text \<open>
  \<open>bufferevent_flush(self->bev, EV_READ, BEV_FLUSH)\<close>: libevent runs the read callback of the
  bufferevent, which is that of the endpoint, when bytes are waiting in it.
\<close>

definition ipc_flush ::
  "bev \<Rightarrow> ipc_data \<Rightarrow> ('d, 'z) rte_scheme \<Rightarrow> byte list \<Rightarrow> ('d, 'z) rte_scheme \<times> byte list" where
  "ipc_flush b data st pend =
     (let st1 = lev_call (Bev_Flush b) st in if pend = [] then (st1, []) else ipc_on_data data st1 pend)"

text \<open>The accept callback; \<open>pend\<close> is what waits in the bufferevent of the endpoint.\<close>

definition ipc_listen_cb ::
  "os \<Rightarrow> bev option \<Rightarrow> int \<Rightarrow> ipc_data \<Rightarrow> byte list \<Rightarrow> ('d, 'z) rte_scheme \<Rightarrow>
   ipc_data \<times> byte list \<times> ('d, 'z) rte_scheme" where
  "ipc_listen_cb E self_bev fd data pend st =
     (case sys (os_ptr E) (Cli_New fd) st of
        (None, st1) \<Rightarrow> (data, pend, st1)
      | (Some c, st1) \<Rightarrow>
          (let st2 = note_call (Listener_Accept (ipc_el data) False) st1;
               data' = data\<lparr>ipc_cli := Some c\<rparr>
           in (case self_bev of
                 None \<Rightarrow> (data', pend, st2)
               | Some b \<Rightarrow> (case ipc_flush b data' st2 pend of (st3, pend') \<Rightarrow> (data', pend', st3)))))"

definition be16 :: "16 word \<Rightarrow> byte list" where
  "be16 w = rev (le16 w)"

text \<open>
  \<open>struct sockaddr_in\<close> from \<open>sscanf(path, "%[^:]:%[^:]", sip, sport)\<close> into arrays of 16 and 6
  characters; \<open>Inr None\<close> is a jump to \<open>out\<close>. The port is the value of \<open>strtol\<close> cut to 16 bits.
\<close>

definition ipc_inet_addr ::
  "os \<Rightarrow> string \<Rightarrow> 'z os_state_scheme \<Rightarrow> (byte list option \<times> 'z os_state_scheme) outcome" where
  "ipc_inet_addr E path st =
     and_then
       (case scan_not '':'' path of
          None \<Rightarrow> Inr ([], [])
        | Some (i, s1) \<Rightarrow> and_then (fit 16 i) (\<lambda>sip.
            (case Option.bind (scan_lit '':'' s1) (scan_not '':'') of
               None \<Rightarrow> Inr (sip, [])
             | Some (p, _) \<Rightarrow> and_then (fit 6 p) (\<lambda>sport. Inr (sip, sport)))))
       (\<lambda>(sip, sport).
         (case sys (os_data E) (Inet_Pton sip) st of
            (None, st1) \<Rightarrow> Inr (None, st1)
          | (Some ip, st1) \<Rightarrow>
              (let (port, err) = (if sport = [] then (INET_DEFAULT_PORT, False) else strtol10 sport)
               in if err then Inr (None, st1)
                  else Inr (Some (le16 2 @ be16 (word_of_int port) @ ip @ replicate 8 0), st1))))"

text \<open>\<open>strdup\<close> takes a block of its own for the path, which \<open>ipc_close\<close> does not free.\<close>

definition ipc_open ::
  "os \<Rightarrow> nat \<Rightarrow> string \<Rightarrow> 'z os_state_scheme \<Rightarrow> (int \<times> ipc_data option \<times> 'z os_state_scheme) outcome" where
  "ipc_open E type path st =
     (case sys (os_ptr E) (Malloc 32) st of
        (None, st1) \<Rightarrow> Inr (-1, None, st1)
      | (Some p, st1) \<Rightarrow>
          (let bind = (\<lambda>addr addrlen pth abs st.
             (case sys (os_ptr E) (Listener_New addr addrlen) st of
                (None, st') \<Rightarrow> Inr (-1, None, st')
              | (Some el, st') \<Rightarrow>
                  Inr (0, Some \<lparr>ipc_mem = p, ipc_el = el, ipc_cli = None, ipc_path = pth,
                                ipc_abstract = abs\<rparr>, st')))
           in if type = EP_INET then
                and_then (ipc_inet_addr E path st1) (\<lambda>(addr, st2).
                (case addr of
                   None \<Rightarrow> Inr (-1, None, st2)
                 | Some sin \<Rightarrow> bind sin 16 None False st2))
              else
                (let sun_path = take 107 path @ replicate (108 - min 107 (length path)) NUL;
                     addrlen = 2 + length path + 1
                 in if hd sun_path = CHR ''@'' then
                      bind (le16 1 @ bytes_of (NUL # tl sun_path)) (addrlen - 1) None True st1
                    else
                      (case sys (os_ptr E) (Malloc (length path + 1)) (note_call (Sys_Unlink (Some path)) st1) of
                         (q, st2) \<Rightarrow>
                           bind (le16 1 @ bytes_of sun_path) addrlen (map_option (\<lambda>_. path) q) False st2))))"

definition ipc_close :: "ipc_data \<Rightarrow> 'z os_state_scheme \<Rightarrow> 'z os_state_scheme" where
  "ipc_close data st =
     (let st1 = (case ipc_cli data of None \<Rightarrow> st | Some c \<Rightarrow> note_call (Cli_Free c) st);
          st2 = note_call (Listener_Free (ipc_el data)) st1;
          st3 = (if ipc_abstract data then st2 else note_call (Sys_Unlink (ipc_path data)) st2)
      in note_call (Free (ipc_mem data)) st3)"

definition ipc_compatible :: "nat \<Rightarrow> bool" where
  "ipc_compatible = compatible_with COMPAT_ANY"


subsection \<open>The relay\<close>

text \<open>
  The events of an open endpoint that is bound through \<open>b\<close>: libevent calls the accept callback
  only while one is set, and the client's callbacks only while there is a client. The state is
  the private data, the bytes waiting in the endpoint's bufferevent, and the rest.
\<close>

datatype ipc_event =
    Client_Connects int
  | Client_Sends "byte list"
  | Client_Leaves
  | Partner_Sends "byte list"

fun accepting :: "nat \<Rightarrow> os_call list \<Rightarrow> bool" where
  "accepting el [] = True"
| "accepting el (Listener_Accept l on # h) = (if l = el then on else accepting el h)"
| "accepting el (Listener_New a n # h) = True"
| "accepting el (_ # h) = accepting el h"

type_synonym ('d, 'z) ipc_state = "ipc_data \<times> byte list \<times> ('d, 'z) rte_scheme"

fun ipc_react :: "os \<Rightarrow> bev \<Rightarrow> ipc_event \<Rightarrow> ('d, 'z) ipc_state \<Rightarrow> ('d, 'z) ipc_state" where
  "ipc_react E b (Client_Connects fd) (data, pend, st) =
     (if accepting (ipc_el data) (os_calls st)
      then ipc_listen_cb E (Some b) fd data pend st
      else (data, pend, st))"
| "ipc_react E b (Client_Sends bs) (data, pend, st) =
     (if ipc_cli data = None then (data, pend, st)
      else (data, pend, snd (ipc_read_cb (Some b) bs st)))"
| "ipc_react E b Client_Leaves (data, pend, st) =
     (case ipc_cli data of
        None \<Rightarrow> (data, pend, st)
      | Some c \<Rightarrow> (case ipc_event_cb c data st of (data', st') \<Rightarrow> (data', pend, st')))"
| "ipc_react E b (Partner_Sends bs) (data, pend, st) =
     (case ipc_on_data data st (pend @ bs) of (st', pend') \<Rightarrow> (data, pend', st'))"

fun ipc_run :: "os \<Rightarrow> bev \<Rightarrow> ipc_event list \<Rightarrow> ('d, 'z) ipc_state \<Rightarrow> ('d, 'z) ipc_state" where
  "ipc_run E b [] s = s"
| "ipc_run E b (e # es) s = ipc_run E b es (ipc_react E b e s)"

text \<open>What has been written so far, oldest byte first: to the partner and to clients.\<close>

fun to_partner :: "bev \<Rightarrow> lev_call list \<Rightarrow> byte list" where
  "to_partner b [] = []"
| "to_partner b (Bev_Write c bs # h) = to_partner b h @ (if c = b then bs else [])"
| "to_partner b (_ # h) = to_partner b h"

fun to_clients :: "os_call list \<Rightarrow> byte list" where
  "to_clients [] = []"
| "to_clients (Cli_Write c bs # h) = to_clients h @ bs"
| "to_clients (_ # h) = to_clients h"

text \<open>
  The abstract relay: whether a client is connected, what was relayed to the partner, what was
  relayed to clients, and what waits for a client. \<open>ok\<close> is whether the connection could be set
  up. A client gets what was waiting as soon as it is accepted.
\<close>

record relay =
  connected :: bool
  up :: "byte list"
  down :: "byte list"
  waiting :: "byte list"

fun relay_react :: "(int \<Rightarrow> bool) \<Rightarrow> ipc_event \<Rightarrow> relay \<Rightarrow> relay" where
  "relay_react ok (Client_Connects fd) r =
     (if connected r \<or> \<not> ok fd then r
      else r\<lparr>connected := True, down := down r @ waiting r, waiting := []\<rparr>)"
| "relay_react ok (Client_Sends bs) r = (if connected r then r\<lparr>up := up r @ bs\<rparr> else r)"
| "relay_react ok Client_Leaves r = r\<lparr>connected := False\<rparr>"
| "relay_react ok (Partner_Sends bs) r =
     (if connected r then r\<lparr>down := down r @ waiting r @ bs, waiting := []\<rparr>
      else r\<lparr>waiting := waiting r @ bs\<rparr>)"

fun relay_run :: "(int \<Rightarrow> bool) \<Rightarrow> ipc_event list \<Rightarrow> relay \<Rightarrow> relay" where
  "relay_run ok [] r = r"
| "relay_run ok (e # es) r = relay_run ok es (relay_react ok e r)"

fun relay_of :: "bev \<Rightarrow> ('d, 'z) ipc_state \<Rightarrow> relay" where
  "relay_of b (data, pend, st) =
     \<lparr>connected = ipc_cli data \<noteq> None, up = to_partner b (lev_calls st),
      down = to_clients (os_calls st), waiting = pend\<rparr>"

fun ipc_wf :: "('d, 'z) ipc_state \<Rightarrow> bool" where
  "ipc_wf (data, pend, st) \<longleftrightarrow> accepting (ipc_el data) (os_calls st) = (ipc_cli data = None)"

lemmas ipc_callback_defs =
  ipc_listen_cb_def ipc_flush_def ipc_read_cb_def ipc_event_cb_def ipc_on_data_def os_defs lev_call_def

lemma ipc_react_refines:
  assumes "ipc_wf s" and "\<And>h fd. os_ptr E h (Cli_New fd) \<noteq> None \<longleftrightarrow> ok fd"
  shows "ipc_wf (ipc_react E b e s) \<and> relay_of b (ipc_react E b e s) = relay_react ok e (relay_of b s)"
proof -
  obtain data pend st where s: "s = (data, pend, st)" by (cases s)
  show ?thesis
  proof (cases e)
    case (Client_Connects fd)
    show ?thesis
    proof (cases "os_ptr E (os_calls st) (Cli_New fd)")
      case None
      with assms(2) have "\<not> ok fd" by metis
      with None assms(1) s Client_Connects show ?thesis by (auto simp: ipc_callback_defs)
    next
      case (Some c)
      with assms(2) have "ok fd" by (metis option.distinct(1))
      with Some assms(1) s Client_Connects show ?thesis
        by (auto simp: ipc_callback_defs Let_def)
    qed
  qed (use assms(1) s in \<open>auto simp: ipc_callback_defs split: option.splits\<close>)
qed

text \<open>
  C16: the IPC endpoint is a transparent relay with one client at a time. Whatever the order of
  connections, data and disconnections, it accepts a client exactly when it has none, what it
  has written to its partner is what the connected clients sent, in order, and what it has
  written to clients together with what waits is what the partner sent, in order; nothing waits
  while there is a client, and a client that connects gets at once what has been waiting for it.
\<close>

theorem ipc_relay:
  assumes "accepting (ipc_el data) (os_calls st)" and "ipc_cli data = None"
    and "\<And>h fd. os_ptr E h (Cli_New fd) \<noteq> None \<longleftrightarrow> ok fd"
  shows "ipc_wf (ipc_run E b es (data, pend, st)) \<and>
    relay_of b (ipc_run E b es (data, pend, st)) =
      relay_run ok es \<lparr>connected = False, up = to_partner b (lev_calls st),
        down = to_clients (os_calls st), waiting = pend\<rparr>"
proof -
  have "ipc_wf (ipc_run E b es s) \<and> relay_of b (ipc_run E b es s) = relay_run ok es (relay_of b s)"
    if "ipc_wf s" for s :: "('a, 'b) ipc_state"
    using that
  proof (induction es arbitrary: s)
    case (Cons e es)
    with ipc_react_refines [OF Cons.prems assms(3), of b e] show ?case by simp
  qed simp
  from this [of "(data, pend, st)"] assms(1,2) show ?thesis by simp
qed

theorem ipc_relay_witness:
  "relay_of 4 (ipc_run counting_os 4
       [Partner_Sends [1], Client_Connects 9, Client_Sends [5, 6], Client_Connects 10,
        Client_Leaves, Client_Sends [7], Partner_Sends [3]]
       (\<lparr>ipc_mem = 0, ipc_el = 1, ipc_cli = None, ipc_path = None, ipc_abstract = True\<rparr>, [],
        idle_rte :: unit rte)) =
     \<lparr>connected = False, up = [5, 6], down = [1], waiting = [3]\<rparr>"
  by (subst ipc_relay [where ok = "\<lambda>_. True", THEN conjunct2]) (simp_all add: idle_rte_def)


subsection \<open>Data only\<close>

text \<open>What the client sends goes to the partner, what the partner sends to the client.\<close>

lemma ipc_run_sends:
  "ipc_cli d \<noteq> None \<Longrightarrow> ipc_run E x (map Client_Sends cs) (d, pend, st) =
     (d, pend, st\<lparr>lev_calls := map (Bev_Write x) (rev cs) @ lev_calls st\<rparr>)"
  by (induction cs arbitrary: st) (auto simp: ipc_read_cb_def lev_call_def)

lemma ipc_run_answers:
  "ipc_cli d = Some cl \<Longrightarrow> ipc_run E x (map Partner_Sends cs) (d, [], st) =
     (d, [], st\<lparr>os_calls := map (Cli_Write cl) (rev cs) @ os_calls st\<rparr>)"
  by (induction cs arbitrary: st) (auto simp: ipc_on_data_def note_call_def)

lemma to_partner_writes: "to_partner x (map (Bev_Write x) (rev cs) @ h) = to_partner x h @ concat cs"
  by (induction cs rule: rev_induct) simp_all

lemma to_clients_writes: "to_clients (map (Cli_Write cl) (rev cs) @ h) = to_clients h @ concat cs"
  by (induction cs rule: rev_induct) simp_all

lemma ipc_run_upstream:
  assumes "ipc_cli d \<noteq> None"
  shows "\<exists>st'. ipc_run E x (map Client_Sends cs) (d, pend, st) = (d, pend, st') \<and>
    to_partner x (lev_calls st') = to_partner x (lev_calls st) @ concat cs \<and> os_calls st' = os_calls st"
  by (simp add: ipc_run_sends [OF assms] to_partner_writes)

lemma ipc_run_downstream:
  assumes "ipc_cli d = Some cl"
  shows "\<exists>st'. ipc_run E x (map Partner_Sends cs) (d, [], st) = (d, [], st') \<and>
    to_clients (os_calls st') = to_clients (os_calls st) @ concat cs"
  by (simp add: ipc_run_answers [OF assms] to_clients_writes)

end
