(* ===== verification/Ep.thy ===== *)
theory Ep
  imports Ep_Loop Ep_Tty Ep_Ipc
begin

section \<open>The endpoint interface (src/src/ep.c, and the dispatch of src/src/ep_core.c)\<close>

text \<open>
  The operations of an endpoint are those of its type; \<open>ep_ops\<close> names the seven tables and
  \<open>ep_ops_list\<close> is the array that maps a type to its table. The private data is the structure
  of the respective endpoint file.
\<close>

datatype ep_ops = Ipc_Ops | Tty_Ops | Gpio_Ops | Spi_Ops | I2c_Ops | Sysfs_Ops | Loop_Ops

datatype ep_priv =
    Ipc_Priv ipc_data
  | Tty_Priv tty_data
  | Gpio_Priv gpio_data
  | Spi_Priv spi_data
  | I2c_Priv i2c_data
  | Sysfs_Priv sysfs_data
  | Loop_Priv nat

type_synonym rsys = "ep_priv lrte"

definition ep_ops_list :: "nat \<Rightarrow> ep_ops option" where
  "ep_ops_list type =
     (if type = EP_IPC then Some Ipc_Ops
      else if type = EP_TTY then Some Tty_Ops
      else if type = EP_GPIO then Some Gpio_Ops
      else if type = EP_SPI then Some Spi_Ops
      else if type = EP_I2C then Some I2c_Ops
      else if type = EP_SYSFS then Some Sysfs_Ops
      else if type = EP_INET then Some Ipc_Ops
      else if type = EP_LOOP then Some Loop_Ops
      else None)"

definition ops_compatible :: "ep_ops \<Rightarrow> nat \<Rightarrow> bool" where
  "ops_compatible ops =
     (case ops of
        Ipc_Ops \<Rightarrow> ipc_compatible | Tty_Ops \<Rightarrow> tty_compatible | Gpio_Ops \<Rightarrow> gpio_compatible
      | Spi_Ops \<Rightarrow> spidev_compatible | I2c_Ops \<Rightarrow> i2c_compatible | Sysfs_Ops \<Rightarrow> sysfs_compatible
      | Loop_Ops \<Rightarrow> loop_compatible)"

definition type_to_str :: "nat \<Rightarrow> string" where
  "type_to_str type =
     (case find (\<lambda>e. fst e = type)
        [(EP_IPC, ''IPC''), (EP_TTY, ''TTY''), (EP_GPIO, ''GPIO''), (EP_SPI, ''SPI''),
         (EP_I2C, ''I2C''), (EP_SYSFS, ''SYSFS''), (EP_INET, ''INET'')] of
        None \<Rightarrow> ''UNKNOWN''
      | Some e \<Rightarrow> snd e)"

text \<open>\<open>self->data = data\<close> at the end of every successful open is the second component.\<close>

definition as_priv ::
  "('x \<Rightarrow> ep_priv) \<Rightarrow> int \<times> 'x option \<times> 's \<Rightarrow> int \<times> ep_priv option \<times> 's" where
  "as_priv f = (\<lambda>(r, d, st). (r, map_option f d, st))"

definition ops_open ::
  "os \<Rightarrow> ep_ops \<Rightarrow> nat \<Rightarrow> addr \<Rightarrow> string \<Rightarrow> rsys \<Rightarrow> (int \<times> ep_priv option \<times> rsys) outcome" where
  "ops_open E ops type self path st =
     (case ops of
        Ipc_Ops \<Rightarrow> and_then (ipc_open E type path st) (\<lambda>x. Inr (as_priv Ipc_Priv x))
      | Tty_Ops \<Rightarrow> and_then (tty_open E path st) (\<lambda>x. Inr (as_priv Tty_Priv x))
      | Gpio_Ops \<Rightarrow> and_then (gpio_open E path st) (\<lambda>x. Inr (as_priv Gpio_Priv x))
      | Spi_Ops \<Rightarrow> and_then (spidev_open E path st) (\<lambda>x. Inr (as_priv Spi_Priv x))
      | I2c_Ops \<Rightarrow> Inr (as_priv I2c_Priv (i2c_open E path st))
      | Sysfs_Ops \<Rightarrow> and_then (sysfs_open E path st) (\<lambda>x. Inr (as_priv Sysfs_Priv x))
      | Loop_Ops \<Rightarrow> Inr (as_priv Loop_Priv (loop_open E self path st)))"

text \<open>
  A table applied to private data of another kind would read a foreign structure, and one
  applied to no data at all a NULL pointer.
\<close>

definition ops_close :: "ep_ops \<Rightarrow> ep_priv option \<Rightarrow> rsys \<Rightarrow> rsys outcome" where
  "ops_close ops data st =
     (case (ops, data) of
        (_, None) \<Rightarrow> Inl Null_Deref
      | (Ipc_Ops, Some (Ipc_Priv d)) \<Rightarrow> Inr (ipc_close d st)
      | (Tty_Ops, Some (Tty_Priv d)) \<Rightarrow> Inr (tty_close d st)
      | (Gpio_Ops, Some (Gpio_Priv d)) \<Rightarrow> Inr (gpio_close d st)
      | (Spi_Ops, Some (Spi_Priv d)) \<Rightarrow> Inr (spidev_close d st)
      | (I2c_Ops, Some (I2c_Priv d)) \<Rightarrow> Inr (i2c_close d st)
      | (Sysfs_Ops, Some (Sysfs_Priv d)) \<Rightarrow> Inr (sysfs_close d st)
      | (Loop_Ops, Some (Loop_Priv p)) \<Rightarrow> loop_close p st
      | _ \<Rightarrow> Inl Dangling)"

text \<open>
  What the callbacks need from outside: malloc, the system, libevent, the kernel's write, and
  the functions registered with \<open>rteipc_xfer_setcb\<close>.
\<close>

record outside =
  mem :: "nat \<Rightarrow> bool"
  osys :: os
  levent :: lev
  kwrite :: "os_call list \<Rightarrow> nat \<Rightarrow> byte list \<Rightarrow> write_result"
  lo_fun :: "rsys lo_call"

definition ops_on_data ::
  "outside \<Rightarrow> ep_ops \<Rightarrow> ep_priv option \<Rightarrow> bev option \<Rightarrow> rsys \<Rightarrow> byte list \<Rightarrow>
   (rsys \<times> byte list) outcome" where
  "ops_on_data X ops data self_bev st inp =
     (case (ops, data) of
        (_, None) \<Rightarrow> Inl Null_Deref
      | (Ipc_Ops, Some (Ipc_Priv d)) \<Rightarrow> Inr (ipc_on_data d st inp)
      | (Tty_Ops, Some (Tty_Priv d)) \<Rightarrow> tty_on_data (mem X) (kwrite X) d st inp
      | (Gpio_Ops, Some (Gpio_Priv d)) \<Rightarrow> gpio_on_data (mem X) d st inp
      | (Spi_Ops, Some (Spi_Priv d)) \<Rightarrow> spidev_on_data (mem X) (osys X) (levent X) d self_bev st inp
      | (I2c_Ops, Some (I2c_Priv d)) \<Rightarrow> i2c_on_data (mem X) (osys X) (levent X) d self_bev st inp
      | (Sysfs_Ops, Some (Sysfs_Priv d)) \<Rightarrow> sysfs_on_data (mem X) (osys X) (levent X) d self_bev st inp
      | (Loop_Ops, Some (Loop_Priv p)) \<Rightarrow> loop_on_data (mem X) (lo_fun X) p st inp
      | _ \<Rightarrow> Inl Dangling)"

text \<open>The read callback of a bound bufferevent; \<open>inp\<close> is what its input buffer holds.\<close>

definition read_cb :: "outside \<Rightarrow> addr \<Rightarrow> rsys \<Rightarrow> byte list \<Rightarrow> (rsys \<times> byte list) outcome" where
  "read_cb X ep st inp =
     and_then (deref (cores st) (Some ep)) (\<lambda>c.
     (case ep_ops_list (ep_type c) of
        None \<Rightarrow> Inl Null_Deref
      | Some ops \<Rightarrow> ops_on_data X ops (ep_data c) (ep_bev c) st inp))"

definition type_compatible :: "nat \<Rightarrow> (nat \<Rightarrow> bool) option" where
  "type_compatible type = map_option ops_compatible (ep_ops_list type)"

definition rteipc_bind :: "lev \<Rightarrow> int \<Rightarrow> int \<Rightarrow> rsys \<Rightarrow> (int \<times> rsys) outcome" where
  "rteipc_bind L lh rh st =
     (case (find_endpoint st lh, find_endpoint st rh) of
        (Some le, Some re) \<Rightarrow>
          if le = re then Inr (-1, st)
          else
            and_then (deref (cores st) (Some le)) (\<lambda>lc.
            and_then (deref (cores st) (Some re)) (\<lambda>rc.
            if ep_compatible (type_compatible (ep_type lc)) (ep_type lc)
                 (type_compatible (ep_type rc)) (ep_type rc) = 0 then Inr (-1, st)
            else bind_endpoint L le re st))
      | _ \<Rightarrow> Inr (-1, st))"

definition rteipc_unbind :: "lev \<Rightarrow> int \<Rightarrow> rsys \<Rightarrow> rsys outcome" where
  "rteipc_unbind L i st =
     (case find_endpoint st i of
        None \<Rightarrow> Inr st
      | Some ep \<Rightarrow> unbind_endpoint L ep st)"

text \<open>
  \<open>sscanf(uri, "%[^:]://%99[^\n]", protocol, path)\<close> into arrays of 16 and 128 characters.
\<close>

definition uri_scan :: "string \<Rightarrow> (string \<times> string) outcome" where
  "uri_scan uri =
     (case scan_not '':'' uri of
        None \<Rightarrow> Inr ([], [])
      | Some (p, s1) \<Rightarrow> and_then (fit 16 p) (\<lambda>protocol.
          (case Option.bind (scan_lit ''://'' s1) (scan_not_width 99 [CHR 0x0A]) of
             None \<Rightarrow> Inr (protocol, [])
           | Some (path, _) \<Rightarrow> Inr (protocol, path))))"

definition protocol_type :: "string \<Rightarrow> nat option" where
  "protocol_type protocol =
     (if protocol = ''ipc'' then Some EP_IPC
      else if protocol = ''inet'' then Some EP_INET
      else if protocol = ''tty'' then Some EP_TTY
      else if protocol = ''gpio'' then Some EP_GPIO
      else if protocol = ''spi'' then Some EP_SPI
      else if protocol = ''i2c'' then Some EP_I2C
      else if protocol = ''sysfs'' then Some EP_SYSFS
      else None)"

text \<open>The type and the path that a URI selects, \<open>None\<close> for an unknown protocol.\<close>

definition uri_target :: "string \<Rightarrow> (nat \<times> string) option outcome" where
  "uri_target uri =
     and_then (uri_scan uri) (\<lambda>(protocol, path).
     if \<not> strstr uri ''://'' then
       and_then (read_str (strncpy 128 uri)) (\<lambda>name. Inr (Some (EP_LOOP, name)))
     else Inr (map_option (\<lambda>type. (type, path)) (protocol_type protocol)))"

definition rteipc_open :: "outside \<Rightarrow> string \<Rightarrow> rsys \<Rightarrow> (int \<times> rsys) outcome" where
  "rteipc_open X uri st =
     and_then (uri_target uri) (\<lambda>target.
     (case target of
        None \<Rightarrow> Inr (-1, st)
      | Some (type, path) \<Rightarrow>
          (case allocate_endpoint (mem X 48) type st of
             (None, st1) \<Rightarrow> Inr (-1, st1)
           | (Some ep, st1) \<Rightarrow>
               and_then (register_endpoint (mem X 128) (mem X 32) ep st1) (\<lambda>(i, st2).
               if i < 0 then and_then (destroy_endpoint ep st2) (\<lambda>st3. Inr (-1, st3))
               else (case ep_ops_list type of
                       None \<Rightarrow> Inl Null_Deref
                     | Some ops \<Rightarrow>
                         and_then (ops_open (osys X) ops type ep path st2) (\<lambda>(r, d, st3).
                         if r \<noteq> 0 then
                           and_then (unregister_endpoint (levent X) ep st3) (\<lambda>st4.
                           and_then (destroy_endpoint ep st4) (\<lambda>st5. Inr (-1, st5)))
                         else
                           and_then (set_core ep (\<lambda>c. c\<lparr>ep_data := d\<rparr>) st3) (\<lambda>st4.
                           Inr (i, st4))))))))"

definition rteipc_close :: "outside \<Rightarrow> int \<Rightarrow> rsys \<Rightarrow> rsys outcome" where
  "rteipc_close X i st =
     (case find_endpoint st i of
        None \<Rightarrow> Inr st
      | Some ep \<Rightarrow>
          and_then (deref (cores st) (Some ep)) (\<lambda>c.
          and_then
            (case ep_ops_list (ep_type c) of
               None \<Rightarrow> Inr st
             | Some ops \<Rightarrow> ops_close ops (ep_data c) st)
            (\<lambda>st1.
          and_then (unregister_endpoint (levent X) ep st1) (destroy_endpoint ep))))"

end
