(* ===== verification/Connect.thy ===== *)
theory Connect
  imports Ep
begin

section \<open>Connections of a client process (src/src/connect.c)\<close>

text \<open>
  A process reaches an IPC or INET endpoint through a context: a block from malloc that holds
  the bufferevent of its socket and, once \<open>rteipc_setcb\<close> has been called, two callbacks, their
  argument and a flag. malloc does not clear the block, so the fields are \<open>None\<close> until they are
  written. Contexts are found by a descriptor in a table of 256; the bufferevent carries the
  descriptor as the argument of its callbacks.

  The mutex of the file is not recursive: a thread that locks it twice waits for itself
  (\<open>Hangs\<close>). libevent is a log of calls and their answers (\<open>sock_new\<close>, \<open>sock_connect\<close>,
  \<open>sock_status\<close>); \<open>sock_connect\<close> also says which events libevent reports from within
  \<open>bufferevent_socket_connect\<close>. The functions of the client behind the callbacks are arguments.
\<close>

datatype cn_call =
    Sock_New nat
  | Sock_Setcb nat int
  | Sock_Enable nat
  | Sock_Connect nat "byte list" nat
  | Sock_Write nat "byte list"
  | Sock_Free nat
  | Loop_Break

record rteipc_ctx =
  cx_bev :: "nat option"
  cx_cbs :: "(nat option \<times> nat option \<times> nat \<times> 16 word) option"

record cn = base_state +
  ctx_tbl :: "nat dtbl"
  ctxs :: "nat \<rightharpoonup> rteipc_ctx"
  ctx_locked :: bool
  cn_calls :: "cn_call list"

record client =
  cl_mem :: "nat \<Rightarrow> bool"
  cl_os :: os
  sock_new :: "cn_call list \<Rightarrow> nat option"
  sock_connect :: "cn_call list \<Rightarrow> nat \<Rightarrow> byte list \<Rightarrow> nat \<Rightarrow> int \<times> 16 word list"
  sock_status :: "cn_call list \<Rightarrow> nat \<Rightarrow> byte list \<Rightarrow> int"
  on_read :: "nat \<Rightarrow> int \<Rightarrow> byte list \<Rightarrow> nat \<Rightarrow> nat \<Rightarrow> cn \<Rightarrow> cn outcome"
  on_err :: "nat \<Rightarrow> int \<Rightarrow> 16 word \<Rightarrow> nat \<Rightarrow> cn \<Rightarrow> cn outcome"

definition MAX_NR_CN :: nat where
  "MAX_NR_CN = MAX_NR_EP * 2"

definition cn_call :: "cn_call \<Rightarrow> cn \<Rightarrow> cn" where
  "cn_call c st = st\<lparr>cn_calls := c # cn_calls st\<rparr>"

definition lock :: "cn \<Rightarrow> cn outcome" where
  "lock st = (if ctx_locked st then Inl Hangs else Inr (st\<lparr>ctx_locked := True\<rparr>))"

definition unlock :: "cn \<Rightarrow> cn" where
  "unlock st = st\<lparr>ctx_locked := False\<rparr>"

definition set_ctx :: "nat \<Rightarrow> (rteipc_ctx \<Rightarrow> rteipc_ctx) \<Rightarrow> cn \<Rightarrow> cn outcome" where
  "set_ctx a f st =
     and_then (deref (ctxs st) (Some a)) (\<lambda>c. Inr (st\<lparr>ctxs := (ctxs st)(a \<mapsto> f c)\<rparr>))"

definition free_ctx :: "nat \<Rightarrow> cn \<Rightarrow> cn outcome" where
  "free_ctx a st =
     and_then (deref (ctxs st) (Some a)) (\<lambda>_.
     Inr (note_call (Free a) (st\<lparr>ctxs := (ctxs st)(a := None)\<rparr>)))"

text \<open>The fields that only \<open>rteipc_setcb\<close> writes.\<close>

definition read_cbs ::
  "rteipc_ctx \<Rightarrow> (nat option \<times> nat option \<times> nat \<times> 16 word) outcome" where
  "read_cbs c = (case cx_cbs c of None \<Rightarrow> Inl Uninitialised | Some s \<Rightarrow> Inr s)"

definition read_bev :: "rteipc_ctx \<Rightarrow> nat outcome" where
  "read_bev c = (case cx_bev c of None \<Rightarrow> Inl Uninitialised | Some b \<Rightarrow> Inr b)"


subsection \<open>Callbacks\<close>

abbreviation (input) BEV_EVENT_EOF :: "16 word" where "BEV_EVENT_EOF \<equiv> 0x10"
abbreviation (input) BEV_EVENT_ERROR :: "16 word" where "BEV_EVENT_ERROR \<equiv> 0x20"
abbreviation (input) BEV_EVENT_CONNECTED :: "16 word" where "BEV_EVENT_CONNECTED \<equiv> 0x80"

text \<open>The error callback runs while the mutex is held, before the context is freed.\<close>

definition connect_event_cb ::
  "client \<Rightarrow> nat \<Rightarrow> int \<Rightarrow> 16 word \<Rightarrow> cn \<Rightarrow> cn outcome" where
  "connect_event_cb X bev key events st =
     (if events AND BEV_EVENT_CONNECTED \<noteq> 0 then Inr st
      else
        and_then (lock st) (\<lambda>st1.
        (let ctx = dtbl_get (ctx_tbl st1) key in
         if events AND (BEV_EVENT_EOF OR BEV_EVENT_ERROR) \<noteq> 0 then
           and_then (dtbl_del (ctx_tbl st1) key) (\<lambda>tbl.
           (let st2 = cn_call (Sock_Free bev) (st1\<lparr>ctx_tbl := tbl\<rparr>) in
            and_then (deref (ctxs st2) ctx) (\<lambda>c.
            and_then (read_cbs c) (\<lambda>(_, ecb, arg, _).
            and_then
              (case ecb of None \<Rightarrow> Inr st2 | Some cb \<Rightarrow> on_err X cb key events arg st2) (\<lambda>st3.
            and_then (free_ctx (the ctx) st3) (\<lambda>st4.
            Inr (unlock (cn_call Loop_Break st4))))))))
         else Inr (unlock st1))))"

definition connect_handle ::
  "client \<Rightarrow> int \<Rightarrow> nat \<Rightarrow> byte list \<Rightarrow> cn \<Rightarrow> cn outcome" where
  "connect_handle X key len msg st =
     and_then (deref (ctxs st) (dtbl_get (ctx_tbl st) key)) (\<lambda>c.
     and_then (read_cbs c) (\<lambda>(rcb, _, arg, _).
     (case rcb of
        None \<Rightarrow> Inr st
      | Some cb \<Rightarrow> on_read X cb key msg len arg st)))"

definition connect_read_cb ::
  "client \<Rightarrow> int \<Rightarrow> cn \<Rightarrow> byte list \<Rightarrow> (cn \<times> byte list) outcome" where
  "connect_read_cb X key st inp =
     and_then (lock st) (\<lambda>st1.
     and_then (drain_loop (cl_mem X) (connect_handle X key) st1 inp) (\<lambda>(st2, rest).
     Inr (unlock st2, rest)))"

definition rteipc_setcb ::
  "int \<Rightarrow> nat option \<Rightarrow> nat option \<Rightarrow> nat \<Rightarrow> 16 word \<Rightarrow> cn \<Rightarrow> (int \<times> cn) outcome" where
  "rteipc_setcb key rcb ecb arg flag st =
     and_then (lock st) (\<lambda>st1.
     (case dtbl_get (ctx_tbl st1) key of
        None \<Rightarrow> Inr (-1, unlock st1)
      | Some ctx \<Rightarrow>
          and_then (set_ctx ctx (\<lambda>c. c\<lparr>cx_cbs := Some (rcb, ecb, arg, flag)\<rparr>) st1) (\<lambda>st2.
          Inr (0, unlock st2))))"


subsection \<open>Sending\<close>

definition sock_write :: "client \<Rightarrow> nat \<Rightarrow> byte list \<Rightarrow> cn \<Rightarrow> int \<times> cn" where
  "sock_write X b bytes st = (sock_status X (cn_calls st) b bytes, cn_call (Sock_Write b bytes) st)"

definition rteipc_send :: "client \<Rightarrow> int \<Rightarrow> byte list \<Rightarrow> cn \<Rightarrow> (int \<times> cn) outcome" where
  "rteipc_send X key data st =
     (case dtbl_get (ctx_tbl st) key of
        None \<Rightarrow> Inr (-1, st)
      | Some ctx \<Rightarrow>
          and_then (deref (ctxs st) (Some ctx)) (\<lambda>c.
          and_then (read_bev c) (\<lambda>b. Inr (rteipc_buffer (sock_write X b) data st))))"

definition rteipc_evsend :: "client \<Rightarrow> int \<Rightarrow> byte list \<Rightarrow> cn \<Rightarrow> (int \<times> cn) outcome" where
  "rteipc_evsend X key buf st =
     (case dtbl_get (ctx_tbl st) key of
        None \<Rightarrow> Inr (-1, st)
      | Some ctx \<Rightarrow>
          and_then (deref (ctxs st) (Some ctx)) (\<lambda>c.
          and_then (read_bev c) (\<lambda>b. Inr (rteipc_evbuffer (sock_write X b) buf st))))"

definition rteipc_gpio_send :: "client \<Rightarrow> int \<Rightarrow> byte \<Rightarrow> cn \<Rightarrow> (int \<times> cn) outcome" where
  "rteipc_gpio_send X key value st =
     (let v = (if value > 1 then 1 else value) in rteipc_evsend X key [v] st)"

definition rteipc_spi_send ::
  "client \<Rightarrow> int \<Rightarrow> byte list option \<Rightarrow> 16 word \<Rightarrow> bool \<Rightarrow> cn \<Rightarrow> (int \<times> cn) outcome" where
  "rteipc_spi_send X key data len rdmode st =
     (let rdflag = (if rdmode then 1 else 0)
      in and_then (add_data data len) (\<lambda>tx.
         rteipc_evsend X key (le16 len @ [rdflag] @ tx) st))"

definition rteipc_i2c_send ::
  "client \<Rightarrow> int \<Rightarrow> 16 word \<Rightarrow> byte list option \<Rightarrow> 16 word \<Rightarrow> 16 word \<Rightarrow> cn \<Rightarrow>
   (int \<times> cn) outcome" where
  "rteipc_i2c_send X key addr data wlen rlen st =
     and_then (add_data data wlen) (\<lambda>tx.
     rteipc_evsend X key (le16 addr @ le16 wlen @ le16 rlen @ tx) st)"

definition rteipc_sysfs_send ::
  "client \<Rightarrow> int \<Rightarrow> string option \<Rightarrow> string option \<Rightarrow> cn \<Rightarrow> (int \<times> cn) outcome" where
  "rteipc_sysfs_send X key attr val st =
     (case attr of
        None \<Rightarrow> Inr (-1, st)
      | Some a \<Rightarrow>
          (let buf = bytes_of a @ (case val of None \<Rightarrow> [] | Some v \<Rightarrow> bytes_of (''='' @ v))
           in rteipc_evsend X key buf st))"


subsection \<open>Connecting\<close>

text \<open>
  The socket address of a URI: \<open>sscanf(path, "%[^:]:%[^:]", sip, sport)\<close> into arrays of 16 and
  6 characters for INET; for IPC the path, at most 99 characters, in the 108 of \<open>sun_path\<close>,
  where an at sign in front stands for an abstract name. \<open>None\<close> is a jump to \<open>free_ctx\<close>.
\<close>

definition inet_sockaddr ::
  "os \<Rightarrow> string \<Rightarrow> 'z os_state_scheme \<Rightarrow> ((byte list \<times> nat) option \<times> 'z os_state_scheme) outcome" where
  "inet_sockaddr E path st =
     and_then
       (case scan_not '':'' path of
          None \<Rightarrow> Inr ([], [])
        | Some (i, s1) \<Rightarrow> and_then (fit 16 i) (\<lambda>sip.
            (case Option.bind (scan_lit '':'' s1) (scan_not '':'') of
               None \<Rightarrow> Inr (sip, [])
             | Some (p, _) \<Rightarrow> and_then (fit 6 p) (\<lambda>sport. Inr (sip, sport)))))
       (\<lambda>(sip, sport).
         (case sys (os_data E) (Inet_Pton sip) st of
            (None, st1) \<Rightarrow> Inr (None, st1)
          | (Some ip, st1) \<Rightarrow>
              if sport = [] then Inr (None, st1)
              else (let (port, err) = strtol10 sport
                    in if err then Inr (None, st1)
                       else Inr (Some (le16 2 @ be16 (word_of_int port) @ ip @ replicate 8 0, 16), st1))))"

definition unix_sockaddr :: "string \<Rightarrow> byte list \<times> nat" where
  "unix_sockaddr path =
     (let sun_path = take 107 path @ replicate (108 - min 107 (length path)) NUL;
          addrlen = 2 + length path + 1
      in if hd sun_path = CHR ''@'' then (le16 1 @ bytes_of (NUL # tl sun_path), addrlen - 1)
         else (le16 1 @ bytes_of sun_path, addrlen))"

definition give_up :: "nat \<Rightarrow> nat \<Rightarrow> cn \<Rightarrow> (int \<times> cn) outcome" where
  "give_up ctx bev st = and_then (free_ctx ctx st) (\<lambda>st'. Inr (-1, cn_call (Sock_Free bev) st'))"

definition register_ctx ::
  "client \<Rightarrow> nat \<Rightarrow> nat \<Rightarrow> cn \<Rightarrow> (int \<times> cn) outcome" where
  "register_ctx X ctx bev st =
     and_then (lock st) (\<lambda>st1.
     (case dtbl_set (cl_mem X 256) (cl_mem X 32) (ctx_tbl st1) ctx of
        (key, tbl) \<Rightarrow>
          (let st2 = st1\<lparr>ctx_tbl := tbl\<rparr> in
           if key < 0 then Inr (key, unlock st2)
           else and_then (set_ctx ctx (\<lambda>c. c\<lparr>cx_bev := Some bev\<rparr>) st2) (\<lambda>st3.
             Inr (key, unlock (cn_call (Sock_Enable bev) (cn_call (Sock_Setcb bev key) st3)))))))"

definition rteipc_connect :: "client \<Rightarrow> string \<Rightarrow> cn \<Rightarrow> (int \<times> cn) outcome" where
  "rteipc_connect X uri st =
     and_then (uri_scan uri) (\<lambda>(protocol, path).
     if protocol \<noteq> ''ipc'' \<and> protocol \<noteq> ''inet'' then Inr (-1, st)
     else
       (case sock_new X (cn_calls st) of
          None \<Rightarrow> Inr (-1, st)
        | Some bev \<Rightarrow>
            (case sys (os_ptr (cl_os X)) (Malloc 40) (cn_call (Sock_New bev) st) of
               (None, st1) \<Rightarrow> Inr (-1, cn_call (Sock_Free bev) st1)
             | (Some ctx, st1) \<Rightarrow>
                 (let st2 = st1\<lparr>ctxs := (ctxs st1)(ctx \<mapsto> \<lparr>cx_bev = None, cx_cbs = None\<rparr>)\<rparr> in
                  and_then
                    (if protocol = ''inet'' then inet_sockaddr (cl_os X) path st2
                     else Inr (Some (unix_sockaddr path), st2)) (\<lambda>(sa, st3).
                  (case sa of
                     None \<Rightarrow> give_up ctx bev st3
                   | Some (addr, addrlen) \<Rightarrow>
                       and_then (register_ctx X ctx bev st3) (\<lambda>(key, st4).
                       if key < 0 then give_up ctx bev st4
                       else
                         (case sock_connect X (cn_calls st4) bev addr addrlen of
                            (err, events) \<Rightarrow>
                              and_then
                                (each (connect_event_cb X bev key) events
                                   (cn_call (Sock_Connect bev addr addrlen) st4)) (\<lambda>st5.
                              Inr (if err < 0 then -1 else key, st5))))))))))"

lemmas cn_defs = cn_call_def lock_def unlock_def set_ctx_def free_ctx_def read_cbs_def
  read_bev_def give_up_def os_defs


subsection \<open>Receiving\<close>

text \<open>What one message is meant to do: the callback runs on it, under the mutex.\<close>

definition receive :: "client \<Rightarrow> int \<Rightarrow> byte list \<Rightarrow> cn \<Rightarrow> cn outcome" where
  "receive X key m st =
     and_then (lock st) (\<lambda>st1.
     and_then (connect_handle X key (length m) m st1) (\<lambda>st2. Inr (unlock st2)))"

definition keeps_lock :: "client \<Rightarrow> bool" where
  "keeps_lock X \<longleftrightarrow>
     (\<forall>cb key m n arg s s'. on_read X cb key m n arg s = Inr s' \<longrightarrow> ctx_locked s' = ctx_locked s)"

lemma handle_keeps_lock:
  "keeps_lock X \<Longrightarrow> connect_handle X key n m s = Inr s' \<Longrightarrow> ctx_locked s' = ctx_locked s"
  by (auto simp: connect_handle_def keeps_lock_def and_then_eq_Inr split: option.splits)

lemma unlock_unlocked [simp]: "\<not> ctx_locked (unlock s)"
  by (simp add: unlock_def)

lemma client_feed:
  assumes "keeps_lock X" and "\<not> ctx_locked st" and "cl_mem X = (\<lambda>_. True)"
    and "\<forall>m \<in> set ms. sendable m" and "concat chunks = concat (map frame ms)"
  shows "feed (connect_read_cb X key) st [] chunks =
    and_then (each (receive X key) ms st) (\<lambda>st'. Inr (st', []))"
  by (rule feed_bracketed [where I = "\<lambda>s. \<not> ctx_locked s" and L = ctx_locked and h = "connect_handle X key" and
        enter = "\<lambda>s. s\<lparr>ctx_locked := True\<rparr>" and leave = unlock])
    (use assms handle_keeps_lock in \<open>auto simp: connect_read_cb_def receive_def lock_def unlock_def\<close>)

text \<open>
  A client's read callback sees exactly the messages its peer sent, whole, in order, each
  once, however the connection cuts them, and runs on each under the mutex of the contexts,
  which is free again afterwards.
\<close>

theorem client_receives:
  assumes "keeps_lock X" and "\<not> ctx_locked st" and "cl_mem X = (\<lambda>_. True)"
    and "\<forall>m \<in> set ms. sendable m" and "concat chunks = concat (map frame ms)"
  shows "feed (connect_read_cb X key) st [] chunks =
    and_then (each (receive X key) ms st) (\<lambda>st'. Inr (st', []))"
  using assms by (rule client_feed)

text \<open>A client whose callbacks send an echo, and one open connection.\<close>

definition echo_client :: client where
  "echo_client = \<lparr>cl_mem = (\<lambda>_. True), cl_os = counting_os, sock_new = (\<lambda>h. Some (length h)),
     sock_connect = (\<lambda>_ _ _ _. (0, [])), sock_status = (\<lambda>_ _ _. 0),
     on_read = (\<lambda>cb key m n arg s. Inr (cn_call (Sock_Write cb m) s)), on_err = (\<lambda>_ _ _ _ s. Inr s)\<rparr>"

definition idle_cn :: cn where
  "idle_cn = \<lparr>os_calls = [], base = Some 0, live_bases = {0}, base_calls = [],
     ctx_tbl = DTBL_INITIALIZER MAX_NR_CN, ctxs = Map.empty, ctx_locked = False, cn_calls = []\<rparr>"

lemma keeps_lock_echo: "keeps_lock echo_client"
  by (auto simp: keeps_lock_def echo_client_def cn_call_def)

theorem client_receives_witness:
  "feed (connect_read_cb echo_client 0) idle_cn [] [[0, 0], [0, 1, 7]] =
     and_then (receive echo_client 0 [7] idle_cn) (\<lambda>st'. Inr (st', []))"
proof -
  have "cl_mem echo_client = (\<lambda>_. True)" "\<not> ctx_locked idle_cn"
    by (simp_all add: echo_client_def idle_cn_def)
  moreover have "\<forall>m \<in> set [[7 :: byte]]. sendable m" by (simp add: sendable_def)
  moreover have "concat [[0, 0], [0, 1, 7 :: byte]] = concat (map frame [[7]])"
    by (simp add: frame_eq le32_def)
  ultimately have "feed (connect_read_cb echo_client 0) idle_cn [] [[0, 0], [0, 1, 7]] =
      and_then (each (receive echo_client 0) [[7]] idle_cn) (\<lambda>st'. Inr (st', []))"
    by (intro client_receives [OF keeps_lock_echo])
  then show ?thesis by (cases "receive echo_client 0 [7] idle_cn") simp_all
qed

text \<open>
  A callback must not set callbacks. The read callback runs while the mutex of the contexts
  is held, so a callback that calls \<open>rteipc_setcb\<close>, for whatever descriptor, waits for itself
  and the process hangs at the first message; sending from a callback takes no lock.
\<close>

theorem callback_deadlock:
  assumes "\<not> ctx_locked st" and "cl_mem X = (\<lambda>_. True)" and "sendable m"
    and "dtbl_get (ctx_tbl st) key = Some a" "ctxs st a = Some c"
    and "cx_cbs c = Some (Some cb, ecb, arg, flag)"
    and "\<And>s. on_read X cb key m (length m) arg s =
      and_then (rteipc_setcb other rcb' ecb' arg' flag' s) (\<lambda>r. Inr (snd r))"
  shows "connect_read_cb X key st (frame m @ rest) = Inl Hangs \<and>
    (\<forall>Y data s. rteipc_send Y other data (s\<lparr>ctx_locked := True\<rparr>) =
       and_then (rteipc_send Y other data (s\<lparr>ctx_locked := False\<rparr>)) (\<lambda>(r, s'). Inr (r, s'\<lparr>ctx_locked := True\<rparr>)))"
proof
  have "connect_handle X key (length m) m (st\<lparr>ctx_locked := True\<rparr>) = Inl Hangs"
    using assms(4-7) by (simp add: connect_handle_def read_cbs_def rteipc_setcb_def lock_def)
  then have "drain_loop (\<lambda>_. True) (connect_handle X key) (st\<lparr>ctx_locked := True\<rparr>) (frame m @ rest) = Inl Hangs"
    using assms(3) by (subst drain_loop.simps) (simp add: drain_frame)
  then show "connect_read_cb X key st (frame m @ rest) = Inl Hangs"
    using assms(1,2) by (simp add: connect_read_cb_def lock_def)
  show "\<forall>Y data s. rteipc_send Y other data (s\<lparr>ctx_locked := True\<rparr>) =
       and_then (rteipc_send Y other data (s\<lparr>ctx_locked := False\<rparr>)) (\<lambda>(r, s'). Inr (r, s'\<lparr>ctx_locked := True\<rparr>))"
    by (auto simp: rteipc_send_def read_bev_def deref_def rteipc_buffer_def rteipc_evbuffer_def
        sock_write_def cn_call_def split: option.splits)
qed

text \<open>
  The requests a client sends are those the endpoints read: each helper writes one message
  to the socket of its connection, which is the framed request of the respective endpoint with
  the arguments of the call.
\<close>

theorem send_requests:
  assumes "dtbl_get (ctx_tbl st) key = Some a" "ctxs st a = Some c" "cx_bev c = Some b"
    and "length tx < 2 ^ 16"
  shows "rteipc_i2c_send X key addr (Some tx) (of_nat (length tx)) rlen st =
      Inr (sock_write X b (frame (i2c_request (addr, tx, rlen))) st) \<and>
    rteipc_spi_send X key (Some tx) (of_nat (length tx)) rd st =
      Inr (sock_write X b (frame (spi_request (tx, rd))) st) \<and>
    rteipc_gpio_send X key v st = Inr (sock_write X b (frame (if v = 0 then [0] else [1])) st) \<and>
    rteipc_sysfs_send X key (Some at) w st = Inr (sock_write X b (frame (sysfs_request (at, w))) st)"
proof -
  have ev: "rteipc_evsend X key buf st = Inr (sock_write X b (frame buf) st)" for buf
    using assms by (simp add: rteipc_evsend_def read_bev_def rteipc_evbuffer_def)
  have "(if v > 1 then 1 else v) = (if v = 0 then 0 else 1)"
    by (auto simp: byte_gt_1)
  moreover have "bytes_of (x @ y) = bytes_of x @ bytes_of y" for x y by (simp add: bytes_of_def)
  ultimately show ?thesis
    using add_data_whole [OF assms(4)] ev
    by (auto simp: rteipc_i2c_send_def rteipc_spi_send_def rteipc_gpio_send_def
        rteipc_sysfs_send_def Let_def split: option.splits)
qed

text \<open>The state in which \<open>rteipc_connect\<close> hands the socket to libevent.\<close>

definition registered_cn :: "nat \<Rightarrow> nat \<Rightarrow> int \<Rightarrow> nat dtbl \<Rightarrow> cn \<Rightarrow> cn" where
  "registered_cn a b key tbl st =
     st\<lparr>os_calls := Malloc 40 # os_calls st, ctx_tbl := tbl,
        ctxs := (ctxs st)(a \<mapsto> \<lparr>cx_bev = Some b, cx_cbs = None\<rparr>), ctx_locked := False,
        cn_calls := [Sock_Enable b, Sock_Setcb b key, Sock_New b] @ cn_calls st\<rparr>"

lemma connect_ipc:
  assumes uri: "uri_scan uri = Inr (''ipc'', path)" and free: "\<not> ctx_locked st"
    and sock: "sock_new X (cn_calls st) = Some b"
    and mem: "os_ptr (cl_os X) (os_calls st) (Malloc 40) = Some a" "cl_mem X = (\<lambda>_. True)"
    and room: "first_lap (ctx_tbl st)" "length (registered (ctx_tbl st)) < capacity (ctx_tbl st)"
  defines "key \<equiv> int (length (registered (ctx_tbl st)))"
  shows "\<exists>tbl. first_lap tbl \<and> registered tbl = registered (ctx_tbl st) @ [a] \<and>
    capacity tbl = capacity (ctx_tbl st) \<and>
    (\<forall>err events. sock_connect X (cn_calls (registered_cn a b key tbl st)) b
         (fst (unix_sockaddr path)) (snd (unix_sockaddr path)) = (err, events) \<longrightarrow>
       rteipc_connect X uri st =
       and_then (each (connect_event_cb X b key) events
          (cn_call (Sock_Connect b (fst (unix_sockaddr path)) (snd (unix_sockaddr path)))
             (registered_cn a b key tbl st))) (\<lambda>st'. Inr (if err < 0 then -1 else key, st')))"
proof -
  from first_lap_set [OF room, of a] obtain tbl where
    tbl: "dtbl_set True True (ctx_tbl st) a = (key, tbl)" "first_lap tbl"
      "registered tbl = registered (ctx_tbl st) @ [a]" "capacity tbl = capacity (ctx_tbl st)"
    by (auto simp: key_def)
  have key: "\<not> key < 0" by (simp add: key_def)
  have "register_ctx X a b
      (st\<lparr>cn_calls := Sock_New b # cn_calls st, os_calls := Malloc 40 # os_calls st,
          ctxs := (ctxs st)(a \<mapsto> \<lparr>cx_bev = None, cx_cbs = None\<rparr>)\<rparr>) = Inr (key, registered_cn a b key tbl st)"
    using free mem(2) tbl(1) key
    by (simp add: register_ctx_def cn_defs registered_cn_def)
  then show ?thesis
    using tbl(2-4) uri sock mem(1) key
    by (intro exI [of _ tbl])
      (auto simp: rteipc_connect_def sys_def cn_call_def case_prod_beta)
qed

text \<open>
  A connection that cannot be made. When libevent reports the failure to the event callback,
  as the comment in \<open>rteipc_connect\<close> has it, the callback reads the error callback of a
  context that nobody has initialised; when libevent reports nothing, -1 is returned and
  neither the context nor the socket is ever released.
\<close>

theorem connect_failure:
  assumes uri: "uri_scan uri = Inr (''ipc'', path)" and free: "\<not> ctx_locked st"
    and sock: "sock_new X (cn_calls st) = Some b"
    and mem: "os_ptr (cl_os X) (os_calls st) (Malloc 40) = Some a" "cl_mem X = (\<lambda>_. True)"
    and room: "first_lap (ctx_tbl st)" "length (registered (ctx_tbl st)) < capacity (ctx_tbl st)"
    and fail: "\<And>h sa n. sock_connect X h b sa n = (-1, if reported then [BEV_EVENT_ERROR] else [])"
  shows "if reported then rteipc_connect X uri st = Inl Uninitialised
    else \<exists>st' key sa n. rteipc_connect X uri st = Inr (-1, st') \<and>
      ctxs st' = (ctxs st)(a \<mapsto> \<lparr>cx_bev = Some b, cx_cbs = None\<rparr>) \<and>
      os_calls st' = Malloc 40 # os_calls st \<and>
      cn_calls st' = [Sock_Connect b sa n, Sock_Enable b, Sock_Setcb b key, Sock_New b] @ cn_calls st"
proof -
  let ?key = "int (length (registered (ctx_tbl st)))"
  obtain tbl where tbl: "first_lap tbl" "registered tbl = registered (ctx_tbl st) @ [a]"
      and run: "rteipc_connect X uri st =
       and_then (each (connect_event_cb X b ?key) (if reported then [BEV_EVENT_ERROR] else [])
          (cn_call (Sock_Connect b (fst (unix_sockaddr path)) (snd (unix_sockaddr path)))
             (registered_cn a b ?key tbl st))) (\<lambda>st'. Inr (-1, st'))"
    using connect_ipc [OF uri free sock mem room] fail by auto
  have "dtbl_get tbl ?key = Some a" using first_lap_get [OF tbl(1), of ?key] tbl(2) by simp
  moreover obtain tbl' where "dtbl_del tbl ?key = Inr tbl'"
    using first_lap_del [OF tbl(1), of ?key] tbl(2) by auto
  ultimately have "connect_event_cb X b ?key BEV_EVENT_ERROR
      (cn_call (Sock_Connect b (fst (unix_sockaddr path)) (snd (unix_sockaddr path)))
             (registered_cn a b ?key tbl st)) = Inl Uninitialised"
    by (simp add: connect_event_cb_def cn_defs registered_cn_def Let_def)
  note event = this
  show ?thesis
  proof (cases reported)
    case True
    with run event show ?thesis by simp
  next
    case False
    with run show ?thesis by (auto simp: cn_call_def registered_cn_def)
  qed
qed

text \<open>
  C19: the life of a connection. A successful connection gets a new descriptor, on which
  callbacks can be set and data sent; when the peer hangs up, the socket is closed, then the error
  callback of the client runs, once and with the descriptor and the event (whatever calls it
  makes, as a function \<open>trace\<close> of the two), then the event loop is broken; the context is freed, so that
  everything the connection took is given back; but the descriptor still resolves to the freed context, and sending on it or
  setting callbacks uses freed memory.
\<close>

theorem connection_life_cycle:
  assumes uri: "uri_scan uri = Inr (''ipc'', path)" and free: "\<not> ctx_locked st"
    and sock: "sock_new X (cn_calls st) = Some b"
    and mem: "os_ptr (cl_os X) (os_calls st) (Malloc 40) = Some a" "cl_mem X = (\<lambda>_. True)"
      "ctxs st a = None"
    and room: "first_lap (ctx_tbl st)" "length (registered (ctx_tbl st)) < capacity (ctx_tbl st)"
    and ok: "\<And>h sa n. sock_connect X h b sa n = (0, [])"
    and ecb: "\<And>key ev s. on_err X cb key ev arg s = Inr (s\<lparr>cn_calls := trace key ev @ cn_calls s\<rparr>)"
  shows "\<exists>key st1 st2 st3. dtbl_get (ctx_tbl st) key = None \<and> rteipc_connect X uri st = Inr (key, st1) \<and>
    rteipc_setcb key rcb (Some cb) arg flag st1 = Inr (0, st2) \<and>
    (\<forall>data. rteipc_send X key data st2 = Inr (sock_write X b (frame data) st2)) \<and>
    connect_event_cb X b key BEV_EVENT_EOF st2 = Inr st3 \<and>
    ctxs st3 = ctxs st \<and> os_calls st3 = [Free a, Malloc 40] @ os_calls st \<and>
    cn_calls st3 = Loop_Break # trace key BEV_EVENT_EOF @ Sock_Free b # cn_calls st2 \<and> \<not> ctx_locked st3 \<and>
    rteipc_send X key data st3 = Inl Dangling \<and>
    rteipc_setcb key rcb (Some cb) arg flag st3 = Inl Dangling"
proof -
  define key where "key = int (length (registered (ctx_tbl st)))"
  obtain tbl sa n where tbl: "first_lap tbl" "registered tbl = registered (ctx_tbl st) @ [a]"
      and run: "rteipc_connect X uri st = Inr (key, cn_call (Sock_Connect b sa n) (registered_cn a b key tbl st))"
    using connect_ipc [OF uri free sock mem(1,2) room] ok by (auto simp: key_def)
  have new: "dtbl_get (ctx_tbl st) key = None"
    using first_lap_get [OF room(1), of key] by (simp add: key_def)
  have get: "dtbl_get tbl key = Some a"
    using first_lap_get [OF tbl(1), of key] tbl(2) by (simp add: key_def)
  obtain tbl' where del: "dtbl_del tbl key = Inr tbl'" "first_lap tbl'" "registered tbl' = registered tbl"
    using first_lap_del [OF tbl(1), of key] tbl(2) by (auto simp: key_def)
  have get': "dtbl_get tbl' key = Some a"
    using first_lap_get [OF del(2), of key] del(3) tbl(2) by (simp add: key_def)
  have undo: "(ctxs st)(a := None) = ctxs st" using mem(3) by (simp add: fun_upd_idem)
  define st1 where "st1 = cn_call (Sock_Connect b sa n) (registered_cn a b key tbl st)"
  define st2 where "st2 = st1\<lparr>ctxs := (ctxs st)(a \<mapsto> \<lparr>cx_bev = Some b, cx_cbs = Some (rcb, Some cb, arg, flag)\<rparr>)\<rparr>"
  define st3 where "st3 = st2\<lparr>ctx_tbl := tbl', ctxs := ctxs st, os_calls := Free a # os_calls st2,
    cn_calls := Loop_Break # trace key BEV_EVENT_EOF @ Sock_Free b # cn_calls st2\<rparr>"
  note state = st1_def st2_def st3_def registered_cn_def cn_defs
  have setcb: "rteipc_setcb key rcb (Some cb) arg flag st1 = Inr (0, st2)"
    using get by (simp add: rteipc_setcb_def state)
  have send: "rteipc_send X key d st2 = Inr (sock_write X b (frame d) st2)" for d
    using get by (simp add: rteipc_send_def state rteipc_buffer_def rteipc_evbuffer_def)
  have eof: "connect_event_cb X b key BEV_EVENT_EOF st2 = Inr st3"
    using get del(1) ecb undo by (simp add: connect_event_cb_def state Let_def)
  have stale: "rteipc_send X key data st3 = Inl Dangling"
      "rteipc_setcb key rcb (Some cb) arg flag st3 = Inl Dangling"
    using get' mem(3) by (simp_all add: rteipc_send_def rteipc_setcb_def state)
  show ?thesis
    by (intro exI [of _ key] exI [of _ st1] exI [of _ st2] exI [of _ st3])
      (use run new setcb send eof stale in \<open>simp add: state\<close>)
qed


subsection \<open>Small clients\<close>

text \<open>One open connection, descriptor 0, whose read callback is function 5.\<close>

definition open_cn :: cn where
  "open_cn = idle_cn\<lparr>ctx_tbl := snd (dtbl_set True True (DTBL_INITIALIZER MAX_NR_CN) 9),
     ctxs := [9 \<mapsto> \<lparr>cx_bev = Some 3, cx_cbs = Some (Some 5, None, 0, 0)\<rparr>]\<rparr>"

lemma empty_ctx_tbl:
  "length (registered (DTBL_INITIALIZER MAX_NR_CN :: nat dtbl)) < capacity (DTBL_INITIALIZER MAX_NR_CN :: nat dtbl)"
  by (simp add: registered_def DTBL_INITIALIZER_def capacity_def MAX_NR_CN_def MAX_NR_EP_def)

lemma open_cn_facts:
  "\<not> ctx_locked open_cn" "ctxs open_cn 9 = Some \<lparr>cx_bev = Some 3, cx_cbs = Some (Some 5, None, 0, 0)\<rparr>"
  "dtbl_get (ctx_tbl open_cn) 0 = Some 9"
proof -
  from first_lap_set [OF first_lap_init empty_ctx_tbl, of 9] obtain t where
    "ctx_tbl open_cn = t" "first_lap t" "registered t = [9]"
    by (auto simp: open_cn_def registered_def DTBL_INITIALIZER_def)
  then show "dtbl_get (ctx_tbl open_cn) 0 = Some 9" using first_lap_get [of t 0] by simp
qed (simp_all add: open_cn_def idle_cn_def)

definition setcb_client :: client where
  "setcb_client = echo_client\<lparr>on_read :=
     (\<lambda>cb key m n arg s. and_then (rteipc_setcb 0 None None 0 0 s) (\<lambda>r. Inr (snd r)))\<rparr>"

theorem callback_deadlock_witness:
  "\<forall>rest. connect_read_cb setcb_client 0 open_cn (frame [7] @ rest) = Inl Hangs"
  by (intro allI callback_deadlock [THEN conjunct1, OF open_cn_facts(1) _ _ open_cn_facts(3,2)])
    (simp_all add: setcb_client_def echo_client_def sendable_def)

theorem send_requests_witness:
  "\<forall>X. rteipc_i2c_send X 0 0x50 (Some [7]) (of_nat (length [7 :: byte])) 2 open_cn =
     Inr (sock_write X 3 (frame (i2c_request (0x50, [7], 2))) open_cn)"
  by (intro allI send_requests [THEN conjunct1, OF open_cn_facts(3,2)]) simp_all

definition failing_client :: client where
  "failing_client = echo_client\<lparr>sock_connect := (\<lambda>_ _ _ _. (-1, [BEV_EVENT_ERROR]))\<rparr>"

lemma idle_cn_facts:
  "\<not> ctx_locked idle_cn" "first_lap (ctx_tbl idle_cn)" "ctxs idle_cn a = None"
  "length (registered (ctx_tbl idle_cn)) < capacity (ctx_tbl idle_cn)"
  by (simp_all add: idle_cn_def empty_ctx_tbl)

lemma echo_scan: "uri_scan ''ipc://@x'' = Inr (''ipc'', ''@x'')"
  by (simp add: uri_scan_def scan_not_def scan_not_width_def)

theorem connect_failure_witness:
  "rteipc_connect failing_client ''ipc://@x'' idle_cn = Inl Uninitialised"
  using connect_failure [OF echo_scan idle_cn_facts(1) _ _ _ idle_cn_facts(2,4),
      of failing_client 0 0 True]
  by (simp add: failing_client_def echo_client_def idle_cn_def counting_os_def)

text \<open>A client whose error callback closes a second socket, of the number of the event.\<close>

definition tidy_client :: client where
  "tidy_client = echo_client\<lparr>on_err :=
     (\<lambda>cb key ev arg s. Inr (s\<lparr>cn_calls := [Sock_Free (unat ev)] @ cn_calls s\<rparr>))\<rparr>"

theorem connection_life_cycle_witness:
  "\<exists>key st1 st2 st3. rteipc_connect tidy_client ''ipc://@x'' idle_cn = Inr (key, st1) \<and>
     rteipc_setcb key None (Some 6) 0 0 st1 = Inr (0, st2) \<and>
     connect_event_cb tidy_client 0 key BEV_EVENT_EOF st2 = Inr st3 \<and>
     cn_calls st3 = [Loop_Break, Sock_Free (unat BEV_EVENT_EOF), Sock_Free 0] @ cn_calls st2 \<and>
     ctxs st3 = Map.empty \<and> rteipc_send tidy_client key [1] st3 = Inl Dangling"
proof -
  have "sock_new tidy_client (cn_calls idle_cn) = Some 0"
      "os_ptr (cl_os tidy_client) (os_calls idle_cn) (Malloc 40) = Some 0"
      "cl_mem tidy_client = (\<lambda>_. True)" "ctxs idle_cn = Map.empty"
    by (simp_all add: tidy_client_def echo_client_def idle_cn_def counting_os_def)
  note env = this
  have "sock_connect tidy_client h b sa n = (0, [])"
      "on_err tidy_client 6 key ev 0 s = Inr (s\<lparr>cn_calls := [Sock_Free (unat ev)] @ cn_calls s\<rparr>)"
    for h b sa n key ev s
    by (simp_all add: tidy_client_def echo_client_def)
  from connection_life_cycle [OF echo_scan idle_cn_facts(1) env(1,2,3) idle_cn_facts(3,2,4) this,
      of None 0 "[1]"] env(4)
  show ?thesis by simp blast
qed

end
