(* ===== verification/Rtemgr_Codec.thy ===== *)
theory Rtemgr_Codec
  imports Rtemgr_Wire Connect
begin

section \<open>Requests to managed interfaces (src/src/rtemgr/librtemgr.c, rtemgrd.c)\<close>

text \<open>
  The helpers with which a client encodes requests for an interface of the daemon, sends them,
  and decodes what comes back, and the daemon's reading of hexadecimal values. A function that
  returns an error code and stores its result through a pointer answers \<open>None\<close> for -1.
\<close>

definition encode_cmd :: "libs \<Rightarrow> int \<Rightarrow> string \<Rightarrow> rtecmd \<Rightarrow> byte list option outcome" where
  "encode_cmd Y domain name c =
     (case Option.bind (rtemgr_data_alloc Y) (rtemgr_data_alloc_interface Y) of
        None \<Rightarrow> Inr None
      | Some d \<Rightarrow>
          (let d1 = d\<lparr>cmd := c\<lparr>action := RTECMD_XFER\<rparr>,
                      interfaces := (interfaces d)[0 := (interfaces d ! 0)\<lparr>if_domain := domain,
                        if_name := strncpy 16 name\<rparr>]\<rparr>;
               bufsz = max 512 (unat (val_s c * 3 div 2))
           in if \<not> heap Y bufsz then Inr None else rtemgr_data_emit Y d1 bufsz))"

definition no_cmd :: rtecmd where
  "no_cmd = \<lparr>action = 0, cmd_error = 0, val_v = None, val_s = 0, extra_addr = 0, extra_rsize = 0\<rparr>"

definition rtemgr_encode_domain ::
  "libs \<Rightarrow> int \<Rightarrow> string \<Rightarrow> byte list option \<Rightarrow> 64 word \<Rightarrow> byte list option outcome" where
  "rtemgr_encode_domain Y domain name data len =
     (case data of
        None \<Rightarrow> Inr None
      | Some bs \<Rightarrow>
          if len = 0 then Inr None
          else if \<not> heap Y (unat len) then Inr None
          else if length bs < unat len then Inl Out_Of_Bounds
          else encode_cmd Y domain name (no_cmd\<lparr>val_s := len, val_v := Some (take (unat len) bs)\<rparr>))"

definition rtemgr_gpio_encode_domain ::
  "libs \<Rightarrow> int \<Rightarrow> string \<Rightarrow> byte \<Rightarrow> byte list option outcome" where
  "rtemgr_gpio_encode_domain Y domain name v =
     rtemgr_encode_domain Y domain name (Some (bytes_of (if v \<noteq> 0 then ''1'' else ''0''))) 1"

text \<open>\<open>evbuffer_add_printf(buf, "0x%02x ", data[i])\<close> for all \<open>i < len\<close>.\<close>

definition hex_text :: "byte list \<Rightarrow> string" where
  "hex_text bs = concat (map (\<lambda>b. ''0x'' @ show_02x b @ '' '') bs)"

definition rtemgr_spi_encode_domain ::
  "libs \<Rightarrow> int \<Rightarrow> string \<Rightarrow> byte list option \<Rightarrow> 16 word \<Rightarrow> bool \<Rightarrow> byte list option outcome" where
  "rtemgr_spi_encode_domain Y domain name data len rdmode =
     (case data of
        None \<Rightarrow> Inr None
      | Some bs \<Rightarrow>
          if len = 0 then Inr None
          else if length bs < unat len then Inl Out_Of_Bounds
          else (let s = bytes_of (butlast (hex_text (take (unat len) bs))) in
                if \<not> heap Y (length s) then Inr None
                else encode_cmd Y domain name
                  (no_cmd\<lparr>val_s := of_nat (length s), val_v := Some s,
                    extra_rsize := if rdmode then len else 0\<rparr>)))"

definition rtemgr_i2c_encode_domain ::
  "libs \<Rightarrow> int \<Rightarrow> string \<Rightarrow> 16 word \<Rightarrow> byte list option \<Rightarrow> 16 word \<Rightarrow> 16 word \<Rightarrow>
   byte list option outcome" where
  "rtemgr_i2c_encode_domain Y domain name addr data wlen rlen =
     (if (wlen = 0 \<and> rlen = 0) \<or> (wlen \<noteq> 0 \<and> data = None) then Inr None
      else if wlen = 0 then
        encode_cmd Y domain name (no_cmd\<lparr>extra_addr := addr, extra_rsize := rlen\<rparr>)
      else if length (the data) < unat wlen then Inl Out_Of_Bounds
      else (let s = bytes_of (butlast (hex_text (take (unat wlen) (the data)))) in
            if \<not> heap Y (length s) then Inr None
            else encode_cmd Y domain name
              (no_cmd\<lparr>val_s := of_nat (length s), val_v := Some s, extra_addr := addr, extra_rsize := rlen\<rparr>)))"

text \<open>\<open>snprintf\<close> into a buffer of 256 keeps the first 255 characters.\<close>

definition rtemgr_sysfs_encode_domain ::
  "libs \<Rightarrow> int \<Rightarrow> string \<Rightarrow> string option \<Rightarrow> string option \<Rightarrow> byte list option outcome" where
  "rtemgr_sysfs_encode_domain Y domain name attr newval =
     (case attr of
        None \<Rightarrow> Inr None
      | Some a \<Rightarrow>
          (let buf = take 255 (a @ (case newval of None \<Rightarrow> [] | Some v \<Rightarrow> ''='' @ v))
           in rtemgr_encode_domain Y domain name (Some (bytes_of buf)) (of_nat (length buf))))"

text \<open>The common end of the \<open>send\<close> functions: an encoding error is returned, or \<open>out\<close> is sent.\<close>

definition send_encoded :: "client \<Rightarrow> int \<Rightarrow> byte list option outcome \<Rightarrow> cn \<Rightarrow> (int \<times> cn) outcome" where
  "send_encoded X ctx enc st =
     and_then enc (\<lambda>r. case r of None \<Rightarrow> Inr (-1, st) | Some out \<Rightarrow> rteipc_send X ctx out st)"

definition rtemgr_send_domain ::
  "libs \<Rightarrow> client \<Rightarrow> int \<Rightarrow> int \<Rightarrow> string \<Rightarrow> byte list option \<Rightarrow> 64 word \<Rightarrow> cn \<Rightarrow> (int \<times> cn) outcome" where
  "rtemgr_send_domain Y X ctx domain name data len st =
     send_encoded X ctx (rtemgr_encode_domain Y domain name data len) st"

definition rtemgr_gpio_send_domain ::
  "libs \<Rightarrow> client \<Rightarrow> int \<Rightarrow> int \<Rightarrow> string \<Rightarrow> byte \<Rightarrow> cn \<Rightarrow> (int \<times> cn) outcome" where
  "rtemgr_gpio_send_domain Y X ctx domain name v st =
     rtemgr_send_domain Y X ctx domain name (Some (bytes_of (if v \<noteq> 0 then ''1'' else ''0''))) 1 st"

definition rtemgr_spi_send_domain ::
  "libs \<Rightarrow> client \<Rightarrow> int \<Rightarrow> int \<Rightarrow> string \<Rightarrow> byte list option \<Rightarrow> 16 word \<Rightarrow> bool \<Rightarrow> cn \<Rightarrow>
   (int \<times> cn) outcome" where
  "rtemgr_spi_send_domain Y X ctx domain name data len rdmode st =
     send_encoded X ctx (rtemgr_spi_encode_domain Y domain name data len rdmode) st"

definition rtemgr_i2c_send_domain ::
  "libs \<Rightarrow> client \<Rightarrow> int \<Rightarrow> int \<Rightarrow> string \<Rightarrow> 16 word \<Rightarrow> byte list option \<Rightarrow> 16 word \<Rightarrow> 16 word \<Rightarrow> cn \<Rightarrow>
   (int \<times> cn) outcome" where
  "rtemgr_i2c_send_domain Y X ctx domain name addr data wlen rlen st =
     send_encoded X ctx (rtemgr_i2c_encode_domain Y domain name addr data wlen rlen) st"

definition rtemgr_sysfs_send_domain ::
  "libs \<Rightarrow> client \<Rightarrow> int \<Rightarrow> int \<Rightarrow> string \<Rightarrow> string option \<Rightarrow> string option \<Rightarrow> cn \<Rightarrow> (int \<times> cn) outcome" where
  "rtemgr_sysfs_send_domain Y X ctx domain name attr newval st =
     send_encoded X ctx (rtemgr_sysfs_encode_domain Y domain name attr newval) st"

definition rtemgr_decode :: "libs \<Rightarrow> byte list \<Rightarrow> rtemgr_data option outcome" where
  "rtemgr_decode Y data =
     and_then (rtemgr_data_parse Y data) (\<lambda>r.
     (case r of
        None \<Rightarrow> Inr None
      | Some d \<Rightarrow> Inr (if interfaces d = [] then None else Some d)))"

definition rtemgr_get_data :: "rtemgr_data \<Rightarrow> byte list option" where
  "rtemgr_get_data d = val_v (cmd d)"

definition rtemgr_get_length :: "rtemgr_data \<Rightarrow> 64 word" where
  "rtemgr_get_length d = val_s (cmd d)"

definition rtemgr_get_name :: "rtemgr_data \<Rightarrow> string option" where
  "rtemgr_get_name d = (if interfaces d = [] then None else Some (if_name (hd (interfaces d))))"

definition rtemgr_get_domain :: "rtemgr_data \<Rightarrow> int" where
  "rtemgr_get_domain d = (if interfaces d = [] then -1 else if_domain (hd (interfaces d)))"

definition rtemgr_get_type :: "rtemgr_data \<Rightarrow> int" where
  "rtemgr_get_type d = (if interfaces d = [] then -1 else if_bus (hd (interfaces d)))"


subsection \<open>Hexadecimal values\<close>

text \<open>
  \<open>strtok\<close> with a space: the parts between the spaces that are not empty. The array has one
  element more than there are spaces, whatever the number of tokens; without a token the code
  passes NULL to \<open>strtoul\<close>. An empty array stands for the result 0.
\<close>

fun split_spaces :: "string \<Rightarrow> string list" where
  "split_spaces [] = [[]]"
| "split_spaces (c # cs) =
     (if c = CHR '' '' then [] # split_spaces cs
      else (c # hd (split_spaces cs)) # tl (split_spaces cs))"

definition hex_to_array :: "libs \<Rightarrow> string \<Rightarrow> byte list outcome" where
  "hex_to_array Y str =
     (if str = [] \<or> \<not> heap Y (length str + 1) then Inr []
      else (let n = Suc (length (filter (\<lambda>c. c = CHR '' '') str));
                toks = filter (\<lambda>w. w \<noteq> []) (split_spaces str)
            in if \<not> heap Y n then Inr []
               else if toks = [] then Inl Null_Deref
               else Inr (map (\<lambda>t. ucast (strtoul 16 t)) toks @ replicate (n - length toks) 0)))"

lemma split_spaces_not_Nil [simp]: "split_spaces s \<noteq> []"
  by (induction s) auto

lemma split_spaces_word:
  "CHR '' '' \<notin> set w \<Longrightarrow> split_spaces (w @ CHR '' '' # s) = w # split_spaces s"
  "CHR '' '' \<notin> set w \<Longrightarrow> split_spaces w = [w]"
  by (induction w) auto

definition hex_word :: "byte \<Rightarrow> string" where
  "hex_word b = ''0x'' @ show_02x b"

lemma show_02x_digits: "\<forall>c \<in> set (show_02x b). digit_in 16 c"
  using show_base_digits [of 16 "unat b"] by (auto simp: show_02x_def digit_in_def digit_def)

lemma hex_word_facts: "CHR '' '' \<notin> set (hex_word b)" "hex_word b \<noteq> []"
  using show_02x_digits [of b] digit_not_special(5) by (auto simp: hex_word_def)

lemma butlast_hex_text:
  "butlast (hex_text (b # bs)) = hex_word b @ (if bs = [] then [] else CHR '' '' # butlast (hex_text bs))"
  by (cases bs) (simp_all add: hex_text_def hex_word_def butlast_append)

lemma split_hex_text:
  "bs \<noteq> [] \<Longrightarrow> split_spaces (butlast (hex_text bs)) = map hex_word bs"
proof (induction bs)
  case (Cons b bs)
  show ?case
  proof (cases "bs = []")
    case True
    then show ?thesis by (simp add: butlast_hex_text split_spaces_word hex_word_facts)
  next
    case False
    with Cons.IH show ?thesis
      by (simp add: butlast_hex_text split_spaces_word hex_word_facts)
  qed
qed simp

lemma length_split_spaces: "length (split_spaces s) = Suc (length (filter (\<lambda>c. c = CHR '' '') s))"
  by (induction s) auto

lemma strtoul_hex_word: "ucast (strtoul 16 (hex_word b)) = b"
proof -
  let ?t = "show_02x b"
  obtain d ds where t: "?t = d # ds" "digit_in 16 d"
    using show_02x_digits [of b] by (cases ?t) (auto simp: show_02x_def split: if_splits)
  have "scan_sign (hex_word b) = (False, hex_word b)"
    by (simp add: hex_word_def scan_sign_def isspace_def)
  moreover have "base_and_digits 16 (hex_word b) = (16, ?t)"
    using t by (simp add: base_and_digits_def hex_prefixed_def hex_word_def)
  moreover have "digits_val 16 0 ?t = unat b"
    using digits_val_show_base [of 16 "unat b"] by (simp add: show_02x_def digit_def)
  moreover have "unat b < 2 ^ 64" by (rule less_le_trans [OF unsigned_less]) simp
  ultimately have "strtoul 16 (hex_word b) = of_nat (unat b)"
    using show_02x_digits [of b] by (simp add: strtoul_def)
  also have "ucast (of_nat (unat b) :: 64 word) = b"
    by (simp add: of_nat_unat) (rule bit_word_eqI, simp add: bit_simps)
  finally show ?thesis .
qed

lemma hex_decoded:
  assumes "bs \<noteq> []" and "\<And>n. heap Y n"
  shows "hex_to_array Y (butlast (hex_text bs)) = Inr bs"
proof -
  have toks: "filter (\<lambda>w. w \<noteq> []) (split_spaces (butlast (hex_text bs))) = map hex_word bs"
    using split_hex_text [OF assms(1)] hex_word_facts(2) by (simp add: filter_map comp_def)
  have n: "Suc (length (filter (\<lambda>c. c = CHR '' '') (butlast (hex_text bs)))) = length bs"
    using split_hex_text [OF assms(1)] length_split_spaces [of "butlast (hex_text bs)"] by simp
  obtain b bs' where "bs = b # bs'" using assms(1) by (cases bs) auto
  then have "butlast (hex_text bs) \<noteq> []" by (simp add: butlast_hex_text hex_word_facts)
  with toks n assms show ?thesis
    by (simp add: hex_to_array_def Let_def strtoul_hex_word comp_def)
qed

text \<open>
  Bytes survive the hexadecimal text. What the SPI and I2C helpers of the library write for
  the bytes to be sent, the daemon reads back as the same bytes, for every number of them.
\<close>

theorem hex_round_trip:
  assumes "bs \<noteq> []" and "\<And>n. heap Y n"
  shows "hex_to_array Y (butlast (hex_text bs)) = Inr bs"
  using assms by (rule hex_decoded)

theorem hex_round_trip_witness:
  "hex_to_array sample_libs ''0x01 0xff 0x2a'' = Inr [1, 255, 42]"
proof -
  have "butlast (hex_text [1, 255, 42]) = ''0x01 0xff 0x2a''" by code_simp
  with hex_round_trip [of "[1, 255, 42]" sample_libs] show ?thesis by simp
qed


subsection \<open>A request on the wire\<close>

definition request_data :: "int \<Rightarrow> string \<Rightarrow> rtecmd \<Rightarrow> rtemgr_data" where
  "request_data domain name c =
     \<lparr>cmd = c\<lparr>action := RTECMD_XFER\<rparr>, nr_intf = 1,
      interfaces = [new_intf\<lparr>if_domain := domain, if_name := strncpy 16 name\<rparr>]\<rparr>"

lemma encode_cmd_emit:
  assumes "\<And>n. heap Y n"
  shows "encode_cmd Y domain name c =
    rtemgr_data_emit Y (request_data domain name c) (max 512 (unat (val_s c * 3 div 2)))"
  using assms
  by (simp add: encode_cmd_def rtemgr_data_alloc_def rtemgr_data_alloc_interface_def request_data_def Let_def)

lemma fits_array_blank: "0 < n \<Longrightarrow> fits_array n (replicate n NUL)"
  unfolding fits_array_def by (intro exI [of _ "[]"]) (simp add: strncpy_def)

lemma request_data_ok:
  assumes "is_int domain" "NUL \<notin> set name" "length name < 16" "is_int (cmd_error c)" "value_ok c"
  shows "data_ok (request_data domain name c)"
proof -
  have "fits_array 16 (strncpy 16 name)" using assms(2,3) by (auto simp: fits_array_def)
  with assms show ?thesis
    by (simp add: data_ok_def request_data_def intf_ok_def new_intf_def fits_array_blank is_int_def value_ok_def)
qed

lemma encode_decode:
  assumes "libs_ok Y" and mem: "\<And>n. heap Y n"
    and "is_int domain" "NUL \<notin> set name" "length name < 16" "is_int (cmd_error c)" "value_ok c" "val_s c \<noteq> 0"
    and "encode_cmd Y domain name c = Inr (Some out)"
  shows "rtemgr_decode Y out = Inr (Some (request_data domain name c))"
proof -
  have "rtemgr_data_parse Y out = Inr (Some (request_data domain name c))"
    using emitted_parses [OF assms(1) mem request_data_ok [OF assms(3-7)]] assms(8,9) encode_cmd_emit [OF mem]
    by (simp add: request_data_def)
  then show ?thesis by (simp add: rtemgr_decode_def request_data_def)
qed

lemma length_show_02x: "length (show_02x b) = 2"
proof -
  have b: "unat b < 256" by (rule less_le_trans [OF unsigned_less]) simp
  show ?thesis
  proof (cases "unat b < 16")
    case True
    then show ?thesis by (simp add: show_02x_def show_base.simps [of 16 "unat b"])
  next
    case False
    then have "show_base 16 (unat b) = [digit_char (unat b div 16), digit_char (unat b mod 16)]"
      using b by (simp add: show_base.simps [of 16 "unat b"] show_base.simps [of 16 "unat b div 16"])
    with False show ?thesis by (simp add: show_02x_def)
  qed
qed

lemma length_hex_text: "length (hex_text bs) = 5 * length bs"
  by (induction bs) (simp_all add: hex_text_def length_show_02x)

text \<open>
  An SPI request to a managed interface arrives. What \<open>rtemgr_spi_encode_domain\<close> produces is
  decoded to a packet for the interface and domain it was made for, whose value is text that the
  daemon turns into exactly the bytes to be sent, and whose receive size is their number if the
  answer is wanted and 0 if not. A name of 16 characters or more is read beyond its array.
\<close>

theorem spi_request_round_trip:
  assumes "libs_ok Y" and mem: "\<And>n. heap Y n" and "is_int domain" "NUL \<notin> set name"
    and bs: "bs \<noteq> []" "length bs < 2 ^ 16"
    and enc: "rtemgr_spi_encode_domain Y domain name (Some bs) (of_nat (length bs)) rd = Inr (Some out)"
  shows "\<exists>d txt. length name < 16 \<and> rtemgr_decode Y out = Inr (Some d) \<and>
    rtemgr_get_name d = Some (strncpy 16 name) \<and> rtemgr_get_domain d = domain \<and>
    rtemgr_get_data d = Some (bytes_of txt) \<and> rtemgr_get_length d = of_nat (length txt) \<and>
    hex_to_array Y txt = Inr bs \<and> extra_rsize (cmd d) = (if rd then of_nat (length bs) else 0)"
proof -
  let ?t = "butlast (hex_text bs)"
  let ?c = "no_cmd\<lparr>val_s := of_nat (length ?t), val_v := Some (bytes_of ?t),
    extra_rsize := if rd then of_nat (length bs) else 0\<rparr>"
  have t: "length ?t = 5 * length bs - 1" by (simp add: length_hex_text)
  have n: "unat (of_nat (length bs) :: 16 word) = length bs" "(of_nat (length bs) :: 16 word) \<noteq> 0"
    using bs unat_len16 [OF bs(2)] len16_0 [OF bs(2)] by simp_all
  have size_t: "unat (of_nat (length ?t) :: 64 word) = length ?t"
    using t bs(2) by (simp add: unat_of_nat)
  have pos: "0 < length ?t" using t bs(1) by (cases bs) simp_all
  then have "(of_nat (length ?t) :: 64 word) \<noteq> 0" using size_t by (metis unat_0 less_numeral_extra(3))
  then have c: "is_int (cmd_error ?c)" "value_ok ?c" "val_s ?c \<noteq> 0"
    using size_t t bs(2) by (simp_all add: no_cmd_def is_int_def value_ok_def)
  have enc': "encode_cmd Y domain name ?c = Inr (Some out)"
    using enc n mem by (simp add: rtemgr_spi_encode_domain_def Let_def)
  have short: "length name < 16"
  proof (rule ccontr)
    assume "\<not> length name < 16"
    then have "read_str (strncpy 16 name) = Inl Out_Of_Bounds"
      using read_strncpy [OF assms(4), of 16] by simp
    then have "emit_interface Y sz (new_intf\<lparr>if_domain := domain, if_name := strncpy 16 name\<rparr>) h \<noteq> Inr (Some h')"
      for sz h h' by (auto simp: emit_interface_def on_ok_def puts_def emit_text_def split: option.splits)
    then have "on_ok (emit_interfaces Y sz 1 [new_intf\<lparr>if_domain := domain, if_name := strncpy 16 name\<rparr>]) g h
        \<noteq> Inr (Some h')" for sz g h h'
      by (auto simp: on_ok_def and_then_eq_Inr split: option.splits)
    with enc' encode_cmd_emit [OF mem] mem show False
      by (auto simp: request_data_def rtemgr_data_emit_def and_then_eq_Inr on_ok_def split: option.splits if_splits)
  qed
  have "rtemgr_decode Y out = Inr (Some (request_data domain name ?c))"
    by (rule encode_decode [OF assms(1) mem assms(3,4) short c enc'])
  with short hex_decoded [OF bs(1) mem] show ?thesis
    by (intro exI [of _ "request_data domain name ?c"] exI [of _ ?t])
      (simp add: rtemgr_get_name_def rtemgr_get_domain_def rtemgr_get_data_def rtemgr_get_length_def
        request_data_def)
qed

theorem spi_request_round_trip_witness:
  "\<exists>out d. rtemgr_spi_encode_domain sample_libs 0 ''bus'' (Some [1, 0xff]) (of_nat (length [1, 0xff :: byte])) True =
       Inr (Some out) \<and>
     rtemgr_decode sample_libs out = Inr (Some d) \<and> rtemgr_get_name d = Some (strncpy 16 ''bus'')"
proof -
  let ?c = "no_cmd\<lparr>val_s := 9, val_v := Some (bytes_of ''0x01 0xff''), extra_rsize := 2\<rparr>"
  have t: "butlast (hex_text [1, 0xff]) = ''0x01 0xff''" by code_simp
  have ok: "data_ok (request_data 0 ''bus'' ?c)"
    by (rule request_data_ok) (simp_all add: is_int_def value_ok_def no_cmd_def)
  have "rtemgr_spi_encode_domain sample_libs 0 ''bus'' (Some [1, 0xff]) (of_nat (length [1, 0xff :: byte])) True =
      rtemgr_data_emit sample_libs (request_data 0 ''bus'' ?c) 512"
    by (simp add: rtemgr_spi_encode_domain_def Let_def t encode_cmd_emit no_cmd_def)
  moreover obtain out where "rtemgr_data_emit sample_libs (request_data 0 ''bus'' ?c) 512 = Inr (Some out)"
    using sample_emitted [OF ok] by (auto simp: request_data_def value_room_def estimated_def)
  ultimately have out: "rtemgr_spi_encode_domain sample_libs 0 ''bus'' (Some [1, 0xff])
      (of_nat (length [1, 0xff :: byte])) True = Inr (Some out)" by simp
  have "\<exists>d txt. length ''bus'' < 16 \<and> rtemgr_decode sample_libs out = Inr (Some d) \<and>
    rtemgr_get_name d = Some (strncpy 16 ''bus'') \<and> rtemgr_get_domain d = 0 \<and>
    rtemgr_get_data d = Some (bytes_of txt) \<and> rtemgr_get_length d = of_nat (length txt) \<and>
    hex_to_array sample_libs txt = Inr [1, 0xff] \<and>
    extra_rsize (cmd d) = (if True then of_nat (length [1, 0xff :: byte]) else 0)"
    by (rule spi_request_round_trip [OF libs_ok_sample _ _ _ _ _ out]) (simp_all add: is_int_def)
  with out show ?thesis by blast
qed

end
