(* ===== verification/Rtemgrd.thy ===== *)
theory Rtemgrd
  imports Rtemgr_Codec
begin

section \<open>The route manager daemon (src/src/rtemgr/rtemgrd.c)\<close>

text \<open>
  An \<^emph>\<open>interface\<close> is a pair of a loopback endpoint of its own name and another endpoint, bound
  to each other; what the device behind it sends arrives at the loop's callback
  (\<open>default_domain_handler\<close>, callback number 0, with the address of the interface as its
  argument). Interfaces live in a heap whose addresses are not recycled; the interface and
  domain lists are the sequences that \<open>Lists\<close> proves them to be. A character array is the list
  of its characters. Buffers of libevent and list iterators can always be allocated.

  The daemon runs on the library state \<open>rt\<close> of \<open>Ep\<close>; \<open>X\<close> is what the endpoints need from
  outside, \<open>Y\<close> the YAML and base64 libraries, \<open>localtime\<close> with \<open>strftime\<close> an argument.
\<close>

datatype iface_handler = Raw_Handler | Managed_Handler

record iface =
  i_id :: int
  i_ep :: int
  i_name :: string
  i_uri :: string
  i_bus :: int
  i_domain :: "nat option"
  i_managed :: int
  i_handler :: "iface_handler option"
  i_partner :: "addr option"
  i_pending :: "byte list"

record domain =
  dom_id :: int
  dom_ifaces :: "addr list"

record daemon =
  rt :: rsys
  ifaces :: "addr \<rightharpoonup> iface"
  next_iface :: nat
  domains :: "domain list"
  ctrl_iface :: "addr option"

definition bus_to_prefix :: "int \<Rightarrow> string" where
  "bus_to_prefix bus =
     (if bus = int EP_IPC then ''ipc://'' else if bus = int EP_INET then ''inet://''
      else if bus = int EP_TTY then ''tty://'' else if bus = int EP_GPIO then ''gpio://''
      else if bus = int EP_SPI then ''spi://'' else if bus = int EP_I2C then ''i2c://''
      else if bus = int EP_SYSFS then ''sysfs://'' else [])"

definition RTEMGRD_CTLPORT :: string where
  "RTEMGRD_CTLPORT = ''@rtemgrd''"

text \<open>\<open>strcpy\<close> of a C string into an array, whose characters behind the terminator stay.\<close>

definition strcpy :: "string \<Rightarrow> string \<Rightarrow> string outcome" where
  "strcpy arr s =
     (if length s < length arr then Inr (s @ NUL # drop (Suc (length s)) arr) else Inl Out_Of_Bounds)"

definition set_iface :: "addr \<Rightarrow> (iface \<Rightarrow> iface) \<Rightarrow> daemon \<Rightarrow> daemon outcome" where
  "set_iface a f st =
     and_then (deref (ifaces st) (Some a)) (\<lambda>i. Inr (st\<lparr>ifaces := (ifaces st)(a \<mapsto> f i)\<rparr>))"

fun find_name :: "(addr \<rightharpoonup> iface) \<Rightarrow> string \<Rightarrow> addr list \<Rightarrow> addr option outcome" where
  "find_name h name [] = Inr None"
| "find_name h name (a # as) =
     and_then (deref h (Some a)) (\<lambda>i.
     and_then (read_str (i_name i)) (\<lambda>n.
     and_then (read_str name) (\<lambda>m.
     if n = m then Inr (Some a) else find_name h name as)))"

definition domain_lookup_by_id :: "int \<Rightarrow> daemon \<Rightarrow> nat option" where
  "domain_lookup_by_id key st =
     map_option fst (find (\<lambda>(n, d). dom_id d = key) (enumerate 0 (domains st)))"

definition iface_lookup_by_name :: "nat option \<Rightarrow> string \<Rightarrow> daemon \<Rightarrow> addr option outcome" where
  "iface_lookup_by_name dm name st =
     (case dm of
        None \<Rightarrow> Inr None
      | Some n \<Rightarrow> find_name (ifaces st) name (dom_ifaces (domains st ! n)))"

definition lookup :: "rtemgr_intf \<Rightarrow> daemon \<Rightarrow> addr option outcome" where
  "lookup f st = iface_lookup_by_name (domain_lookup_by_id (if_domain f) st) (if_name f) st"

definition upd_domain :: "nat \<Rightarrow> (addr list \<Rightarrow> addr list) \<Rightarrow> daemon \<Rightarrow> daemon" where
  "upd_domain n f st =
     st\<lparr>domains := (domains st)[n := (domains st ! n)\<lparr>dom_ifaces := f (dom_ifaces (domains st ! n))\<rparr>]\<rparr>"

definition iface_new :: "outside \<Rightarrow> nat \<Rightarrow> daemon \<Rightarrow> addr option \<times> daemon" where
  "iface_new X dm st =
     (if mem X 216 then
        (let a = next_iface st;
             i = \<lparr>i_id = 0, i_ep = 0, i_name = replicate 16 NUL, i_uri = replicate 128 NUL, i_bus = 0,
                  i_domain = Some dm, i_managed = 0, i_handler = None, i_partner = None, i_pending = []\<rparr>
         in (Some a, upd_domain dm (\<lambda>as. as @ [a])
               (st\<lparr>ifaces := (ifaces st)(a \<mapsto> i), next_iface := a + 1\<rparr>)))
      else (None, st))"

text \<open>\<open>__do_forget\<close> over one list: whoever has \<open>forget\<close> as its partner loses it.\<close>

fun do_forget :: "addr list \<Rightarrow> addr \<Rightarrow> daemon \<Rightarrow> daemon outcome" where
  "do_forget [] forget st = Inr st"
| "do_forget (a # as) forget st =
     and_then (deref (ifaces st) (Some a)) (\<lambda>i.
     and_then
       (if a \<noteq> forget \<and> i_partner i = Some forget
        then set_iface a (\<lambda>i. i\<lparr>i_partner := None\<rparr>) st else Inr st)
       (do_forget as forget))"

fun forget_all :: "domain list \<Rightarrow> addr \<Rightarrow> daemon \<Rightarrow> daemon outcome" where
  "forget_all [] forget st = Inr st"
| "forget_all (d # ds) forget st =
     and_then (do_forget (dom_ifaces d) forget st) (forget_all ds forget)"

definition iface_forget :: "addr option \<Rightarrow> daemon \<Rightarrow> daemon outcome" where
  "iface_forget iface st =
     (case iface of
        None \<Rightarrow> Inr st
      | Some a \<Rightarrow>
          and_then (deref (ifaces st) (Some a)) (\<lambda>i.
          if i_managed i = 0 then
            (case i_partner i of
               None \<Rightarrow> Inr st
             | Some p \<Rightarrow>
                 and_then (set_iface p (\<lambda>i. i\<lparr>i_partner := None\<rparr>) st)
                   (set_iface a (\<lambda>i. i\<lparr>i_partner := None\<rparr>)))
          else forget_all (domains st) a st))"

definition close_rt :: "outside \<Rightarrow> int \<Rightarrow> daemon \<Rightarrow> daemon outcome" where
  "close_rt X d st =
     (if d \<ge> 0 then and_then (rteipc_close X d (rt st)) (\<lambda>s. Inr (st\<lparr>rt := s\<rparr>)) else Inr st)"

definition iface_free :: "outside \<Rightarrow> addr option \<Rightarrow> daemon \<Rightarrow> daemon outcome" where
  "iface_free X iface st =
     (case iface of
        None \<Rightarrow> Inr st
      | Some a \<Rightarrow>
          and_then (deref (ifaces st) (Some a)) (\<lambda>i.
          and_then (close_rt X (i_id i) st) (\<lambda>st1.
          and_then (close_rt X (i_ep i) st1) (\<lambda>st2.
          (let st3 = (case i_domain i of None \<Rightarrow> st2 | Some n \<Rightarrow> upd_domain n (remove1 a) st2) in
           and_then (iface_forget (Some a) st3) (\<lambda>st4.
           Inr (st4\<lparr>ifaces := (ifaces st4)(a := None)\<rparr>)))))))"

text \<open>
  \<open>name\<close> and \<open>path\<close> are arrays. The callback is set on whatever loop has the name, also when
  opening it has just failed because the name is in use.
\<close>

definition open_rt :: "outside \<Rightarrow> string \<Rightarrow> daemon \<Rightarrow> (int \<times> daemon) outcome" where
  "open_rt X uri st = and_then (rteipc_open X uri (rt st)) (\<lambda>(r, s). Inr (r, st\<lparr>rt := s\<rparr>))"

definition iface_build ::
  "outside \<Rightarrow> addr \<Rightarrow> string \<Rightarrow> string \<Rightarrow> int \<Rightarrow> int \<Rightarrow> daemon \<Rightarrow> (int \<times> daemon) outcome" where
  "iface_build X a name path bus managed st =
     and_then (deref (ifaces st) (Some a)) (\<lambda>i.
     and_then (read_str name) (\<lambda>n.
     and_then (strcpy (i_name i) n) (\<lambda>iname.
     and_then (read_str path) (\<lambda>p.
     (let uri = take 127 (bus_to_prefix bus @ p) in
      and_then (strcpy (i_uri i) uri) (\<lambda>iuri.
      and_then (open_rt X n st) (\<lambda>(k, st1).
      and_then (open_rt X uri st1) (\<lambda>(e, st2).
      (let st3 = st2\<lparr>rt := snd (rteipc_xfer_setcb n (Some 0) a (rt st2))\<rparr> in
       and_then (set_iface a (\<lambda>i. i\<lparr>i_bus := bus, i_managed := managed, i_name := iname, i_uri := iuri,
           i_id := k, i_ep := e,
           i_handler := Some (if managed \<noteq> 0 then Managed_Handler else Raw_Handler)\<rparr>) st3) (\<lambda>st4.
       if k < 0 \<or> e < 0 then Inr (-1, st4)
       else and_then (rteipc_bind (levent X) k e (rt st4)) (\<lambda>(r, s).
         Inr (if r < 0 then -1 else 0, st4\<lparr>rt := s\<rparr>))))))))))))"


subsection \<open>Data from the devices\<close>

definition taken :: "nat \<Rightarrow> byte list \<Rightarrow> byte list outcome" where
  "taken len msg = (if length msg < len then Inl Out_Of_Bounds else Inr (take len msg))"

definition iface_pending :: "addr \<Rightarrow> nat \<Rightarrow> byte list \<Rightarrow> daemon \<Rightarrow> daemon outcome" where
  "iface_pending a len msg st =
     and_then (taken len msg) (\<lambda>bs. set_iface a (\<lambda>i. i\<lparr>i_pending := i_pending i @ frame bs\<rparr>) st)"

definition xfer_rt :: "outside \<Rightarrow> string \<Rightarrow> byte list \<Rightarrow> daemon \<Rightarrow> daemon outcome" where
  "xfer_rt X name bs st =
     and_then (rteipc_xfer (levent X) name bs (rt st)) (\<lambda>(r, s). Inr (st\<lparr>rt := s\<rparr>))"

text \<open>The sender's description of itself, into the interface \<open>f\<close> of a packet.\<close>

definition sender_info :: "iface \<Rightarrow> rtemgr_intf \<Rightarrow> daemon \<Rightarrow> rtemgr_intf outcome" where
  "sender_info i f st =
     and_then (and_then (read_str (i_name i)) (strcpy (if_name f))) (\<lambda>name.
     and_then (and_then (read_str (i_uri i)) (strcpy (if_path f))) (\<lambda>path.
     and_then (case i_domain i of None \<Rightarrow> Inl Null_Deref | Some n \<Rightarrow> Inr (dom_id (domains st ! n))) (\<lambda>dm.
     and_then
       (case i_partner i of
          None \<Rightarrow> Inr (if_partner f)
        | Some p \<Rightarrow> and_then (deref (ifaces st) (Some p)) (\<lambda>q.
            and_then (read_str (i_name q)) (strcpy (if_partner f)))) (\<lambda>partner.
     Inr (f\<lparr>if_id := i_id i, if_bus := i_bus i, if_name := name, if_path := path, if_domain := dm,
            if_managed := i_managed i, if_partner := partner\<rparr>)))))"

definition iface_raw_handler ::
  "outside \<Rightarrow> libs \<Rightarrow> addr \<Rightarrow> nat \<Rightarrow> byte list \<Rightarrow> daemon \<Rightarrow> daemon outcome" where
  "iface_raw_handler X Y a len msg st =
     and_then (deref (ifaces st) (Some a)) (\<lambda>i.
     (case i_partner i of
        None \<Rightarrow> iface_pending a len msg st
      | Some p \<Rightarrow>
          and_then (deref (ifaces st) (Some p)) (\<lambda>q.
          if i_managed q = 0 then
            and_then (taken len msg) (\<lambda>bs. and_then (read_str (i_name q)) (\<lambda>n. xfer_rt X n bs st))
          else
            (let bufsz = max 512 (len * 3 div 2) in
             if \<not> heap Y len \<or> \<not> heap Y bufsz then Inr st
             else (case Option.bind (rtemgr_data_alloc Y) (rtemgr_data_alloc_interface Y) of
                     None \<Rightarrow> Inr st
                   | Some d \<Rightarrow>
                       and_then (taken len msg) (\<lambda>bs.
                       and_then (sender_info i (hd (interfaces d)) st) (\<lambda>f.
                       and_then (rtemgr_data_emit Y
                           (d\<lparr>cmd := (cmd d)\<lparr>action := RTECMD_XFER, val_v := Some bs, val_s := of_nat len\<rparr>,
                              interfaces := [f]\<rparr>) bufsz) (\<lambda>r.
                       (case r of
                          None \<Rightarrow> Inr st
                        | Some out \<Rightarrow> and_then (read_str (i_name q)) (\<lambda>n. xfer_rt X n out st))))))))))"

text \<open>
  The value as a C string: it is a block of its own size, without a terminator of its own. Both
  readers of it run to a terminator: \<open>hex_to_array\<close>, and \<open>strmatch\<close> of \<open>rtemgr-common.h\<close>, which
  takes the \<open>strlen\<close> of its arguments before it compares them.
\<close>

definition value_string :: "byte list \<Rightarrow> string outcome" where
  "value_string v = read_str (text_of v)"

definition xfer_result :: "(int \<times> rsys) outcome \<Rightarrow> daemon \<Rightarrow> daemon outcome" where
  "xfer_result r st = and_then r (\<lambda>(_, s). Inr (st\<lparr>rt := s\<rparr>))"

definition to_spi_or_i2c ::
  "outside \<Rightarrow> libs \<Rightarrow> iface \<Rightarrow> string \<Rightarrow> rtecmd \<Rightarrow> byte list \<Rightarrow> daemon \<Rightarrow> daemon outcome" where
  "to_spi_or_i2c X Y dest name c v st =
     and_then (value_string v) (\<lambda>str.
     and_then (hex_to_array Y str) (\<lambda>arr.
     if arr = [] then Inr st
     else if i_bus dest = int EP_SPI then
       (let rsize = unat (extra_rsize c) in
        if length arr < rsize \<and> \<not> heap Y rsize then Inr st
        else
          (let arr' = arr @ replicate (rsize - length arr) 0 in
           xfer_result (rteipc_spi_xfer (levent X) name (Some arr') (of_nat (length arr'))
             (extra_rsize c \<noteq> 0) (rt st)) st))
     else
       xfer_result (rteipc_i2c_xfer (levent X) name (extra_addr c) (Some arr) (of_nat (length arr))
         (extra_rsize c) (rt st)) st))"

definition to_managed ::
  "outside \<Rightarrow> libs \<Rightarrow> iface \<Rightarrow> string \<Rightarrow> rtemgr_data \<Rightarrow> nat \<Rightarrow> daemon \<Rightarrow> daemon outcome" where
  "to_managed X Y self name d len st =
     (if \<not> heap Y (len + 512) then Inr st
      else
        and_then (sender_info self (hd (interfaces d)) st) (\<lambda>f.
        and_then (rtemgr_data_emit Y (d\<lparr>interfaces := (interfaces d)[0 := f]\<rparr>) (len + 512)) (\<lambda>r.
        (case r of None \<Rightarrow> Inr st | Some out \<Rightarrow> xfer_rt X name out st))))"

definition iface_managed_handler ::
  "outside \<Rightarrow> libs \<Rightarrow> addr option \<Rightarrow> nat \<Rightarrow> byte list \<Rightarrow> daemon \<Rightarrow> daemon outcome" where
  "iface_managed_handler X Y self len msg st =
     and_then (taken len msg) (\<lambda>bs.
     and_then (rtemgr_data_parse Y bs) (\<lambda>r.
     (case r of
        None \<Rightarrow> Inr st
      | Some d \<Rightarrow>
          if nr_intf d \<noteq> 1 \<or> interfaces d = [] then Inr st
          else
            and_then (lookup (hd (interfaces d)) st) (\<lambda>found.
            (case (found, val_v (cmd d)) of
               (Some p, Some v) \<Rightarrow>
                 and_then (deref (ifaces st) (Some p)) (\<lambda>dest.
                 and_then (read_str (i_name dest)) (\<lambda>name.
                 if val_s (cmd d) = 0 then Inr st
                 else if i_bus dest \<in> {int EP_IPC, int EP_INET, int EP_TTY, int EP_SYSFS} then
                   (if i_managed dest = 0 then
                      and_then (taken (unat (val_s (cmd d))) v) (\<lambda>bs. xfer_rt X name bs st)
                    else
                      and_then (deref (ifaces st) self) (\<lambda>s. to_managed X Y s name d len st))
                 else if i_bus dest = int EP_GPIO then
                   and_then (value_string v) (\<lambda>s.
                   xfer_result (rteipc_gpio_xfer (levent X) name (if s = ''0'' then 0 else 1) (rt st)) st)
                 else if i_bus dest \<in> {int EP_SPI, int EP_I2C} then
                   to_spi_or_i2c X Y dest name (cmd d) v st
                 else Inr st))
             | _ \<Rightarrow> Inr st)))))"

definition run_handler ::
  "outside \<Rightarrow> libs \<Rightarrow> addr \<Rightarrow> nat \<Rightarrow> byte list \<Rightarrow> daemon \<Rightarrow> daemon outcome" where
  "run_handler X Y a len msg st =
     and_then (deref (ifaces st) (Some a)) (\<lambda>i.
     (case i_handler i of
        None \<Rightarrow> Inl Null_Deref
      | Some Raw_Handler \<Rightarrow> iface_raw_handler X Y a len msg st
      | Some Managed_Handler \<Rightarrow> iface_managed_handler X Y (Some a) len msg st))"

text \<open>
  The loop over the pending queue. Its handler does not add to the queue, since the interface
  has a partner: the queue is taken out, and what the loop leaves is put back.
\<close>

definition iface_trigger :: "outside \<Rightarrow> libs \<Rightarrow> addr \<Rightarrow> daemon \<Rightarrow> daemon outcome" where
  "iface_trigger X Y a st =
     and_then (deref (ifaces st) (Some a)) (\<lambda>i.
     if i_partner i = None then Inr st
     else
       and_then (drain_loop (mem X) (run_handler X Y a) st (i_pending i)) (\<lambda>(st', rest).
       set_iface a (\<lambda>i. i\<lparr>i_pending := rest\<rparr>) st'))"

end
