(* ===== verification/Rtemgrd_Ctl.thy ===== *)
theory Rtemgrd_Ctl
  imports Rtemgrd
begin

section \<open>The commands of the daemon (src/src/rtemgr/rtemgrd.c)\<close>

text \<open>
  A command works on the packet of the client and answers with the code that the reply carries,
  the packet as it is sent back, and the daemon. \<open>F\<close> is what \<open>localtime\<close> and \<open>strftime\<close> make
  of a time, \<open>None\<close> when it cannot be represented (\<open>localtime\<close> returns NULL).
\<close>

type_synonym command = "rtemgr_data \<Rightarrow> daemon \<Rightarrow> (int \<times> rtemgr_data \<times> daemon) outcome"

text \<open>\<open>sscanf(iface->uri, "%*[^:]://%99[^\n]", path)\<close>, which keeps \<open>path\<close> when it does not match.\<close>

definition scan_path :: "string \<Rightarrow> string \<Rightarrow> string" where
  "scan_path uri path =
     (case Option.bind (scan_not '':'' uri)
             (\<lambda>(_, s). Option.bind (scan_lit ''://'' s) (scan_not_width 99 [CHR 0x0A])) of
        None \<Rightarrow> path
      | Some (p, _) \<Rightarrow> p)"

definition collect_iface ::
  "libs \<Rightarrow> daemon \<Rightarrow> domain \<Rightarrow> addr \<Rightarrow> rtemgr_data \<times> string \<Rightarrow> (rtemgr_data \<times> string) outcome" where
  "collect_iface Y st dm a = (\<lambda>(d, path).
     and_then (deref (ifaces st) (Some a)) (\<lambda>i.
     (case rtemgr_data_alloc_interface Y d of
        None \<Rightarrow> Inl Null_Deref
      | Some d1 \<Rightarrow>
          (let n = nat (nr_intf d); f = interfaces d1 ! n in
           and_then (and_then (read_str (i_name i)) (strcpy (if_name f))) (\<lambda>name.
           and_then (read_str (i_uri i)) (\<lambda>uri.
           (let path' = scan_path uri path in
            and_then (strcpy (if_path f) path') (\<lambda>p.
            and_then
              (case i_partner i of
                 None \<Rightarrow> Inr (if_partner f)
               | Some q \<Rightarrow> and_then (deref (ifaces st) (Some q)) (\<lambda>j.
                   and_then (read_str (i_name j)) (strcpy (if_partner f)))) (\<lambda>partner.
            Inr (d1\<lparr>interfaces := (interfaces d1)[n :=
                f\<lparr>if_id := i_id i, if_name := name, if_bus := i_bus i, if_path := p,
                  if_domain := dom_id dm, if_managed := i_managed i, if_partner := partner\<rparr>]\<rparr>,
              path'))))))))))"

fun collect_ifaces ::
  "libs \<Rightarrow> daemon \<Rightarrow> domain \<Rightarrow> addr list \<Rightarrow> rtemgr_data \<times> string \<Rightarrow> (rtemgr_data \<times> string) outcome" where
  "collect_ifaces Y st dm [] s = Inr s"
| "collect_ifaces Y st dm (a # as) s =
     and_then (collect_iface Y st dm a s) (collect_ifaces Y st dm as)"

definition domain_collect_ifaces :: "libs \<Rightarrow> daemon \<Rightarrow> domain \<Rightarrow> rtemgr_data \<Rightarrow> rtemgr_data outcome" where
  "domain_collect_ifaces Y st dm d =
     and_then (collect_ifaces Y st dm (dom_ifaces dm) (d, [])) (\<lambda>(d', _). Inr d')"

definition do_rtecmd_list :: "libs \<Rightarrow> command" where
  "do_rtecmd_list Y d st =
     (case rtemgr_data_cleanup_interfaces d of
        None \<Rightarrow> Inl Hangs
      | Some d1 \<Rightarrow>
          and_then (each (domain_collect_ifaces Y st) (domains st) d1) (\<lambda>d2. Inr (0, d2, st)))"

definition do_rtecmd_open :: "outside \<Rightarrow> command" where
  "do_rtecmd_open X d st =
     (if interfaces d = [] \<or> nr_intf d < 1 then Inr (-1, d, st)
      else (let f = hd (interfaces d) in
        (case domain_lookup_by_id (if_domain f) st of
           None \<Rightarrow> Inr (-1, d, st)
         | Some n \<Rightarrow>
             (case iface_new X n st of
                (None, st1) \<Rightarrow> Inr (-1, d, st1)
              | (Some a, st1) \<Rightarrow>
                  and_then (iface_build X a (if_name f) (if_path f) (if_bus f) (if_managed f) st1)
                    (\<lambda>(r, st2).
                  if r \<noteq> 0 then and_then (iface_free X (Some a) st2) (\<lambda>st3. Inr (-1, d, st3))
                  else Inr (0, d, st2))))))"

text \<open>The loop over \<open>intf[i]\<close> for \<open>i < d->nr_intf\<close>.\<close>

fun close_each :: "outside \<Rightarrow> nat \<Rightarrow> rtemgr_intf list \<Rightarrow> daemon \<Rightarrow> daemon outcome" where
  "close_each X 0 fs st = Inr st"
| "close_each X (Suc n) [] st = Inl Out_Of_Bounds"
| "close_each X (Suc n) (f # fs) st =
     and_then (lookup f st) (\<lambda>iface. and_then (iface_free X iface st) (close_each X n fs))"

definition do_rtecmd_close :: "outside \<Rightarrow> command" where
  "do_rtecmd_close X d st =
     (if interfaces d = [] \<or> nr_intf d < 1 then Inr (-1, d, st)
      else and_then (close_each X (nat (nr_intf d)) (interfaces d) st) (\<lambda>st1. Inr (0, d, st1)))"

definition set_route :: "outside \<Rightarrow> libs \<Rightarrow> addr \<Rightarrow> addr \<Rightarrow> daemon \<Rightarrow> daemon outcome" where
  "set_route X Y a b st =
     and_then (deref (ifaces st) (Some a)) (\<lambda>i.
     if i_managed i = 0 then
       and_then (set_iface a (\<lambda>i. i\<lparr>i_partner := Some b\<rparr>) st) (iface_trigger X Y a)
     else Inr st)"

definition do_rtecmd_route :: "outside \<Rightarrow> libs \<Rightarrow> command" where
  "do_rtecmd_route X Y d st =
     (if interfaces d = [] \<or> nr_intf d \<noteq> 2 then Inr (-1, d, st)
      else if length (interfaces d) < 2 then Inl Out_Of_Bounds
      else
        and_then (lookup (interfaces d ! 0) st) (\<lambda>lh.
        and_then (lookup (interfaces d ! 1) st) (\<lambda>rh.
        (case (lh, rh) of
           (Some a, Some b) \<Rightarrow>
             if a = b then Inr (-1, d, st)
             else
               and_then (set_route X Y a b st) (\<lambda>st1.
               and_then (set_route X Y b a st1) (\<lambda>st2. Inr (0, d, st2)))
         | _ \<Rightarrow> Inr (-1, d, st)))))"

definition do_rtecmd_forget :: command where
  "do_rtecmd_forget d st =
     (if interfaces d = [] then Inl Null_Deref
      else
        and_then (lookup (hd (interfaces d)) st) (\<lambda>iface.
        (case iface of
           None \<Rightarrow> Inr (-1, d, st)
         | Some a \<Rightarrow> and_then (iface_forget (Some a) st) (\<lambda>st1. Inr (0, d, st1)))))"


subsection \<open>Printing what is pending\<close>

text \<open>\<open>%06lld\<close> of an integer of 64 bits, sign included in the width.\<close>

definition show_06 :: "64 word \<Rightarrow> string" where
  "show_06 w =
     (let i = sint w; s = show_base 10 (nat \<bar>i\<bar>) in
      if i < 0 then CHR ''-'' # replicate (5 - length s) CHR ''0'' @ s
      else replicate (6 - length s) CHR ''0'' @ s)"

text \<open>\<open>%.*s\<close> takes its precision as an \<open>int\<close>; a negative one counts as none.\<close>

definition show_message :: "nat \<Rightarrow> byte list \<Rightarrow> string outcome" where
  "show_message len msg =
     (if len < 2 ^ 31 then and_then (taken len msg) (\<lambda>bs. Inr (c_string (text_of bs)))
      else read_str (text_of msg))"

definition cat_message ::
  "(64 word \<Rightarrow> string option) \<Rightarrow> int \<Rightarrow> nat \<Rightarrow> byte list \<Rightarrow> string \<Rightarrow> string outcome" where
  "cat_message F bus len msg out =
     (if bus = int EP_I2C \<or> bus = int EP_SPI then
        and_then (taken len msg) (\<lambda>bs.
        Inr (out @ ''['' @ concat (map (\<lambda>b. '' 0x'' @ show_02x b) bs) @ '' ]'' @ [CHR 0x0A]))
      else if bus = int EP_GPIO then
        and_then (taken 17 msg) (\<lambda>bs.
        (case F (of_le64 (take 8 (drop 1 bs))) of
           None \<Rightarrow> Inl Null_Deref
         | Some dstr \<Rightarrow>
             (let value = hd bs in
              Inr (out @ ''['' @ dstr @ ''.'' @ show_06 (of_le64 (drop 9 bs)) @ ''] '' @
                (if value = 0 then ''Hi'' else ''Lo'') @ '' ==> '' @
                (if value \<noteq> 0 then ''Hi'' else ''Lo'') @ [CHR 0x0A]))))
      else and_then (show_message len msg) (\<lambda>s. Inr (out @ s @ [CHR 0x0A])))"

text \<open>
  The loop of \<open>do_rtecmd_cat\<close> is that of \<open>drain_loop\<close>, except that an error is told from the end
  of the data: it leaves data in the queue from which another drain fails again.
\<close>

definition do_rtecmd_cat :: "outside \<Rightarrow> libs \<Rightarrow> (64 word \<Rightarrow> string option) \<Rightarrow> command" where
  "do_rtecmd_cat X Y F d st =
     (if interfaces d = [] then Inl Null_Deref
      else
        and_then (lookup (hd (interfaces d)) st) (\<lambda>iface.
        (case iface of
           None \<Rightarrow> Inr (-1, d, st)
         | Some a \<Rightarrow>
             and_then (deref (ifaces st) (Some a)) (\<lambda>i.
             if i_partner i \<noteq> None then Inr (-1, d, st)
             else
               and_then (drain_loop (mem X) (cat_message F (i_bus i)) [] (i_pending i)) (\<lambda>(out, rest).
               and_then (set_iface a (\<lambda>i. i\<lparr>i_pending := rest\<rparr>) st) (\<lambda>st1.
               if fst (rteipc_msg_drain (mem X) rest) = Drain_Error then Inr (-1, d, st1)
               else
                 (let d1 = d\<lparr>cmd := (cmd d)\<lparr>val_s := of_nat (length out)\<rparr>\<rparr> in
                  if out = [] then Inr (0, d1, st1)
                  else if \<not> heap Y (length out)
                  then Inr (-1, d1\<lparr>cmd := (cmd d1)\<lparr>val_v := None\<rparr>\<rparr>, st1)
                  else Inr (0, d1\<lparr>cmd := (cmd d1)\<lparr>val_v := Some (bytes_of out)\<rparr>\<rparr>, st1))))))))"


subsection \<open>The control port\<close>

definition run_command ::
  "outside \<Rightarrow> libs \<Rightarrow> (64 word \<Rightarrow> string option) \<Rightarrow> nat \<Rightarrow> byte list \<Rightarrow> command" where
  "run_command X Y F len msg d st =
     (if action (cmd d) = RTECMD_LIST then do_rtecmd_list Y d st
      else if action (cmd d) = RTECMD_OPEN then do_rtecmd_open X d st
      else if action (cmd d) = RTECMD_CLOSE then do_rtecmd_close X d st
      else if action (cmd d) = RTECMD_ROUTE then do_rtecmd_route X Y d st
      else if action (cmd d) = RTECMD_FORGET then do_rtecmd_forget d st
      else if action (cmd d) = RTECMD_XFER then
        and_then (iface_managed_handler X Y (ctrl_iface st) len msg st) (\<lambda>st1. Inr (0, d, st1))
      else if action (cmd d) = RTECMD_CAT then do_rtecmd_cat X Y F d st
      else Inr (-1, d, st))"

definition process_ctlport ::
  "outside \<Rightarrow> libs \<Rightarrow> (64 word \<Rightarrow> string option) \<Rightarrow> nat \<Rightarrow> byte list \<Rightarrow> daemon \<Rightarrow> daemon outcome" where
  "process_ctlport X Y F len msg st =
     and_then (taken len msg) (\<lambda>bs.
     and_then (rtemgr_data_parse Y bs) (\<lambda>r.
     (case r of
        None \<Rightarrow> Inr st
      | Some d \<Rightarrow>
          and_then (run_command X Y F len msg (d\<lparr>cmd := (cmd d)\<lparr>cmd_error := -1\<rparr>\<rparr>) st)
            (\<lambda>(err, d1, st1).
          and_then (rtemgr_data_emit Y (d1\<lparr>cmd := (cmd d1)\<lparr>cmd_error := err\<rparr>\<rparr>) 4096) (\<lambda>out.
          (case out of None \<Rightarrow> Inr st1 | Some o' \<Rightarrow> xfer_rt X RTEMGRD_CTLPORT o' st1))))))"

definition default_domain_handler ::
  "outside \<Rightarrow> libs \<Rightarrow> (64 word \<Rightarrow> string option) \<Rightarrow> string \<Rightarrow> nat \<Rightarrow> byte list \<Rightarrow> addr \<Rightarrow> daemon \<Rightarrow>
   daemon outcome" where
  "default_domain_handler X Y F name len msg a st =
     (if name = RTEMGRD_CTLPORT then process_ctlport X Y F len msg st
      else
        and_then (deref (ifaces st) (Some a)) (\<lambda>i.
        if i_handler i = None then Inr st else run_handler X Y a len msg st))"

text \<open>
  What \<open>loop_on_data\<close> runs for one message: the callback that the loop has by then, on its
  name and its argument. The daemon registers only \<open>default_domain_handler\<close>.
\<close>

definition loop_message ::
  "outside \<Rightarrow> libs \<Rightarrow> (64 word \<Rightarrow> string option) \<Rightarrow> nat \<Rightarrow> nat \<Rightarrow> byte list \<Rightarrow> daemon \<Rightarrow> daemon outcome" where
  "loop_message X Y F p len msg st =
     and_then (find_loop p (rt st)) (\<lambda>lo.
     if lo_cb lo = None then Inr st
     else default_domain_handler X Y F (lo_name lo) len msg (lo_arg lo) st)"

definition daemon_on_data ::
  "outside \<Rightarrow> libs \<Rightarrow> (64 word \<Rightarrow> string option) \<Rightarrow> nat \<Rightarrow> daemon \<Rightarrow> byte list \<Rightarrow>
   (daemon \<times> byte list) outcome" where
  "daemon_on_data X Y F p st inp = drain_loop (mem X) (loop_message X Y F p) st inp"

text \<open>
  The start of the daemon: \<open>None\<close> when the control interface cannot be set up. \<open>new\<close> is what
  \<open>event_base_new\<close> returns.
\<close>

definition default_domain :: domain where
  "default_domain = \<lparr>dom_id = 0, dom_ifaces = []\<rparr>"

definition setup_daemon :: "outside \<Rightarrow> nat option \<Rightarrow> daemon \<Rightarrow> (bool \<times> daemon) outcome" where
  "setup_daemon X new st =
     (let st1 = st\<lparr>rt := rteipc_init None new (rt st), domains := domains st @ [default_domain]\<rparr> in
      (case iface_new X (length (domains st)) st1 of
         (None, st2) \<Rightarrow> Inr (False, st2\<lparr>ctrl_iface := None\<rparr>)
       | (Some a, st2) \<Rightarrow>
           and_then (iface_build X a (RTEMGRD_CTLPORT @ [NUL]) (RTEMGRD_CTLPORT @ [NUL]) (int EP_IPC) 1
               (st2\<lparr>ctrl_iface := Some a\<rparr>)) (\<lambda>(r, st3). Inr (r = 0, st3))))"

text \<open>The result is the exit status of the process; \<open>run\<close> is the event loop.\<close>

definition rtemgrd ::
  "outside \<Rightarrow> nat option \<Rightarrow> (daemon \<Rightarrow> daemon outcome) \<Rightarrow> daemon \<Rightarrow> (int \<times> daemon) outcome" where
  "rtemgrd X new run st =
     and_then (setup_daemon X new st) (\<lambda>(ok, st1).
     if \<not> ok then Inr (1, st1)
     else
       and_then (rteipc_dispatch False (rt st1)) (\<lambda>r1.
       and_then (run (st1\<lparr>rt := r1\<rparr>)) (\<lambda>st2.
       and_then (rteipc_shutdown (rt st2)) (\<lambda>r2. Inr (1, st2\<lparr>rt := r2\<rparr>)))))"

text \<open>
  \<open>main\<close>: what \<open>getopt\<close> returns, in order, and what \<open>daemon(3)\<close> returns. It only comes back through
  \<open>exit\<close>, with a failure in every case.
\<close>

definition rtemgrd_main ::
  "outside \<Rightarrow> string \<Rightarrow> int \<Rightarrow> nat option \<Rightarrow> (daemon \<Rightarrow> daemon outcome) \<Rightarrow> daemon \<Rightarrow>
   (int \<times> daemon) outcome" where
  "rtemgrd_main X opts daemonized new run st =
     (if set opts - {CHR ''B''} \<noteq> {} then Inr (1, st)
      else if opts \<noteq> [] \<and> daemonized < 0 then Inr (1, st)
      else rtemgrd X new run st)"

lemma rtemgrd_fails: "rtemgrd_main X opts daemonized new run st = Inr (r, st') \<Longrightarrow> r = 1"
  by (auto simp: rtemgrd_main_def rtemgrd_def and_then_eq_Inr split: if_splits)

end
