(* ===== verification/Rtemgr_Cli.thy ===== *)
theory Rtemgr_Cli
  imports Rtemgrd_Ctl
begin

section \<open>The command line client (src/src/rtemgr/rtemgr.c)\<close>

text \<open>
  The client turns its command line into a packet for the daemon and prints the reply.
  \<open>getopt_long\<close> is not modelled: the options it returns, each with its argument, and the
  remaining words are arguments of \<open>subcmd_opt_check\<close>.

  An argument of a subcommand is a block from malloc of which \<open>make_arg\<close> writes only the parts
  that are not empty: a part that was never written is \<open>None\<close>. Reading it yields NULL if the
  block happened to be \<open>zeroed\<close>, and is a fault otherwise. \<open>room n\<close> is the number of bytes
  that a block from \<open>malloc(n)\<close> really has, of which the C standard promises \<open>n\<close>.
\<close>

record blocks =
  room :: "nat \<Rightarrow> nat"
  zeroed :: bool

definition bus_names :: "(int \<times> string) list" where
  "bus_names = [(int EP_IPC, ''ipc''), (int EP_INET, ''inet''), (int EP_TTY, ''tty''), (int EP_GPIO, ''gpio''),
     (int EP_SPI, ''spi''), (int EP_I2C, ''i2c''), (int EP_SYSFS, ''sysfs'')]"

definition bus_to_str :: "int \<Rightarrow> string" where
  "bus_to_str bus = (case find (\<lambda>e. fst e = bus) bus_names of None \<Rightarrow> ''UNKNOWN'' | Some e \<Rightarrow> snd e)"

definition str_to_bus :: "string \<Rightarrow> int" where
  "str_to_bus str = (case find (\<lambda>e. snd e = str) bus_names of None \<Rightarrow> -1 | Some e \<Rightarrow> fst e)"

record argument =
  arg_key :: "string option"
  arg_val :: "string option"

definition pointer :: "blocks \<Rightarrow> string option \<Rightarrow> string option outcome" where
  "pointer R p = (if p = None \<and> \<not> zeroed R then Inl Uninitialised else Inr p)"

definition the_text :: "blocks \<Rightarrow> string option \<Rightarrow> string outcome" where
  "the_text R p =
     and_then (pointer R p) (\<lambda>q. (case q of None \<Rightarrow> Inl Null_Deref | Some s \<Rightarrow> Inr s))"

definition remove_arg :: "blocks \<Rightarrow> argument \<Rightarrow> unit outcome" where
  "remove_arg R a = and_then (pointer R (arg_key a)) (\<lambda>_. and_then (pointer R (arg_val a)) (\<lambda>_. Inr ()))"

fun remove_arg_list :: "blocks \<Rightarrow> argument list \<Rightarrow> unit outcome" where
  "remove_arg_list R [] = Inr ()"
| "remove_arg_list R (a # as) = and_then (remove_arg R a) (\<lambda>_. remove_arg_list R as)"

text \<open>One text of an argument: \<open>None\<close> where malloc fails; NULL and the empty text are not copied.\<close>

definition copy_arg :: "libs \<Rightarrow> blocks \<Rightarrow> string \<Rightarrow> string option option outcome" where
  "copy_arg Y R s =
     (if s = [] then Inr (Some None)
      else if \<not> heap Y (length s) then Inr None
      else if room R (length s) < length s + 1 then Inl Out_Of_Bounds
      else Inr (Some (Some s)))"

definition make_arg :: "libs \<Rightarrow> blocks \<Rightarrow> string \<Rightarrow> string \<Rightarrow> argument option outcome" where
  "make_arg Y R key val =
     (if \<not> heap Y 32 then Inr None
      else
        and_then (copy_arg Y R key) (\<lambda>k.
        (case k of
           None \<Rightarrow> and_then (pointer R None) (\<lambda>_. Inr None)
         | Some k' \<Rightarrow>
             and_then (copy_arg Y R val) (\<lambda>v.
             (case v of
                None \<Rightarrow> and_then (pointer R k') (\<lambda>_. Inr None)
              | Some v' \<Rightarrow> Inr (Some \<lparr>arg_key = k', arg_val = v'\<rparr>))))))"

fun has_key :: "blocks \<Rightarrow> argument \<Rightarrow> argument list \<Rightarrow> bool outcome" where
  "has_key R a [] = Inr False"
| "has_key R a (t # ts) =
     and_then (the_text R (arg_key t)) (\<lambda>k.
     and_then (the_text R (arg_key a)) (\<lambda>m. if k = m then Inr True else has_key R a ts))"

definition cut :: "char \<Rightarrow> string \<Rightarrow> string \<times> string" where
  "cut c s = (case split_at c s of None \<Rightarrow> (s, []) | Some p \<Rightarrow> p)"

lemma length_cut: "s \<noteq> [] \<Longrightarrow> length (snd (cut c s)) < length s"
  by (cases "split_at c s") (auto simp: cut_def split_at_Some)

text \<open>
  \<open>parse_opts\<close>: the options between the commas, with a value behind the first equals sign. A
  second option of the same key is an error, on which all options are removed.
\<close>

function parse_opts :: "libs \<Rightarrow> blocks \<Rightarrow> string \<Rightarrow> argument list \<Rightarrow> (int \<times> argument list) outcome" where
  "parse_opts Y R opts l =
     (if opts = [] then Inr (0, l)
      else
        (let (part, more) = cut CHR '','' opts; (key, val) = cut CHR ''='' part;
             fail = (\<lambda>_. and_then (remove_arg_list R l) (\<lambda>_. Inr (-1, []))) in
         and_then (make_arg Y R key val) (\<lambda>arg.
         (case arg of
            None \<Rightarrow> fail ()
          | Some a \<Rightarrow>
              and_then (has_key R a l) (\<lambda>dup.
              if dup then and_then (remove_arg R a) fail else parse_opts Y R more (l @ [a]))))))"
  by pat_completeness auto
termination
proof (relation "measure (\<lambda>(Y, R, opts, l). length opts)", goal_cases)
  case (2 Y R opts l x part more y key val fail arg a dup)
  then have "more = snd (cut CHR '','' opts)" by (metis snd_conv)
  with 2(1) length_cut show ?case by simp
qed simp

declare parse_opts.simps [simp del]


subsection \<open>The parsers of the subcommands\<close>

text \<open>
  A parser returns the packet, or \<open>None\<close> where the C function returns an error code, on which
  the client prints how it is used and exits.
\<close>

type_synonym sub_parser = "rtemgr_data \<Rightarrow> argument list \<Rightarrow> argument list \<Rightarrow> rtemgr_data option outcome"

text \<open>Going on with what is there, and returning the error code where nothing is.\<close>

definition or_fail :: "'a option outcome \<Rightarrow> ('a \<Rightarrow> 'b option outcome) \<Rightarrow> 'b option outcome" where
  "or_fail r f = and_then r (\<lambda>x. (case x of None \<Rightarrow> Inr None | Some y \<Rightarrow> f y))"

lemma or_fail_simps [simp]:
  "or_fail (Inl e) f = Inl e" "or_fail (Inr None) f = Inr None" "or_fail (Inr (Some x)) f = f x"
  by (simp_all add: or_fail_def)

lemma or_fail_eq_Some: "or_fail r f = Inr (Some y) \<longleftrightarrow> (\<exists>x. r = Inr (Some x) \<and> f x = Inr (Some y))"
  by (auto simp: or_fail_def and_then_eq_Inr split: option.splits)

record open_opts =
  oo_abs :: bool
  oo_line :: byte
  oo_dir :: string
  oo_out :: string
  oo_speed :: int
  oo_mode :: int
  oo_managed :: bool

definition no_opts :: open_opts where
  "no_opts = \<lparr>oo_abs = False, oo_line = 0, oo_dir = ''in'', oo_out = ''0'', oo_speed = 0, oo_mode = 3,
     oo_managed = False\<rparr>"

text \<open>One option of \<open>open\<close> on a bus; \<open>None\<close> where the parser returns -1.\<close>

definition open_option :: "blocks \<Rightarrow> int \<Rightarrow> argument \<Rightarrow> open_opts \<Rightarrow> open_opts option outcome" where
  "open_option R bus a oo =
     and_then (the_text R (arg_key a)) (\<lambda>key.
     if key = ''speed'' then
       (if bus \<notin> {int EP_TTY, int EP_SPI} then Inr None
        else and_then (pointer R (arg_val a)) (\<lambda>v.
          (case v of None \<Rightarrow> Inr None | Some t \<Rightarrow> Inr (Some (oo\<lparr>oo_speed := as_int (strtoul 0 t)\<rparr>)))))
     else if key \<in> {''file'', ''abstract'', ''abs''} then
       (if bus \<noteq> int EP_IPC then Inr None
        else Inr (Some (if key = ''file'' then oo else oo\<lparr>oo_abs := True\<rparr>)))
     else if key = ''managed'' then
       (if bus \<notin> {int EP_IPC, int EP_INET} then Inr None else Inr (Some (oo\<lparr>oo_managed := True\<rparr>)))
     else if key = ''line'' then
       (if bus \<noteq> int EP_GPIO then Inr None
        else and_then (the_text R (arg_val a)) (\<lambda>v. Inr (Some (oo\<lparr>oo_line := ucast (strtoul 0 v)\<rparr>))))
     else if key \<in> {''out'', ''in''} then
       (if bus \<noteq> int EP_GPIO then Inr None else Inr (Some (oo\<lparr>oo_dir := key\<rparr>)))
     else if key \<in> {''hi'', ''lo''} then
       (if bus \<noteq> int EP_GPIO then Inr None
        else Inr (Some (oo\<lparr>oo_out := if key = ''hi'' then ''1'' else ''0''\<rparr>)))
     else if key = ''mode'' then
       (if bus \<noteq> int EP_SPI then Inr None
        else and_then (the_text R (arg_val a)) (\<lambda>v. Inr (Some (oo\<lparr>oo_mode := as_int (strtoul 0 v)\<rparr>))))
     else and_then (pointer R (arg_val a)) (\<lambda>_. Inr None))"

fun open_options :: "blocks \<Rightarrow> int \<Rightarrow> argument list \<Rightarrow> open_opts \<Rightarrow> open_opts option outcome" where
  "open_options R bus [] oo = Inr (Some oo)"
| "open_options R bus (a # as) oo =
     or_fail (open_option R bus a oo) (\<lambda>oo'. open_options R bus as oo')"

text \<open>\<open>sscanf(intf->path, "%*[^:]:%[^:]", port)\<close> into six characters.\<close>

definition path_port :: "string \<Rightarrow> string outcome" where
  "path_port path =
     (case Option.bind (scan_not '':'' path)
             (\<lambda>(_, s). Option.bind (scan_lit '':'' s) (scan_not '':'')) of
        None \<Rightarrow> Inr []
      | Some (port, _) \<Rightarrow> fit 6 port)"

text \<open>
  The path that is sent, an array of 128: \<open>snprintf\<close> keeps 127 characters; \<open>memmove\<close> and
  \<open>strcat\<close> know no bounds.
\<close>

definition open_path :: "rtemgr_intf \<Rightarrow> open_opts \<Rightarrow> string outcome" where
  "open_path f oo =
     (let path = if_path f; print = (\<lambda>s. strcpy path (take 127 s)) in
      if if_bus f = int EP_IPC then
        (if oo_abs oo then
           and_then (read_str path) (\<lambda>p.
           if length p + 2 \<le> length path then Inr (''@'' @ p @ [NUL] @ drop (length p + 2) path)
           else Inl Out_Of_Bounds)
         else Inr path)
      else if if_bus f = int EP_INET then
        and_then (read_str path) (\<lambda>p.
        and_then (path_port p) (\<lambda>port. if port = [] then strcpy path (p @ '':9110'') else Inr path))
      else if if_bus f = int EP_TTY then
        and_then (read_str path) (\<lambda>p.
        print (p @ '','' @ show_d (if oo_speed oo \<noteq> 0 then oo_speed oo else 115200)))
      else if if_bus f = int EP_GPIO then
        and_then (read_str (if_name f)) (\<lambda>n.
        and_then (read_str path) (\<lambda>p.
        print (n @ ''@'' @ p @ ''-'' @ show_d (uint (oo_line oo)) @ '','' @ oo_dir oo @
          (if oo_dir oo = ''out'' then '','' @ oo_out oo else []))))
      else if if_bus f = int EP_SPI then
        and_then (read_str path) (\<lambda>p.
        print (p @ '','' @ show_d (if oo_speed oo \<noteq> 0 then oo_speed oo else 5000) @ '','' @
          show_d (oo_mode oo)))
      else Inr path)"

definition open_parser :: "blocks \<Rightarrow> sub_parser" where
  "open_parser R d args olist =
     (case interfaces d of
        [] \<Rightarrow> Inl Null_Deref
      | f # fs \<Rightarrow>
          and_then (read_str (if_name f)) (\<lambda>name.
          if name = [] \<or> if_bus f < 0 then Inr None
          else
            (case args of
               [] \<Rightarrow> Inr None
             | a # others \<Rightarrow>
                 and_then (the_text R (arg_val a)) (\<lambda>p.
                 (case others of
                    b # _ \<Rightarrow> and_then (the_text R (arg_val b)) (\<lambda>_. Inr None)
                  | [] \<Rightarrow>
                      or_fail (open_options R (if_bus f) olist no_opts) (\<lambda>oo.
                      (let f1 = f\<lparr>if_path := strncpy 128 p,
                             if_managed := if oo_managed oo then 1 else if_managed f\<rparr> in
                       and_then (open_path f1 oo) (\<lambda>path.
                       Inr (Some (d\<lparr>interfaces := f1\<lparr>if_path := path\<rparr> # fs\<rparr>))))))))))"

text \<open>The name of interface \<open>num\<close>, which is added when the packet does not have it yet.\<close>

definition name_interface ::
  "libs \<Rightarrow> blocks \<Rightarrow> nat \<Rightarrow> argument \<Rightarrow> rtemgr_data \<Rightarrow> rtemgr_data option outcome" where
  "name_interface Y R k a d =
     (case (if nr_intf d \<le> int k then rtemgr_data_alloc_interface Y d else Some d) of
        None \<Rightarrow> Inr None
      | Some d1 \<Rightarrow>
          and_then (the_text R (arg_val a)) (\<lambda>v.
          if length (interfaces d1) \<le> k then Inl Out_Of_Bounds
          else Inr (Some (d1\<lparr>interfaces := (interfaces d1)
            [k := (interfaces d1 ! k)\<lparr>if_name := strncpy 16 v\<rparr>]\<rparr>))))"

fun close_args :: "libs \<Rightarrow> blocks \<Rightarrow> nat \<Rightarrow> argument list \<Rightarrow> rtemgr_data \<Rightarrow> rtemgr_data option outcome" where
  "close_args Y R k [] d = Inr (if k = 0 then None else Some d)"
| "close_args Y R k (a # as) d =
     or_fail (name_interface Y R k a d) (\<lambda>d1. close_args Y R (k + 1) as d1)"

definition close_parser :: "libs \<Rightarrow> blocks \<Rightarrow> sub_parser" where
  "close_parser Y R d args olist = close_args Y R 0 args d"

fun route_args :: "libs \<Rightarrow> blocks \<Rightarrow> nat \<Rightarrow> argument list \<Rightarrow> rtemgr_data \<Rightarrow> rtemgr_data option outcome" where
  "route_args Y R k [] d = Inr (if k \<noteq> 2 then None else Some d)"
| "route_args Y R k (a # as) d =
     (if k \<ge> 2 then and_then (the_text R (arg_val a)) (\<lambda>_. Inr None)
      else or_fail (name_interface Y R k a d) (\<lambda>d1. route_args Y R (k + 1) as d1))"

definition route_parser :: "libs \<Rightarrow> blocks \<Rightarrow> sub_parser" where
  "route_parser Y R d args olist = route_args Y R 0 args d"

text \<open>The subcommands that take one name, into the interface that the packet has.\<close>

fun one_name :: "blocks \<Rightarrow> argument list \<Rightarrow> rtemgr_data \<Rightarrow> rtemgr_data option outcome" where
  "one_name R [] d = Inr None"
| "one_name R (a # as) d =
     and_then (the_text R (arg_val a)) (\<lambda>v.
     (case interfaces d of
        [] \<Rightarrow> Inl Null_Deref
      | f # fs \<Rightarrow>
          (case as of
             [] \<Rightarrow> Inr (Some (d\<lparr>interfaces := f\<lparr>if_name := strncpy 16 v\<rparr> # fs\<rparr>))
           | b # _ \<Rightarrow> and_then (the_text R (arg_val b)) (\<lambda>_. Inr None))))"

definition forget_parser :: "blocks \<Rightarrow> sub_parser" where
  "forget_parser R d args olist = one_name R args d"

definition cat_parser :: "blocks \<Rightarrow> sub_parser" where
  "cat_parser R d args olist = one_name R args d"

fun xfer_options :: "blocks \<Rightarrow> argument list \<Rightarrow> rtecmd \<Rightarrow> rtecmd option outcome" where
  "xfer_options R [] c = Inr (Some c)"
| "xfer_options R (a # as) c =
     and_then (the_text R (arg_key a)) (\<lambda>key.
     and_then (pointer R (arg_val a)) (\<lambda>v.
     (case v of
        Some t \<Rightarrow>
          if key = ''rsize'' then xfer_options R as (c\<lparr>extra_rsize := ucast (strtoul 0 t)\<rparr>) else Inr None
      | None \<Rightarrow> Inr None)))"

definition xfer_parser :: "blocks \<Rightarrow> sub_parser" where
  "xfer_parser R d args olist =
     or_fail (one_name R args d) (\<lambda>d1.
     or_fail (xfer_options R olist (cmd d1)) (\<lambda>c.
     if val_v c = None \<or> if_bus (hd (interfaces d1)) = int EP_I2C \<and> extra_addr c = 0 then Inr None
     else Inr (Some (d1\<lparr>cmd := c\<rparr>))))"

end
