(* ===== verification/Ep_Safety.thy ===== *)
theory Ep_Safety
  imports Ep
begin

section \<open>The endpoint interface is memory safe and keeps its invariant\<close>

text \<open>
  The contract of an endpoint's open and close operations towards \<open>rteipc_open\<close> and
  \<open>rteipc_close\<close>: they only make system calls (and keep the list of loops); a successful open
  allocates a structure that nobody else has; no open frees a structure of somebody else, and
  close frees its own only. Every device keeps it, and so the whole state keeps \<open>sys_inv\<close>.
\<close>

subsection \<open>The contract of a device\<close>

definition owns :: "os \<Rightarrow> 'z os_state_scheme \<Rightarrow> nat set" where
  "owns E st = {p. Mem p \<in> held E (os_calls st)}"

definition dev_opened ::
  "os \<Rightarrow> ('x \<Rightarrow> nat) \<Rightarrow> 'z os_state_scheme \<Rightarrow> int \<times> 'x option \<times> 'z os_state_scheme \<Rightarrow> bool" where
  "dev_opened E m st = (\<lambda>(r, d, st').
     (\<exists>h. st' = st\<lparr>os_calls := h\<rparr>) \<and> owns E st \<subseteq> owns E st' \<and>
     (case d of
        None \<Rightarrow> r \<noteq> 0
      | Some x \<Rightarrow> r = 0 \<and> m x \<in> owns E st' - owns E st))"

definition quiet :: "os \<Rightarrow> 'z os_state_scheme \<Rightarrow> 'z os_state_scheme \<Rightarrow> bool" where
  "quiet E st st' \<longleftrightarrow> (\<exists>h. st' = st\<lparr>os_calls := h\<rparr>) \<and> owns E st \<subseteq> owns E st'"

definition dev_closed ::
  "os \<Rightarrow> nat \<Rightarrow> 'z os_state_scheme \<Rightarrow> 'z os_state_scheme \<Rightarrow> bool" where
  "dev_closed E p st st' \<longleftrightarrow> (\<exists>h. st' = st\<lparr>os_calls := h\<rparr>) \<and> owns E st - {p} \<subseteq> owns E st'"

fun heap_call :: "os_call \<Rightarrow> bool" where
  "heap_call (Malloc n) = True"
| "heap_call (Free p) = True"
| "heap_call _ = False"

lemma owns_simps [simp]:
  "owns E (st\<lparr>os_calls := Malloc n # h\<rparr>) =
     owns E (st\<lparr>os_calls := h\<rparr>) \<union> set_option (os_ptr E h (Malloc n))"
  "owns E (st\<lparr>os_calls := Free p # h\<rparr>) = owns E (st\<lparr>os_calls := h\<rparr>) - {p}"
  "\<not> heap_call c \<Longrightarrow> owns E (st\<lparr>os_calls := c # h\<rparr>) = owns E (st\<lparr>os_calls := h\<rparr>)"
  by (auto simp: owns_def) (cases c; auto simp: Let_def split: if_splits)+

lemma owns_same [simp]: "owns E (st\<lparr>os_calls := os_calls st\<rparr>) = owns E st"
  by (simp add: owns_def)

lemma owns_fresh:
  assumes "os_ok E" "os_ptr E (os_calls st) (Malloc n) = Some p"
  shows "p \<notin> owns E st"
  using os_okD(1) [OF assms] by (simp add: owns_def)

lemma quiet_refl [simp]: "quiet E st st"
  unfolding quiet_def by (intro conjI exI [of _ "os_calls st"]) simp_all

lemma quiet_trans: "quiet E st st1 \<Longrightarrow> quiet E st1 st2 \<Longrightarrow> quiet E st st2"
  by (auto simp: quiet_def)

lemma quiet_call [simp]: "\<not> heap_call c \<Longrightarrow> quiet E st (st\<lparr>os_calls := c # os_calls st\<rparr>)"
  by (auto simp: quiet_def)

lemma quiet_note: "\<not> heap_call c \<Longrightarrow> quiet E st st' \<Longrightarrow> quiet E st (note_call c st')"
  by (auto simp: note_call_def intro: quiet_trans)

lemma quiet_sys: "\<not> heap_call c \<Longrightarrow> quiet E st st' \<Longrightarrow> sys ans c st' = (r, st2) \<Longrightarrow> quiet E st st2"
  by (auto simp: sys_def intro: quiet_trans)

text \<open>The four ways in which an open ends.\<close>

lemma opened_no_memory: "os_ptr E (os_calls st) (Malloc n) = None \<Longrightarrow>
    sys (os_ptr E) (Malloc n) st = (x, st1) \<Longrightarrow> dev_opened E m st (-1, None, st1)"
  by (auto simp: dev_opened_def sys_def)

lemma opened_after_malloc:
  assumes "os_ok E" and "sys (os_ptr E) (Malloc n) st = (Some p, st1)" and "quiet E st1 st2"
  shows "dev_opened E m st (-1, None, note_call (Free p) st2)"
    and "dev_opened E m st (-1, None, st2)"
    and "m x = p \<Longrightarrow> dev_opened E m st (0, Some x, st2)"
proof -
  from assms(2) have p: "os_ptr E (os_calls st) (Malloc n) = Some p"
    and st1: "st1 = st\<lparr>os_calls := Malloc n # os_calls st\<rparr>" by (auto simp: sys_def)
  from assms(3) obtain h where st2: "st2 = st\<lparr>os_calls := h\<rparr>" "owns E st1 \<subseteq> owns E st2"
    by (auto simp: quiet_def st1)
  have "p \<notin> owns E st" by (rule owns_fresh [OF assms(1) p])
  moreover have "owns E st1 = insert p (owns E st)" by (simp add: st1 p)
  ultimately show "dev_opened E m st (-1, None, note_call (Free p) st2)"
    and "dev_opened E m st (-1, None, st2)"
    and "m x = p \<Longrightarrow> dev_opened E m st (0, Some x, st2)"
    using st2 by (auto simp: dev_opened_def note_call_def)
qed

lemma opened_none: "r \<noteq> 0 \<Longrightarrow> dev_opened E m st (r, None, st)"
  unfolding dev_opened_def by (auto intro: exI [of _ "os_calls st"])


subsection \<open>Every device keeps the contract\<close>

lemma init_i2c_quiet: "init_i2c E path st = (fd, st') \<Longrightarrow> quiet E st st'"
  by (auto simp: init_i2c_def os_defs Let_def quiet_def split: if_splits)

lemma i2c_dev_opened:
  assumes "os_ok E"
  shows "dev_opened E (i2c_mem :: i2c_data \<Rightarrow> nat) st (i2c_open E path st)"
proof -
  obtain q st1 where m: "sys (os_ptr E) (Malloc 4) st = (q, st1)" by fastforce
  obtain fd st2 where i: "init_i2c E path st1 = (fd, st2)" by fastforce
  show ?thesis
  proof (cases q)
    case None
    with m show ?thesis by (auto simp: i2c_open_def sys_def intro: opened_no_memory)
  next
    case (Some p)
    note * = opened_after_malloc [OF assms m [unfolded Some] init_i2c_quiet [OF i], where m = "i2c_mem :: i2c_data \<Rightarrow> nat"]
    show ?thesis using m i Some *(1) *(3) [of "\<lparr>i2c_mem = p, i2c_fd = fd\<rparr>"]
      by (simp add: i2c_open_def)
  qed
qed

lemma init_spidev_quiet: "init_spidev E path sp md st = (fd, st') \<Longrightarrow> quiet E st st'"
  by (auto simp: init_spidev_def os_defs Let_def quiet_def split: if_splits)

lemma spi_dev_opened:
  assumes "os_ok E" and op: "spidev_open E path st = Inr res"
  shows "dev_opened E spi_mem st res"
proof -
  obtain q st1 where m: "sys (os_ptr E) (Malloc 4) st = (q, st1)" by fastforce
  from op obtain dev speed md where scan: "spi_scan path = Inr (dev, speed, md)"
    by (auto simp: spidev_open_def and_then_eq_Inr)
  show ?thesis
  proof (cases q)
    case None
    with m scan op show ?thesis by (auto simp: spidev_open_def sys_def intro: opened_no_memory)
  next
    case (Some p)
    with m scan op obtain sp where sp: "speed = Some sp"
      by (auto simp: spidev_open_def split: option.splits)
    obtain fd st2 where i: "init_spidev E dev sp md st1 = (fd, st2)" by fastforce
    note * = opened_after_malloc [OF assms(1) m [unfolded Some] init_spidev_quiet [OF i], where m = "spi_mem :: spi_data \<Rightarrow> nat"]
    show ?thesis using m i Some sp scan op *(2) *(3) [of "\<lparr>spi_mem = p, spi_fd = fd\<rparr>"]
      by (auto simp: spidev_open_def split: if_splits)
  qed
qed

lemma uart_flush_quiet:
  assumes "uart_flush E fd st = Some st'"
  shows "quiet E st st'"
proof (rule uart_flush.raw_induct [where P = "\<lambda>E fd. quiet E", OF _ assms])
  fix f E fd and st st' :: "'a os_state_scheme"
  assume IH: "\<And>E fd st st'. f E fd st = Some st' \<Longrightarrow> quiet E st st'"
    and step: "(case sys (os_int E) (Sys_Read fd 256) st of
        (ret, st1) \<Rightarrow> if 0 < ret \<or> ret = - 4 then f E fd st1 else Some st1) = Some st'"
  obtain r st1 where s: "sys (os_int E) (Sys_Read fd 256) st = (r, st1)" by fastforce
  have "quiet E st st1" using s by (auto simp: sys_def)
  with step s IH [of E fd st1 st'] show "quiet E st st'"
    by (auto split: if_splits intro: quiet_trans)
qed

lemma open_uart_quiet: 
  assumes "open_uart E path speed st = Inr (fd, st')"
  shows "quiet E st st'"
proof -
  have flush: "quiet E st0 st4" if "quiet E st0 st3" "uart_flush E f st3 = Some st4" for st0 st3 st4 :: "'a os_state_scheme" and f
    using that quiet_trans uart_flush_quiet by blast
  show ?thesis using assms
    by (auto simp: open_uart_def os_defs quiet_def split: if_splits option.splits dest!: flush [rotated])
qed

lemma tty_dev_opened:
  assumes "os_ok E" and op: "tty_open E path st = Inr res"
  shows "dev_opened E (tty_mem :: tty_data \<Rightarrow> nat) st res"
proof -
  obtain q st1 where m: "sys (os_ptr E) (Malloc 16) st = (q, st1)" by fastforce
  from op obtain dev baud where scan: "tty_scan path = Inr (dev, baud)"
    by (auto simp: tty_open_def and_then_eq_Inr)
  show ?thesis
  proof (cases q)
    case None
    with m scan op show ?thesis by (auto simp: tty_open_def sys_def intro: opened_no_memory)
  next
    case (Some p)
    with m scan op obtain fd st2 where u: "open_uart E dev (tty_speed baud) st1 = Inr (fd, st2)"
      by (auto simp: tty_open_def and_then_eq_Inr)
    note quiet = open_uart_quiet [OF u]
    note * = opened_after_malloc [OF assms(1) m [unfolded Some], where m = "tty_mem :: tty_data \<Rightarrow> nat"]
    from *(1) [OF quiet] *(3) [OF quiet_note [OF _ quiet, of "Event_Add fd"], of "\<lparr>tty_mem = p, tty_fd = fd\<rparr>"]
    show ?thesis using m Some scan op u by (auto simp: tty_open_def split: if_splits)
  qed
qed

lemma gpio_dev_opened:
  assumes "os_ok E" and op: "gpio_open E path st = Inr res"
  shows "dev_opened E (gpio_mem :: gpio_data \<Rightarrow> nat) st res"
proof -
  obtain g where g: "gpio_scan path = Inr g" "res = gpio_open_line E g st"
    using op by (auto simp: gpio_open_def and_then_eq_Inr)
  obtain q st1 where m: "sys (os_ptr E) (Malloc 32) st = (q, st1)" by fastforce
  show ?thesis
  proof (cases q)
    case None
    with m g show ?thesis by (auto simp: gpio_open_line_def sys_def intro: opened_no_memory)
  next
    case (Some p)
    note * = opened_after_malloc [OF assms(1) m [unfolded Some], where m = "gpio_mem :: gpio_data \<Rightarrow> nat"]
    obtain c st2 where c: "sys (os_ptr E) (Chip_Open (gp_chip_path g)) st1 = (c, st2)" by fastforce
    have q2: "quiet E st1 st2" by (rule quiet_sys [OF _ _ c]) simp_all
    show ?thesis
    proof (cases c)
      case None
      with *(1) [OF q2] m c Some g(2) show ?thesis by (simp add: gpio_open_line_def Let_def)
    next
      case (Some chip)
      note chip = Some
      obtain l st3 where l: "sys (os_ptr E) (Chip_Get_Line chip (gp_num g)) st2 = (l, st3)" by fastforce
      have q3: "quiet E st1 st3" by (rule quiet_sys [OF _ q2 l]) simp
      have fail: "dev_opened E (gpio_mem :: gpio_data \<Rightarrow> nat) st
          (-1, None, note_call (Free p) (note_call (Chip_Close chip) st'))" if "quiet E st1 st'" for st'
        by (rule *(1) [OF quiet_note [OF _ that]]) simp
      show ?thesis
      proof (cases l)
        case None
        with fail [OF q3] m c l \<open>q = Some p\<close> chip g(2) show ?thesis by (simp add: gpio_open_line_def Let_def)
      next
        case (Some line)
        obtain r st4 where r: "sys (os_int E) (Line_Request_Output line (gp_consumer g) (gp_val g)) st3 = (r, st4)"
          by fastforce
        obtain r' st4' where r': "sys (os_int E) (Line_Request_Events line (gp_consumer g)) st3 = (r', st4')"
          by fastforce
        obtain fd st5 where fd: "sys (os_int E) (Line_Event_Fd line) st4' = (fd, st5)" by fastforce
        have q4: "quiet E st1 st4" by (rule quiet_sys [OF _ q3 r]) simp
        have q4': "quiet E st1 st4'" by (rule quiet_sys [OF _ q3 r']) simp
        have q5: "quiet E st1 st5" by (rule quiet_sys [OF _ q4' fd]) simp
        have q6: "quiet E st1 (note_call (Event_Add fd) st5)" by (rule quiet_note [OF _ q5]) simp
        note res = g(2) m c l r r' fd \<open>q = Some p\<close> chip Some
        show ?thesis
          using fail [OF q3] fail [OF q4] fail [OF q4'] fail [OF q5] *(3) [OF q4] *(3) [OF q6] res
          by (simp add: gpio_open_line_def Let_def)
      qed
    qed
  qed
qed

lemma sysfs_device_quiet: "sysfs_device_of E buf st = (d, st') \<Longrightarrow> quiet E st st'"
  by (auto simp: sysfs_device_of_def os_defs quiet_def split: option.splits)

lemma sysfs_dev_opened:
  assumes "os_ok E" and op: "sysfs_open E path st = Inr res"
  shows "dev_opened E (sysfs_mem :: sysfs_data \<Rightarrow> nat) st res"
proof -
  obtain q st1 where m: "sys (os_ptr E) (Malloc 8) st = (q, st1)" by fastforce
  show ?thesis
  proof (cases q)
    case None
    with m op show ?thesis by (auto simp: sysfs_open_def sys_def intro: opened_no_memory)
  next
    case (Some p)
    note * = opened_after_malloc [OF assms(1) m [unfolded Some], where m = "sysfs_mem :: sysfs_data \<Rightarrow> nat"]
    obtain u st2 where u: "sys (os_ptr E) Udev_New st1 = (u, st2)" by fastforce
    have q2: "quiet E st1 st2" by (rule quiet_sys [OF _ _ u]) simp_all
    show ?thesis
    proof (cases u)
      case None
      with *(1) [OF q2] m u Some op show ?thesis by (simp add: sysfs_open_def)
    next
      case (Some udev)
      with op m u \<open>q = Some p\<close> obtain buf where buf: "read_str (strncpy PATH_MAX path) = Inr buf"
        by (auto simp: sysfs_open_def and_then_eq_Inr)
      obtain d st3 where d: "sysfs_device_of E buf st2 = (d, st3)" by fastforce
      have q3: "quiet E st1 st3" using quiet_trans [OF q2 sysfs_device_quiet [OF d]] .
      have q4: "quiet E st1 (note_call (Udev_Unref udev) st3)" by (rule quiet_note [OF _ q3]) simp
      show ?thesis using *(3) [OF q3] *(1) [OF q4] op m u \<open>q = Some p\<close> Some buf d
        by (auto simp: sysfs_open_def split: option.splits)
    qed
  qed
qed

lemma inet_addr_quiet:
  assumes "ipc_inet_addr E path st = Inr (a, st')"
  shows "quiet E st st'"
proof -
  from assms obtain sip sport where
    "(case sys (os_data E) (Inet_Pton sip) st of
        (None, st1) \<Rightarrow> Inr (None, st1)
      | (Some ip, st1) \<Rightarrow>
          (let (port, err) = (if sport = [] then (9110, False) else strtol10 sport)
           in if err then Inr (None, st1)
              else Inr (Some (le16 2 @ be16 (word_of_int port) @ ip @ replicate 8 0), st1))) =
     (Inr (a, st') :: (byte list option \<times> 'a os_state_scheme) outcome)"
    unfolding ipc_inet_addr_def and_then_eq_Inr by (auto simp only: prod.case)
  moreover obtain d st1 where "sys (os_data E) (Inet_Pton sip) st = (d, st1)" by fastforce
  moreover from this have "quiet E st st1" by (auto simp: sys_def)
  ultimately show ?thesis by (auto simp: Let_def split: option.splits prod.splits if_splits)
qed

lemma ipc_dev_opened:
  assumes "os_ok E" and op: "ipc_open E type path st = Inr res"
  shows "dev_opened E (ipc_mem :: ipc_data \<Rightarrow> nat) st res"
proof -
  obtain q st1 where m: "sys (os_ptr E) (Malloc 32) st = (q, st1)" by fastforce
  show ?thesis
  proof (cases q)
    case None
    with m op show ?thesis by (auto simp: ipc_open_def sys_def intro: opened_no_memory)
  next
    case (Some p)
    note * = opened_after_malloc [OF assms(1) m [unfolded Some], where m = "ipc_mem :: ipc_data \<Rightarrow> nat"]
    have bind: "sys (os_ptr E) (Listener_New addr n) st2 = (None, st') \<Longrightarrow>
        dev_opened E (ipc_mem :: ipc_data \<Rightarrow> nat) st (-1, None, st')"
      "sys (os_ptr E) (Listener_New addr n) st2 = (Some el, st') \<Longrightarrow>
        dev_opened E (ipc_mem :: ipc_data \<Rightarrow> nat) st (0, Some \<lparr>ipc_mem = p, ipc_el = el, ipc_cli = None,
          ipc_path = pth, ipc_abstract = ab\<rparr>, st')"
      if "quiet E st1 st2" for addr n pth ab st2 st' el
      using *(2,3) quiet_sys [OF _ that, of "Listener_New addr n" "os_ptr E"] by simp_all
    have un: "quiet E st1 st2" if "sys (os_ptr E) (Malloc n) (note_call (Sys_Unlink (Some path)) st1) = (x, st2)" for n x st2
    proof -
      have "quiet E st1 (note_call (Sys_Unlink (Some path)) st1)" by (rule quiet_note) simp_all
      moreover have "quiet E (note_call (Sys_Unlink (Some path)) st1) st2"
        using that by (auto simp: sys_def quiet_def)
      ultimately show ?thesis by (rule quiet_trans)
    qed
    show ?thesis
    proof (cases "type = EP_INET")
      case True
      with op m Some obtain a st2 where a: "ipc_inet_addr E path st1 = Inr (a, st2)"
        by (auto simp: ipc_open_def and_then_eq_Inr Let_def)
      note q2 = inet_addr_quiet [OF a]
      show ?thesis using *(2) [OF q2] op m Some True a
        by (auto simp: ipc_open_def Let_def split: option.splits prod.splits intro: bind [OF q2])
    next
      case False
      show ?thesis using op m Some False
        by (auto simp: ipc_open_def Let_def split: option.splits prod.splits if_splits
            intro: bind [OF quiet_refl] bind [OF un])
    qed
  qed
qed

lemma dev_closed_all:
  "dev_closed E (i2c_mem i) st (i2c_close i st)"
  "dev_closed E (spi_mem s) st (spidev_close s st)"
  "dev_closed E (tty_mem t) st (tty_close t st)"
  "dev_closed E (sysfs_mem y) st (sysfs_close y st)"
  "dev_closed E (gpio_mem g) st (gpio_close g st)"
  "dev_closed E (ipc_mem c) st (ipc_close c st)"
  by (auto simp: dev_closed_def i2c_close_def spidev_close_def tty_close_def sysfs_close_def
      gpio_close_def ipc_close_def note_call_def Let_def split: option.splits)


subsection \<open>The invariant of the private data\<close>

text \<open>
  \<open>view st\<close> is what closing an endpoint needs to know of it: descriptor, type and private data.
  Every endpoint has a descriptor and data of its own of the right kind, in memory that is
  allocated; the open loops are exactly those that are the private data of some endpoint.
\<close>

fun priv_mem :: "ep_priv \<Rightarrow> nat" where
  "priv_mem (Ipc_Priv d) = ipc_mem d"
| "priv_mem (Tty_Priv d) = tty_mem d"
| "priv_mem (Gpio_Priv d) = gpio_mem d"
| "priv_mem (Spi_Priv d) = spi_mem d"
| "priv_mem (I2c_Priv d) = i2c_mem d"
| "priv_mem (Sysfs_Priv d) = sysfs_mem d"
| "priv_mem (Loop_Priv p) = p"

fun priv_ops :: "ep_priv \<Rightarrow> ep_ops" where
  "priv_ops (Ipc_Priv d) = Ipc_Ops"
| "priv_ops (Tty_Priv d) = Tty_Ops"
| "priv_ops (Gpio_Priv d) = Gpio_Ops"
| "priv_ops (Spi_Priv d) = Spi_Ops"
| "priv_ops (I2c_Priv d) = I2c_Ops"
| "priv_ops (Sysfs_Priv d) = Sysfs_Ops"
| "priv_ops (Loop_Priv p) = Loop_Ops"

type_synonym ep_view = "addr \<rightharpoonup> int \<times> nat \<times> ep_priv option"

definition view :: "rsys \<Rightarrow> ep_view" where
  "view st a = map_option (\<lambda>c. (core_id c, ep_type c, ep_data c)) (cores st a)"

definition data_ok :: "os \<Rightarrow> ep_view \<Rightarrow> rsys \<Rightarrow> bool" where
  "data_ok E V st \<longleftrightarrow>
     loops_ok E st \<and>
     (\<forall>a i t x. V a = Some (i, t, x) \<longrightarrow> i \<noteq> -1 \<and>
        (\<exists>d. x = Some d \<and> ep_ops_list t = Some (priv_ops d) \<and> priv_mem d \<in> owns E st)) \<and>
     (\<forall>a b i j s t x y. V a = Some (i, s, Some x) \<longrightarrow> V b = Some (j, t, Some y) \<longrightarrow>
        priv_mem x = priv_mem y \<longrightarrow> a = b) \<and>
     lo_addr ` set (lo_list st) = {p. \<exists>a i t. V a = Some (i, t, Some (Loop_Priv p))}"

lemma data_okD:
  assumes "data_ok E V st"
  shows data_ok_loops: "loops_ok E st"
    and data_ok_priv: "V a = Some (i, t, x) \<Longrightarrow> i \<noteq> -1 \<and>
      (\<exists>d. x = Some d \<and> ep_ops_list t = Some (priv_ops d) \<and> priv_mem d \<in> owns E st)"
    and data_ok_inj: "V a = Some (i, t, Some y) \<Longrightarrow> V b = Some (j, s, Some z) \<Longrightarrow>
      priv_mem y = priv_mem z \<Longrightarrow> a = b"
    and data_ok_names: "lo_addr ` set (lo_list st) = {p. \<exists>a i t. V a = Some (i, t, Some (Loop_Priv p))}"
  using assms unfolding data_ok_def by blast+

definition sys_inv :: "os \<Rightarrow> rsys \<Rightarrow> bool" where
  "sys_inv E st \<longleftrightarrow> core_inv st \<and> data_ok E (view st) st"

text \<open>What an open of an endpoint's operations may do, and a close.\<close>

definition opened :: "os \<Rightarrow> ep_ops \<Rightarrow> rsys \<Rightarrow> int \<times> ep_priv option \<times> rsys \<Rightarrow> bool" where
  "opened E ops st = (\<lambda>(r, d, st').
     (\<exists>h ls. st' = st\<lparr>os_calls := h, lo_list := ls\<rparr>) \<and> owns E st \<subseteq> owns E st' \<and> loops_ok E st' \<and>
     (case d of
        None \<Rightarrow> r \<noteq> 0 \<and> lo_list st' = lo_list st
      | Some x \<Rightarrow> r = 0 \<and> priv_ops x = ops \<and> priv_mem x \<in> owns E st' - owns E st \<and>
          lo_addr ` set (lo_list st') =
            lo_addr ` set (lo_list st) \<union> {p. x = Loop_Priv p}))"

definition closed :: "os \<Rightarrow> ep_priv \<Rightarrow> rsys \<Rightarrow> rsys \<Rightarrow> bool" where
  "closed E x st st' \<longleftrightarrow>
     (\<exists>h ls. st' = st\<lparr>os_calls := h, lo_list := ls\<rparr>) \<and> owns E st - {priv_mem x} \<subseteq> owns E st' \<and>
     loops_ok E st' \<and>
     lo_addr ` set (lo_list st') = lo_addr ` set (lo_list st) - {p. x = Loop_Priv p}"

lemma loops_ok_owned:
  assumes "loops_ok E st" "lo_list st' = lo_list st"
    and "\<And>lo. lo \<in> set (lo_list st) \<Longrightarrow> lo_addr lo \<in> owns E st'"
  shows "loops_ok E st'"
  using assms(1,3) unfolding loops_ok_def assms(2) by (simp add: owns_def)

lemma loops_ok_quiet:
  assumes "loops_ok E st" "owns E st \<subseteq> owns E st'" "lo_list st' = lo_list st"
  shows "loops_ok E st'"
  using assms by (auto simp: loops_ok_def owns_def)

locale private_device =
  fixes sane :: bool
    and E :: os
    and wrap :: "'x \<Rightarrow> ep_priv"
    and tbl :: ep_ops
    and op :: "string \<Rightarrow> rsys \<Rightarrow> (int \<times> 'x option \<times> rsys) outcome"
    and cl :: "'x \<Rightarrow> rsys \<Rightarrow> rsys"
  assumes wrap_ops: "priv_ops (wrap x) = tbl"
    and not_loop: "tbl \<noteq> Loop_Ops"
    and op_contract: "sane \<Longrightarrow> op path st = Inr res \<Longrightarrow> dev_opened E (\<lambda>x. priv_mem (wrap x)) st res"
    and cl_contract: "dev_closed E (priv_mem (wrap x)) st (cl x st)"
begin

lemma wrap_not_loop [simp]: "wrap x \<noteq> Loop_Priv p"
  using wrap_ops [of x] not_loop by auto

lemma opens:
  assumes sane "loops_ok E st" "op path st = Inr res"
  shows "opened E tbl st (as_priv wrap res)"
proof -
  obtain r d st' where res: "res = (r, d, st')" by (cases res)
  have c: "dev_opened E (\<lambda>x. priv_mem (wrap x)) st res" by (rule op_contract [OF assms(1,3)])
  then obtain h where h: "st' = st\<lparr>os_calls := h\<rparr>" "owns E st \<subseteq> owns E st'"
    by (auto simp: dev_opened_def res)
  have "loops_ok E st'" by (rule loops_ok_quiet [OF assms(2) h(2)]) (simp add: h(1))
  moreover have "\<exists>h' ls. st' = st\<lparr>os_calls := h', lo_list := ls\<rparr>"
    by (intro exI [of _ h] exI [of _ "lo_list st"]) (simp add: h(1))
  ultimately show ?thesis
    using c h by (auto simp: opened_def dev_opened_def res as_priv_def wrap_ops split: option.splits)
qed

lemma keeps_loops:
  assumes sane "op path st = Inr (r, d, st')"
  shows "lo_list st' = lo_list st"
  using op_contract [OF assms] by (auto simp: dev_opened_def)

lemma closes:
  assumes "data_ok E V st" "V a = Some (i, t, Some (wrap x))"
  shows "closed E (wrap x) st (cl x st)"
proof -
  let ?st' = "cl x st"
  obtain h where h: "?st' = st\<lparr>os_calls := h\<rparr>" "owns E st - {priv_mem (wrap x)} \<subseteq> owns E ?st'"
    using cl_contract [of x st] by (auto simp: dev_closed_def)
  have "lo_addr lo \<in> owns E ?st'" if lo: "lo \<in> set (lo_list st)" for lo
  proof -
    have "lo_addr lo \<in> lo_addr ` set (lo_list st)" using lo by simp
    then obtain b j s where b: "V b = Some (j, s, Some (Loop_Priv (lo_addr lo)))"
      unfolding data_ok_names [OF assms(1)] by blast
    have "priv_mem (wrap x) \<noteq> lo_addr lo"
    proof
      assume "priv_mem (wrap x) = lo_addr lo"
      then have "a = b" using data_ok_inj [OF assms(1) assms(2) b] by simp
      with b assms(2) show False using wrap_not_loop [of x "lo_addr lo"] by auto
    qed
    moreover have "lo_addr lo \<in> owns E st"
      using loops_okD(3) [OF data_ok_loops [OF assms(1)] lo] by (simp add: owns_def)
    ultimately have "lo_addr lo \<in> owns E st - {priv_mem (wrap x)}" by simp
    then show ?thesis by (rule subsetD [OF h(2)])
  qed
  note own = this
  have ls: "lo_list ?st' = lo_list st" by (simp add: h(1))
  have loops: "loops_ok E ?st'" by (rule loops_ok_owned [OF data_ok_loops [OF assms(1)] ls own])
  have "st\<lparr>os_calls := h\<rparr> = st\<lparr>os_calls := h, lo_list := lo_list st\<rparr>" by simp
  with h(1) have "\<exists>h' ls. ?st' = st\<lparr>os_calls := h', lo_list := ls\<rparr>" by metis
  moreover have "lo_addr ` set (lo_list ?st') = lo_addr ` set (lo_list st) - {p. wrap x = Loop_Priv p}"
    by (simp add: ls)
  ultimately show ?thesis unfolding closed_def using h(2) loops by blast
qed

end

interpretation ipc_kind: private_device "os_ok E" E Ipc_Priv Ipc_Ops "ipc_open E type" ipc_close for E type
  by unfold_locales (use ipc_dev_opened dev_closed_all in auto)

interpretation tty_kind: private_device "os_ok E" E Tty_Priv Tty_Ops "tty_open E" tty_close for E
  by unfold_locales (use tty_dev_opened dev_closed_all in auto)

interpretation gpio_kind: private_device "os_ok E" E Gpio_Priv Gpio_Ops "gpio_open E" gpio_close for E
  by unfold_locales (use gpio_dev_opened dev_closed_all in auto)

interpretation spi_kind: private_device "os_ok E" E Spi_Priv Spi_Ops "spidev_open E" spidev_close for E
  by unfold_locales (use spi_dev_opened dev_closed_all in auto)

interpretation i2c_kind: private_device "os_ok E" E I2c_Priv I2c_Ops "\<lambda>p st. Inr (i2c_open E p st)" i2c_close
  for E
proof unfold_locales
  fix path st res
  assume "os_ok E" "Inr (i2c_open E path st) = Inr res"
  then show "dev_opened E (\<lambda>x. priv_mem (I2c_Priv x)) st res" using i2c_dev_opened [of E st path] by simp
qed (use dev_closed_all in auto)

interpretation sysfs_kind: private_device "os_ok E" E Sysfs_Priv Sysfs_Ops "sysfs_open E" sysfs_close for E
  by unfold_locales (use sysfs_dev_opened dev_closed_all in auto)

subsection \<open>Opening and closing keep the invariant of the private data\<close>

lemma loop_open_frame:
  assumes "loop_open E self path st = (r, d, st')"
  shows "st' = st\<lparr>os_calls := os_calls st', lo_list := lo_list st'\<rparr>" "owns E st \<subseteq> owns E st'"
    "lo_addr ` set (lo_list st') = lo_addr ` set (lo_list st) \<union> set_option d"
    "d = None \<Longrightarrow> lo_list st' = lo_list st"
    "d = Some p \<Longrightarrow> os_ptr E (os_calls st) (Malloc 56) = Some p \<and> p \<in> owns E st'"
  using assms by (auto simp: loop_open_def sys_def owns_def split: if_splits option.splits)

lemma loop_opened:
  assumes "os_ok E" "loops_ok E st" and op: "loop_open E self path st = (r, d, st')"
  shows "opened E Loop_Ops st (as_priv Loop_Priv (r, d, st'))"
proof -
  note frame = loop_open_frame [OF op]
  have ex: "\<exists>h ls. st' = st\<lparr>os_calls := h, lo_list := ls\<rparr>" using frame(1) by blast
  show ?thesis
  proof (cases d)
    case None
    with lo.add_fails [OF op [unfolded None] assms(2)] frame ex show ?thesis
      by (simp add: opened_def as_priv_def)
  next
    case (Some p)
    have "p \<notin> owns E st" by (rule owns_fresh [OF assms(1)]) (use frame(5) [OF Some] in blast)
    with Some lo.add_works [OF assms(1,2) op [unfolded Some]] frame ex show ?thesis
      by (simp add: opened_def as_priv_def)
  qed
qed

lemma ops_opened:
  assumes "os_ok E" "loops_ok E st" and op: "ops_open E ops type self path st = Inr res"
  shows "opened E ops st res"
proof (cases ops)
  case Loop_Ops
  with op loop_opened [OF assms(1,2)] show ?thesis by (cases "loop_open E self path st") (auto simp: ops_open_def)
next
  case I2c_Ops
  with op i2c_kind.opens [OF assms(1,2) refl, of path] show ?thesis by (simp add: ops_open_def)
next
  case Ipc_Ops
  with op ipc_kind.opens [OF assms(1,2)] show ?thesis by (auto simp: ops_open_def and_then_eq_Inr)
next
  case Tty_Ops
  with op tty_kind.opens [OF assms(1,2)] show ?thesis by (auto simp: ops_open_def and_then_eq_Inr)
next
  case Gpio_Ops
  with op gpio_kind.opens [OF assms(1,2)] show ?thesis by (auto simp: ops_open_def and_then_eq_Inr)
next
  case Spi_Ops
  with op spi_kind.opens [OF assms(1,2)] show ?thesis by (auto simp: ops_open_def and_then_eq_Inr)
next
  case Sysfs_Ops
  with op sysfs_kind.opens [OF assms(1,2)] show ?thesis by (auto simp: ops_open_def and_then_eq_Inr)
qed

text \<open>Only a loop changes the list of loops.\<close>

lemma ops_open_loops:
  assumes "os_ok E" "ops_open E ops type self path st = Inr (r, d, st')" "ops \<noteq> Loop_Ops"
  shows "lo_list st' = lo_list st"
  using assms(2,3) ipc_kind.keeps_loops [OF assms(1)] tty_kind.keeps_loops [OF assms(1)] gpio_kind.keeps_loops [OF assms(1)]
    spi_kind.keeps_loops [OF assms(1)] i2c_kind.keeps_loops [OF assms(1)] sysfs_kind.keeps_loops [OF assms(1)]
  by (cases ops) (auto simp: ops_open_def as_priv_def and_then_eq_Inr split: prod.splits)

lemma loop_closed:
  assumes ok: "data_ok E V st" and V: "V a = Some (i, t, Some (Loop_Priv p))"
  shows "\<exists>st'. loop_close p st = Inr st' \<and> closed E (Loop_Priv p) st st'"
proof -
  have "p \<in> lo_addr ` set (lo_list st)" unfolding data_ok_names [OF ok] using V by blast
  then obtain lo where lo: "lo \<in> set (lo_list st)" "lo_addr lo = p" by auto
  have loops: "loops_ok E st" using ok by (simp add: data_ok_def)
  from lo(1) have "lookup_lo (lo_name lo) st = Some lo"
    using find_distinct [OF loops_okD(1) [OF loops]] by (simp add: lookup_lo_def)
  from lo.del_works [OF loops this] lo(2) obtain st' where
    st': "loop_close p st = Inr st'" "loops_ok E st'" by auto
  then have "st' = st\<lparr>os_calls := Free p # os_calls st, lo_list := filter (\<lambda>l. lo_addr l \<noteq> p) (lo_list st)\<rparr>"
    by (auto simp: loop_close_def note_call_def and_then_eq_Inr)
  with st' show ?thesis by (auto simp: closed_def owns_def)
qed

lemma ops_closed:
  assumes "data_ok E V st" "V a = Some (i, t, Some x)"
  shows "\<exists>st'. ops_close (priv_ops x) (Some x) st = Inr st' \<and> closed E x st st'"
proof (cases x)
  case (Loop_Priv p)
  with loop_closed assms show ?thesis by (simp add: ops_close_def)
next
  case (Ipc_Priv d)
  with ipc_kind.closes [OF assms [unfolded Ipc_Priv]] show ?thesis by (simp add: ops_close_def)
next
  case (Tty_Priv d)
  with tty_kind.closes [OF assms [unfolded Tty_Priv]] show ?thesis by (simp add: ops_close_def)
next
  case (Gpio_Priv d)
  with gpio_kind.closes [OF assms [unfolded Gpio_Priv]] show ?thesis by (simp add: ops_close_def)
next
  case (Spi_Priv d)
  with spi_kind.closes [OF assms [unfolded Spi_Priv]] show ?thesis by (simp add: ops_close_def)
next
  case (I2c_Priv d)
  with i2c_kind.closes [OF assms [unfolded I2c_Priv]] show ?thesis by (simp add: ops_close_def)
next
  case (Sysfs_Priv d)
  with sysfs_kind.closes [OF assms [unfolded Sysfs_Priv]] show ?thesis by (simp add: ops_close_def)
qed

lemma data_ok_add:
  assumes ok: "data_ok E V st" and V: "V a = None"
    and op: "opened E ops st (0, Some x, st')" and "i \<noteq> -1" "ep_ops_list t = Some ops"
  shows "data_ok E (V(a \<mapsto> (i, t, Some x))) st'"
proof -
  have x: "priv_ops x = ops" "priv_mem x \<in> owns E st'" "priv_mem x \<notin> owns E st"
      "owns E st \<subseteq> owns E st'" "loops_ok E st'"
      "lo_addr ` set (lo_list st') = lo_addr ` set (lo_list st) \<union> {p. x = Loop_Priv p}"
    using op by (simp_all add: opened_def)
  have mem: "priv_mem y \<noteq> priv_mem x" if "V b = Some (j, s, Some y)" for b j s y
    using data_ok_priv [OF ok that] x(3) by auto
  show ?thesis
    unfolding data_ok_def
  proof (intro conjI allI impI)
    show "loops_ok E st'" by (rule x(5))
  next
    fix b j s y
    assume b: "(V(a \<mapsto> (i, t, Some x))) b = Some (j, s, y)"
    have "j \<noteq> -1 \<and> (\<exists>d. y = Some d \<and> ep_ops_list s = Some (priv_ops d) \<and> priv_mem d \<in> owns E st')"
    proof (cases "b = a")
      case True
      with b assms(4,5) x show ?thesis by auto
    next
      case False
      with b have "V b = Some (j, s, y)" by simp
      from data_ok_priv [OF ok this] x(4) show ?thesis by blast
    qed
    then show "j \<noteq> -1" "\<exists>d. y = Some d \<and> ep_ops_list s = Some (priv_ops d) \<and> priv_mem d \<in> owns E st'"
      by blast+
  next
    fix b c j k s r y z
    assume b: "(V(a \<mapsto> (i, t, Some x))) b = Some (j, s, Some y)"
      and c: "(V(a \<mapsto> (i, t, Some x))) c = Some (k, r, Some z)" and eq: "priv_mem y = priv_mem z"
    show "b = c"
    proof (cases "b = a \<or> c = a")
      case True
      with b c eq mem [of b j s y] mem [of c k r z] show ?thesis by (auto split: if_splits)
    next
      case False
      with b c show ?thesis using data_ok_inj [OF ok _ _ eq, of b j s c k r] by simp
    qed
  next
    have "(\<exists>b j s. (V(a \<mapsto> (i, t, Some x))) b = Some (j, s, Some (Loop_Priv p))) \<longleftrightarrow>
        (\<exists>b j s. V b = Some (j, s, Some (Loop_Priv p))) \<or> x = Loop_Priv p" for p
      using V by (auto intro: exI [of _ a]) (metis option.distinct(1))
    then show "lo_addr ` set (lo_list st') =
        {p. \<exists>b j s. (V(a \<mapsto> (i, t, Some x))) b = Some (j, s, Some (Loop_Priv p))}"
      unfolding x(6) data_ok_names [OF ok] by blast
  qed
qed

lemma data_ok_del:
  assumes ok: "data_ok E V st" and V: "V a = Some (i, t, Some x)" and cl: "closed E x st st'"
  shows "data_ok E (V(a := None)) st'"
proof -
  have x: "owns E st - {priv_mem x} \<subseteq> owns E st'" "loops_ok E st'"
      "lo_addr ` set (lo_list st') = lo_addr ` set (lo_list st) - {p. x = Loop_Priv p}"
    using cl by (simp_all add: closed_def)
  show ?thesis
    unfolding data_ok_def
  proof (intro conjI allI impI)
    show "loops_ok E st'" by (rule x(2))
  next
    fix b j s y
    assume "(V(a := None)) b = Some (j, s, y)"
    then have b: "b \<noteq> a" "V b = Some (j, s, y)" by (auto split: if_splits)
    from data_ok_priv [OF ok b(2)] obtain d where
      d: "j \<noteq> -1" "y = Some d" "ep_ops_list s = Some (priv_ops d)" "priv_mem d \<in> owns E st"
      by blast
    moreover have "priv_mem d \<noteq> priv_mem x"
      using data_ok_inj [OF ok b(2) [unfolded d(2)] V] b(1) by blast
    ultimately show "j \<noteq> -1" "\<exists>d. y = Some d \<and> ep_ops_list s = Some (priv_ops d) \<and> priv_mem d \<in> owns E st'"
      using x(1) by blast+
  next
    fix b c j k s r y z
    assume "(V(a := None)) b = Some (j, s, Some y)" "(V(a := None)) c = Some (k, r, Some z)"
      "priv_mem y = priv_mem z"
    then show "b = c" using data_ok_inj [OF ok, of b j s y c k r z] by (simp split: if_splits)
  next
    have "(\<exists>b j s. (V(a := None)) b = Some (j, s, Some (Loop_Priv p))) \<longleftrightarrow>
        (\<exists>b j s. V b = Some (j, s, Some (Loop_Priv p))) \<and> x \<noteq> Loop_Priv p" for p
    proof (cases "x = Loop_Priv p")
      case True
      then have "b = a" if "V b = Some (j, s, Some (Loop_Priv p))" for b j s
        using data_ok_inj [OF ok that V] by simp
      with True show ?thesis by auto
    next
      case False
      then have "b \<noteq> a" if "V b = Some (j, s, Some (Loop_Priv p))" for b j s
        using that V by auto
      with False show ?thesis by auto
    qed
    then show "lo_addr ` set (lo_list st') =
        {p. \<exists>b j s. (V(a := None)) b = Some (j, s, Some (Loop_Priv p))}"
      unfolding x(3) data_ok_names [OF ok] by blast
  qed
qed

lemma data_ok_cong:
  assumes "data_ok E V st" "os_calls st' = os_calls st" "lo_list st' = lo_list st"
  shows "data_ok E V st'"
  using assms unfolding data_ok_def loops_ok_def owns_def by simp

end
