(* ===== verification/Ep_Api.thy ===== *)
theory Ep_Api
  imports Ep_Safety
begin

section \<open>What the endpoint interface promises: a map of descriptors\<close>

text \<open>
  The abstract state is a partial map from the descriptors that are open to the type of the
  endpoint and the descriptor of its partner. \<open>spec_bind\<close>, \<open>spec_unbind\<close> and \<open>spec_close\<close>
  say what the calls mean on it, \<open>ep_abs\<close> reads it off the real state, and the lemmas below show
  that \<open>rteipc_open\<close>, \<open>rteipc_close\<close>, \<open>rteipc_bind\<close> and \<open>rteipc_unbind\<close> implement them and
  never misbehave, as long as the client only passes descriptors that are open or were never
  handed out, and opens at most 128 endpoints.
\<close>

type_synonym ep_spec = "int \<rightharpoonup> nat \<times> int option"

definition ep_compat :: "nat \<Rightarrow> nat \<Rightarrow> bool" where
  "ep_compat s t \<longleftrightarrow> ep_compatible (type_compatible s) s (type_compatible t) t \<noteq> 0"

definition spec_bind :: "bool \<Rightarrow> int \<Rightarrow> int \<Rightarrow> ep_spec \<Rightarrow> int \<times> ep_spec" where
  "spec_bind pair_ok x y a =
     (case (a x, a y) of
        (Some (s, None), Some (t, None)) \<Rightarrow>
          if x \<noteq> y \<and> ep_compat s t \<and> pair_ok then (0, a(x \<mapsto> (s, Some y), y \<mapsto> (t, Some x)))
          else (-1, a)
      | _ \<Rightarrow> (-1, a))"

definition spec_unbind :: "int \<Rightarrow> ep_spec \<Rightarrow> ep_spec" where
  "spec_unbind x a =
     (case a x of
        Some (s, Some y) \<Rightarrow>
          a(y := map_option (\<lambda>(t, _). (t, None)) (a y), x \<mapsto> (s, None))
      | _ \<Rightarrow> a)"

definition spec_close :: "int \<Rightarrow> ep_spec \<Rightarrow> ep_spec" where
  "spec_close x a = (spec_unbind x a)(x := None)"

definition info :: "ep_priv ep_core \<Rightarrow> nat \<times> int option" where
  "info c = (ep_type c, if partner_id c = -1 then None else Some (partner_id c))"

definition abs_of :: "(int \<rightharpoonup> addr) \<Rightarrow> (addr \<rightharpoonup> ep_priv ep_core) \<Rightarrow> ep_spec" where
  "abs_of F C d =
     (case F d of
        None \<Rightarrow> None
      | Some a \<Rightarrow>
          (case C a of None \<Rightarrow> None | Some c \<Rightarrow> if core_id c = d then Some (info c) else None))"

definition ep_abs :: "rsys \<Rightarrow> ep_spec" where
  "ep_abs st = abs_of (find_endpoint st) (cores st)"

text \<open>A descriptor that is open, or was never handed out.\<close>

definition usable :: "rsys \<Rightarrow> int \<Rightarrow> bool" where
  "usable st d \<longleftrightarrow> ep_abs st d \<noteq> None \<or> find_endpoint st d = None"

lemma abs_of_upd:
  assumes "F x = Some a" "core_id c' = x" "C a = Some c" "core_id c = x"
  shows "abs_of F (C(a \<mapsto> c')) = (abs_of F C)(x \<mapsto> info c')"
  using assms by (intro ext) (auto simp: abs_of_def split: option.splits)

lemma abs_of_del:
  assumes "F x = Some a" "C a = Some c" "core_id c = x"
  shows "abs_of F (C(a := None)) = (abs_of F C)(x := None)"
  using assms by (intro ext) (auto simp: abs_of_def split: option.splits)

lemma abs_of_new:
  assumes "F n = None" "C a = None" "core_id c = n"
  shows "abs_of (F(n \<mapsto> a)) (C(a \<mapsto> c)) = (abs_of F C)(n \<mapsto> info c)"
  using assms by (intro ext) (auto simp: abs_of_def split: option.splits)

lemma sys_invD:
  assumes "sys_inv E st"
  shows "core_inv st" "data_ok E (view st) st"
  using assms by (auto simp: sys_inv_def)

lemma sys_inv_core:
  assumes "sys_inv E st" "cores st a = Some c"
  shows "find_endpoint st (core_id c) = Some a" "core_id c \<noteq> -1"
    "\<exists>d. ep_data c = Some d \<and> ep_ops_list (ep_type c) = Some (priv_ops d)"
    "ep_abs st (core_id c) = Some (info c)"
proof -
  have "view st a = Some (core_id c, ep_type c, ep_data c)" using assms(2) by (simp add: view_def)
  from data_ok_priv [OF sys_invD(2) [OF assms(1)] this]
  show i: "core_id c \<noteq> -1" and "\<exists>d. ep_data c = Some d \<and> ep_ops_list (ep_type c) = Some (priv_ops d)"
    by blast+
  show f: "find_endpoint st (core_id c) = Some a"
    by (rule core_inv_find [OF sys_invD(1) [OF assms(1)] assms(2) i])
  show "ep_abs st (core_id c) = Some (info c)" using f assms(2) by (simp add: ep_abs_def abs_of_def)
qed

lemma abs_Some:
  assumes "ep_abs st d = Some x"
  obtains a c where "find_endpoint st d = Some a" "cores st a = Some c" "core_id c = d" "x = info c"
  using assms by (auto simp: ep_abs_def abs_of_def split: option.splits if_splits)

lemma usable_cases:
  assumes "usable st d"
  obtains "find_endpoint st d = None" "ep_abs st d = None"
  | a c where "find_endpoint st d = Some a" "cores st a = Some c" "core_id c = d" "ep_abs st d = Some (info c)"
  using assms abs_Some [of st d] unfolding usable_def
  by (metis (no_types, lifting) ep_abs_def abs_of_def not_None_eq option.simps(4))

lemma info_unbound [simp]: "info (unbound c) = (ep_type c, None)"
  by (simp add: info_def)

lemma info_bound: "bound_to st a c b d \<Longrightarrow> info c = (ep_type c, Some (core_id d))"
  by (auto simp: bound_to_def info_def)

lemma info_free: "sys_inv E st \<Longrightarrow> cores st a = Some c \<Longrightarrow> ep_bev c = None \<Longrightarrow> info c = (ep_type c, None)"
  using core_inv_unbound [OF sys_invD(1)] by (simp add: info_def)

lemma info_None_iff:
  assumes "sys_inv E st" "cores st a = Some c"
  shows "snd (info c) = None \<longleftrightarrow> ep_bev c = None"
proof (cases "ep_bev c")
  case None
  with info_free [OF assms] show ?thesis by simp
next
  case (Some x)
  then obtain b d where "bound_to st a c b d"
    using core_inv_bound [OF sys_invD(1) [OF assms(1)] assms(2)] by auto
  with Some show ?thesis by (simp add: info_bound)
qed

lemma view_same:
  assumes "\<And>a. map_option (\<lambda>c. (core_id c, ep_type c, ep_data c)) (cores st' a) =
      map_option (\<lambda>c. (core_id c, ep_type c, ep_data c)) (cores st a)"
    and "os_calls st' = os_calls st" "lo_list st' = lo_list st" "data_ok E (view st) st"
  shows "data_ok E (view st') st'"
proof -
  have "view st' = view st" using assms(1) by (intro ext) (simp add: view_def)
  with data_ok_cong [OF assms(4,2,3)] show ?thesis by simp
qed


subsection \<open>Binding\<close>

lemma bind_refines:
  assumes inv: "sys_inv E st" and L: "lev_ok L" and use: "usable st x" "usable st y"
  shows "\<exists>r st'. rteipc_bind L x y st = Inr (r, st') \<and> sys_inv E st' \<and>
    (r, ep_abs st') = spec_bind (pair_new L (lev_calls st) \<noteq> None) x y (ep_abs st) \<and>
    ep_tbl st' = ep_tbl st"
proof -
  have same: ?thesis if "rteipc_bind L x y st = Inr (-1, st)"
      "spec_bind (pair_new L (lev_calls st) \<noteq> None) x y (ep_abs st) = (-1, ep_abs st)"
    using that inv by auto
  show ?thesis
  proof (cases rule: usable_cases [OF use(1)])
    case 1
    then show ?thesis by (intro same) (simp_all add: rteipc_bind_def spec_bind_def)
  next
    case x: (2 a c)
    show ?thesis
    proof (cases rule: usable_cases [OF use(2)])
      case 1
      with x show ?thesis
        by (intro same) (auto simp: rteipc_bind_def spec_bind_def split: option.splits prod.splits)
    next
      case y: (2 b d)
      show ?thesis
      proof (cases "a = b \<or> \<not> ep_compat (ep_type c) (ep_type d)")
        case True
        with x y show ?thesis
          by (intro same) (auto simp: rteipc_bind_def spec_bind_def ep_compat_def info_def split: option.splits prod.splits)
      next
        case False
        then have ne: "a \<noteq> b" "x \<noteq> y" and comp: "ep_compat (ep_type c) (ep_type d)" using x y by auto
        have bind: "rteipc_bind L x y st = bind_endpoint L a b st"
          using x y ne comp by (simp add: rteipc_bind_def ep_compat_def)
        have busy: "ep_bev c \<noteq> None \<longleftrightarrow> snd (info c) \<noteq> None" "ep_bev d \<noteq> None \<longleftrightarrow> snd (info d) \<noteq> None"
          using info_None_iff [OF inv x(2)] info_None_iff [OF inv y(2)] by simp_all
        show ?thesis
        proof (cases "ep_bev c = None \<and> ep_bev d = None")
          case False
          with x y busy bind show ?thesis
            by (intro same) (auto simp: spec_bind_def bind_endpoint_def info_def split: if_splits)
        next
          case free: True
          show ?thesis
          proof (cases "pair_new L (lev_calls st)")
            case None
            with x y free bind show ?thesis
              by (intro same) (auto simp: spec_bind_def bind_endpoint_def split: option.splits prod.splits)
          next
            case (Some p)
            obtain p0 p1 where p: "pair_new L (lev_calls st) = Some (p0, p1)" using Some by (cases p) simp
            let ?c = "c\<lparr>ep_bev := Some p0, partner_id := core_id d\<rparr>"
            let ?d = "d\<lparr>ep_bev := Some p1, partner_id := core_id c\<rparr>"
            define st' where "st' = st\<lparr>cores := (cores st)(a \<mapsto> ?c, b \<mapsto> ?d),
              lev_calls := [Bev_Enable p1, Bev_Enable p0, Bev_Setcb p1 b, Bev_Setcb p0 a, Pair_New p0 p1]
                @ lev_calls st\<rparr>"
            have b': "bind_endpoint L a b st = Inr (0, st')"
              using bind_free [OF x(2) y(2) ne(1) _ _ p] free by (simp add: st'_def)
            have ids: "core_id c \<noteq> -1" "core_id d \<noteq> -1"
              using sys_inv_core(2) [OF inv] x(2) y(2) by blast+
            have "core_inv st'"
              by (rule bind_keeps_inv [OF sys_invD(1) [OF inv] L x(2) y(2) ne(1) _ _ ids p b'])
                (use free in simp_all)
            moreover have "data_ok E (view st') st'"
              by (rule view_same [OF _ _ _ sys_invD(2) [OF inv]])
                (use x(2) y(2) in \<open>auto simp: st'_def\<close>)
            moreover have "ep_abs st' = (ep_abs st)(x \<mapsto> (ep_type c, Some y), y \<mapsto> (ep_type d, Some x))"
            proof -
              have "ep_abs st' = abs_of (find_endpoint st) ((cores st)(a \<mapsto> ?c, b \<mapsto> ?d))"
                by (simp add: ep_abs_def st'_def find_endpoint_def [abs_def])
              also have "\<dots> = (abs_of (find_endpoint st) ((cores st)(a \<mapsto> ?c)))(y \<mapsto> info ?d)"
                by (rule abs_of_upd [where c = d]) (use x y ne in simp_all)
              also have "abs_of (find_endpoint st) ((cores st)(a \<mapsto> ?c)) = (ep_abs st)(x \<mapsto> info ?c)"
                unfolding ep_abs_def by (rule abs_of_upd [where c = c]) (use x y ne in simp_all)
              finally show ?thesis using ids x(3) y(3) by (auto simp: info_def fun_eq_iff)
            qed
            moreover have "info c = (ep_type c, None)" "info d = (ep_type d, None)"
              using info_free [OF inv] x(2) y(2) free by blast+
            ultimately show ?thesis using bind b' x(4) y(4) ne comp p
              by (auto simp: sys_inv_def spec_bind_def) (simp add: st'_def)
          qed
        qed
      qed
    qed
  qed
qed


subsection \<open>Unbinding\<close>

lemma data_ok_unbind:
  assumes "data_ok E (view st) st" "cores st a = Some c"
    and "st' = st\<lparr>cores := (freed_partner st a c)(a \<mapsto> unbound c), lev_calls := lc\<rparr>"
  shows "data_ok E (view st') st'"
  by (rule view_same [OF _ _ _ assms(1)])
    (use assms(2) in \<open>auto simp: assms(3) freed_partner_def option.map_comp comp_def\<close>)

text \<open>The abstract effect of giving up a binding, whatever becomes of the core itself.\<close>

lemma abs_freed_partner:
  assumes inv: "sys_inv E st" and a: "cores st a = Some c" "core_id c = x"
  shows "abs_of (find_endpoint st) ((freed_partner st a c)(a \<mapsto> unbound c)) = spec_unbind x (ep_abs st)"
proof -
  note f = sys_inv_core [OF inv]
  show ?thesis
  proof (cases "ep_bev c")
    case None
    then have "unbound c = c" using core_inv_unbound [OF sys_invD(1) [OF inv] a(1)] by (simp add: unbound_eq)
    then have "(cores st)(a \<mapsto> unbound c) = cores st" using a(1) by auto
    moreover have "ep_abs st x = Some (ep_type c, None)"
      using f(4) [OF a(1)] info_free [OF inv a(1) None] a(2) by simp
    ultimately show ?thesis
      by (simp add: freed_partner_unbound [OF None] spec_unbind_def ep_abs_def)
  next
    case (Some u)
    then obtain b d where bound: "bound_to st a c b d"
      using core_inv_bound [OF sys_invD(1) [OF inv] a(1)] by auto
    then have b: "cores st b = Some d" "a \<noteq> b" by (auto simp: bound_to_def)
    define y where "y = core_id d"
    have xy: "x \<noteq> y" using f(1) [OF a(1)] f(1) [OF b(1)] a(2) b(2) by (auto simp: y_def)
    have "ep_abs st x = Some (ep_type c, Some y)" "ep_abs st y = Some (info d)"
      using f(4) [OF a(1)] f(4) [OF b(1)] info_bound [OF bound] a(2) by (simp_all add: y_def)
    then have "spec_unbind x (ep_abs st) = (ep_abs st)(y \<mapsto> (ep_type d, None), x \<mapsto> (ep_type c, None))"
      by (simp add: spec_unbind_def info_def)
    moreover have "abs_of (find_endpoint st) ((cores st)(b \<mapsto> unbound d, a \<mapsto> unbound c)) =
        (abs_of (find_endpoint st) ((cores st)(b \<mapsto> unbound d)))(x \<mapsto> info (unbound c))"
      by (rule abs_of_upd [where c = c]) (use f(1) [OF a(1)] a b in simp_all)
    moreover have "abs_of (find_endpoint st) ((cores st)(b \<mapsto> unbound d)) = (ep_abs st)(y \<mapsto> info (unbound d))"
      unfolding ep_abs_def by (rule abs_of_upd [where c = d]) (use f(1) [OF b(1)] b y_def in simp_all)
    ultimately show ?thesis by (simp add: freed_partner_bound [OF sys_invD(1) [OF inv] bound])
  qed
qed

lemma unbind_refines:
  assumes inv: "sys_inv E st" and L: "lev_ok L" and use: "usable st x"
  shows "\<exists>st'. rteipc_unbind L x st = Inr st' \<and> sys_inv E st' \<and>
    ep_abs st' = spec_unbind x (ep_abs st) \<and> ep_tbl st' = ep_tbl st"
proof (cases rule: usable_cases [OF use])
  case 1
  with inv show ?thesis by (simp add: rteipc_unbind_def spec_unbind_def)
next
  case (2 a c)
  from unbind_keeps_inv [OF sys_invD(1) [OF inv] L 2(2)] obtain lc st' where
    st': "unbind_endpoint L a st = Inr st'" "core_inv st'"
      "st' = st\<lparr>cores := (freed_partner st a c)(a \<mapsto> unbound c), lev_calls := lc\<rparr>" by blast
  have "sys_inv E st'"
    using st'(2) data_ok_unbind [OF sys_invD(2) [OF inv] 2(2) st'(3)] by (simp add: sys_inv_def)
  moreover have "ep_abs st' = spec_unbind x (ep_abs st)"
    using abs_freed_partner [OF inv 2(2,3)] by (simp add: ep_abs_def st'(3) find_endpoint_def [abs_def])
  ultimately show ?thesis using st'(1) 2(1) by (simp add: rteipc_unbind_def) (simp add: st'(3))
qed


subsection \<open>Closing\<close>

lemma ep_kinds:
  assumes "sys_inv E st" "cores st a = Some c"
  obtains d where "ep_data c = Some d" "ep_ops_list (ep_type c) = Some (priv_ops d)"
    "view st a = Some (core_id c, ep_type c, Some d)"
  using sys_inv_core(3) [OF assms] assms(2) by (auto simp: view_def)

text \<open>A change of the system calls and the loops does not touch the cores.\<close>

lemma os_frame:
  assumes "st' = st\<lparr>os_calls := h, lo_list := ls\<rparr>"
  shows "bound_to st' = bound_to st" "find_endpoint st' = find_endpoint st" "cores st' = cores st"
    "next_core st' = next_core st" "ep_tbl st' = ep_tbl st" "view st' = view st"
  by ((intro ext)?, simp add: bound_to_def find_endpoint_def view_def assms)+

lemma core_inv_os:
  fixes st :: rsys
  assumes "core_inv st" "st' = st\<lparr>os_calls := h, lo_list := ls\<rparr>"
  shows "core_inv st'"
  using assms(1) unfolding core_inv_def os_frame [OF assms(2)] .

lemma freed_partner_os:
  fixes st :: rsys
  assumes "st' = st\<lparr>os_calls := h, lo_list := ls\<rparr>"
  shows "freed_partner st' a c = freed_partner st a c"
  by (intro ext) (simp only: freed_partner_def os_frame [OF assms])

lemma find_after_del:
  assumes "first_lap t" "first_lap t'" "registered t' = registered t"
  shows "dtbl_get t' k = dtbl_get t k"
  using first_lap_get [OF assms(1)] first_lap_get [OF assms(2)] assms(3) by simp

text \<open>
  Unregistering and destroying an endpoint whose private data is gone already.
\<close>

lemma close_core:
  assumes core: "core_inv st" and L: "lev_ok L" and a: "cores st a = Some c" "core_id c \<noteq> -1"
    and data: "data_ok E ((view st)(a := None)) st"
  shows "\<exists>st'. and_then (unregister_endpoint L a st) (destroy_endpoint a) = Inr st' \<and> sys_inv E st' \<and>
    find_endpoint st' = find_endpoint st \<and> cores st' = (freed_partner st a c)(a := None) \<and>
    registered (ep_tbl st') = registered (ep_tbl st) \<and> capacity (ep_tbl st') = capacity (ep_tbl st)"
proof -
  from close_keeps_inv [OF core L a] obtain t lc st' where
    st': "and_then (unregister_endpoint L a st) (destroy_endpoint a) = Inr st'" "core_inv st'"
      "st' = st\<lparr>ep_tbl := t, cores := (freed_partner st a c)(a := None), lev_calls := lc\<rparr>"
      "registered t = registered (ep_tbl st)" "capacity t = capacity (ep_tbl st)" by blast
  have "view st' = (view st)(a := None)"
    by (intro ext) (auto simp: view_def st'(3) freed_partner_def option.map_comp comp_def)
  with data_ok_cong [OF data, of st'] have "data_ok E (view st') st'" by (simp add: st'(3))
  moreover have "find_endpoint st' = find_endpoint st"
    using find_after_del [OF core_inv_lap [OF core], of t] core_inv_lap [OF st'(2)] st'(4)
    by (intro ext) (simp add: find_endpoint_def st'(3))
  ultimately show ?thesis using st'(1,2,4,5) by (intro exI [of _ st']) (simp add: sys_inv_def, simp add: st'(3))
qed

lemma close_refines:
  assumes inv: "sys_inv E st" and L: "lev_ok (levent X)" and E: "osys X = E" and use: "usable st x"
  shows "\<exists>st'. rteipc_close X x st = Inr st' \<and> sys_inv E st' \<and> ep_abs st' = spec_close x (ep_abs st) \<and>
    registered (ep_tbl st') = registered (ep_tbl st) \<and> capacity (ep_tbl st') = capacity (ep_tbl st) \<and>
    find_endpoint st' = find_endpoint st \<and> (\<forall>a. find_endpoint st x = Some a \<longrightarrow> cores st' a = None)"
proof (cases rule: usable_cases [OF use])
  case 1
  with inv show ?thesis by (auto simp: rteipc_close_def spec_close_def spec_unbind_def)
next
  case (2 a c)
  from ep_kinds [OF inv 2(2)] obtain d where d: "ep_data c = Some d" "ep_ops_list (ep_type c) = Some (priv_ops d)"
      "view st a = Some (core_id c, ep_type c, Some d)" .
  from ops_closed [OF sys_invD(2) [OF inv] d(3)] obtain st1 where
    st1: "ops_close (priv_ops d) (Some d) st = Inr st1" "closed E d st st1" by blast
  then obtain h ls where frame: "st1 = st\<lparr>os_calls := h, lo_list := ls\<rparr>" by (auto simp: closed_def)
  have v: "view st1 = view st" by (rule os_frame [OF frame])
  have "data_ok E ((view st1)(a := None)) st1"
    using data_ok_del [OF sys_invD(2) [OF inv] d(3) st1(2)] v by simp
  from close_core [OF core_inv_os [OF sys_invD(1) [OF inv] frame] L _ sys_inv_core(2) [OF inv 2(2)] this]
  obtain st' where st': "and_then (unregister_endpoint (levent X) a st1) (destroy_endpoint a) = Inr st'"
      "sys_inv E st'" "find_endpoint st' = find_endpoint st1" "cores st' = (freed_partner st1 a c)(a := None)"
      "registered (ep_tbl st') = registered (ep_tbl st1)" "capacity (ep_tbl st') = capacity (ep_tbl st1)"
    using 2(2) by (auto simp: frame)
  have "rteipc_close X x st = Inr st'"
    using 2 d st1(1) st'(1) by (simp add: rteipc_close_def)
  moreover have "ep_abs st' = spec_close x (ep_abs st)"
  proof -
    have "find_endpoint st1 = find_endpoint st" by (rule os_frame [OF frame])
    then have "ep_abs st' = abs_of (find_endpoint st) (((freed_partner st a c)(a \<mapsto> unbound c))(a := None))"
      using st'(3,4) by (simp add: ep_abs_def freed_partner_os [OF frame])
    also have "\<dots> = (abs_of (find_endpoint st) ((freed_partner st a c)(a \<mapsto> unbound c)))(x := None)"
      by (rule abs_of_del [where c = "unbound c"]) (use 2 in simp_all)
    finally show ?thesis using abs_freed_partner [OF inv 2(2,3)] by (simp add: spec_close_def)
  qed
  moreover have "find_endpoint st' = find_endpoint st" using st'(3) os_frame(2) [OF frame] by simp
  ultimately show ?thesis using st'(2,4,5,6) frame 2(1) by simp
qed


subsection \<open>Opening\<close>

text \<open>
  The faults that a malformed URI or a hostile device can still cause in an open: an overflow
  of a scan buffer, the missing clock speed, and a serial line that never runs dry. None of
  them is a fault of the endpoint table, the bindings or the private data.
\<close>

definition uri_fault :: "fault \<Rightarrow> bool" where
  "uri_fault e \<longleftrightarrow> e \<in> {Out_Of_Bounds, Uninitialised, Hangs}"

lemma fit_fault: "fit n s = Inl e \<Longrightarrow> e = Out_Of_Bounds"
  by (auto simp: fit_def split: if_splits)

lemma fit_Inr: "fit n s = Inr t \<longleftrightarrow> length s < n \<and> t = s"
  by (auto simp: fit_def)

lemma scan_faults:
  "spi_scan path = Inl e \<Longrightarrow> uri_fault e"
  "tty_scan path = Inl e \<Longrightarrow> uri_fault e"
  "uri_scan path = Inl e \<Longrightarrow> uri_fault e"
  "gpio_scan path = Inl e \<Longrightarrow> uri_fault e"
  by (auto simp: spi_scan_def tty_scan_def uri_scan_def gpio_scan_def uri_fault_def fit_Inr Let_def
      and_then_eq_Inl dest!: fit_fault split: option.splits)

lemma uri_target_fault: "uri_target uri = Inl e \<Longrightarrow> uri_fault e"
  by (auto simp: uri_target_def and_then_eq_Inl read_str_def uri_fault_def
      dest: scan_faults(3) [unfolded uri_fault_def] split: if_splits)

lemma spidev_open_fault: "spidev_open E path st = Inl e \<Longrightarrow> uri_fault e"
  by (auto simp: spidev_open_def and_then_eq_Inl uri_fault_def case_prod_beta
      dest: scan_faults(1) [unfolded uri_fault_def] split: option.splits if_splits)

lemma open_uart_fault: "open_uart E path speed st = Inl e \<Longrightarrow> uri_fault e"
  by (auto simp: open_uart_def uri_fault_def case_prod_beta split: option.splits if_splits)

lemma tty_open_fault: "tty_open E path st = Inl e \<Longrightarrow> uri_fault e"
  by (auto simp: tty_open_def and_then_eq_Inl case_prod_beta
      dest: scan_faults(2) open_uart_fault split: option.splits if_splits)

lemma gpio_open_fault: "gpio_open E path st = Inl e \<Longrightarrow> uri_fault e"
  by (auto simp: gpio_open_def and_then_eq_Inl dest: scan_faults(4))

lemma sysfs_open_fault: "sysfs_open E path st = Inl e \<Longrightarrow> uri_fault e"
  by (auto simp: sysfs_open_def and_then_eq_Inl read_str_def uri_fault_def case_prod_beta
      split: option.splits if_splits)

lemma inet_addr_fault: "ipc_inet_addr E path st = Inl e \<Longrightarrow> uri_fault e"
  by (auto simp: ipc_inet_addr_def and_then_eq_Inl uri_fault_def case_prod_beta Let_def
      dest!: fit_fault split: option.splits if_splits)

lemma ipc_open_fault: "ipc_open E type path st = Inl e \<Longrightarrow> uri_fault e"
  by (auto simp: ipc_open_def Let_def and_then_eq_Inl case_prod_beta dest: inet_addr_fault
      split: option.splits if_splits) (metis option.distinct(1))

lemma ops_open_fault: "ops_open E ops type self path st = Inl e \<Longrightarrow> uri_fault e"
  by (cases ops) (auto simp: ops_open_def and_then_eq_Inl
      dest: spidev_open_fault tty_open_fault gpio_open_fault sysfs_open_fault ipc_open_fault)

lemma uri_target_ops: "uri_target uri = Inr (Some (t, path)) \<Longrightarrow> \<exists>ops. ep_ops_list t = Some ops"
  by (auto simp: uri_target_def and_then_eq_Inr protocol_type_def ep_ops_list_def split: if_splits)

text \<open>What registering and completing a new core do.\<close>

lemma register_frame:
  assumes "register_endpoint m1 m2 a (st :: rsys) = Inr (k, st')"
  shows "os_calls st' = os_calls st" "lo_list st' = lo_list st"
  using assms
  by (auto simp: register_endpoint_def set_core_def and_then_eq_Inr Let_def split: prod.splits if_splits)

lemma register_find:
  assumes "first_lap (ep_tbl st)" "first_lap (ep_tbl st')" "registered (ep_tbl st') = registered (ep_tbl st) @ [a]"
  shows "find_endpoint st' = (find_endpoint st)(int (length (registered (ep_tbl st))) \<mapsto> a)"
  using first_lap_get [OF assms(1)] first_lap_get [OF assms(2)] assms(3)
  by (intro ext) (auto simp: find_endpoint_def nth_append)

lemma core_inv_set_data:
  assumes inv: "core_inv st" and a: "cores st a = Some c" "ep_bev c = None"
  shows "core_inv (st\<lparr>cores := (cores st)(a \<mapsto> c\<lparr>ep_data := d\<rparr>)\<rparr>)"
proof -
  let ?st = "st\<lparr>cores := (cores st)(a \<mapsto> c\<lparr>ep_data := d\<rparr>)\<rparr>"
  have frame: "bound_to ?st e ce f cf" if "bound_to st e ce f cf" for e ce f cf
  proof -
    have "e \<noteq> a" "f \<noteq> a" using that a by (auto simp: bound_to_def)
    then show ?thesis using bound_to_frame [OF that, of ?st] that by (auto simp: bound_to_def)
  qed
  show ?thesis
    unfolding core_inv_def
  proof (intro conjI allI impI)
    show "first_lap (ep_tbl ?st)" using core_inv_lap [OF inv] by simp
    show "cores ?st e = None" if "next_core ?st \<le> e" for e
      using that core_inv_fresh [OF inv] a(1) by auto
    show "find_endpoint ?st (core_id ce) = Some e" if "cores ?st e = Some ce" "core_id ce \<noteq> -1" for e ce
      using that core_inv_find [OF inv] a(1) by (auto simp: find_endpoint_def split: if_splits)
    show "\<exists>f cf. bound_to ?st e ce f cf" if "cores ?st e = Some ce" "ep_bev ce \<noteq> None" for e ce
      using that core_inv_bound [OF inv] a(2) frame by (fastforce split: if_splits)
    show "partner_id ce = -1" if "cores ?st e = Some ce" "ep_bev ce = None" for e ce
      using that core_inv_unbound [OF inv] a by (auto split: if_splits)
    show "e = f" if "cores ?st e = Some ce" "cores ?st f = Some cf" "ep_bev ce \<noteq> None"
        "ep_bev ce = ep_bev cf" for e f ce cf
      using that core_inv_inj [OF inv] a(2) by (auto split: if_splits)
  qed
qed

lemma data_ok_grow:
  assumes "data_ok E V st" "owns E st \<subseteq> owns E st'" "lo_list st' = lo_list st" "loops_ok E st'"
  shows "data_ok E V st'"
  unfolding data_ok_def
proof (intro conjI allI impI)
  show "loops_ok E st'" by (rule assms(4))
  show "lo_addr ` set (lo_list st') = {p. \<exists>a i t. V a = Some (i, t, Some (Loop_Priv p))}"
    using data_ok_names [OF assms(1)] assms(3) by simp
next
  fix a i t x assume "V a = Some (i, t, x)"
  from data_ok_priv [OF assms(1) this] assms(2)
  show "i \<noteq> -1" "\<exists>d. x = Some d \<and> ep_ops_list t = Some (priv_ops d) \<and> priv_mem d \<in> owns E st'"
    by blast+
next
  fix a b i j s t x y
  assume "V a = Some (i, s, Some x)" "V b = Some (j, t, Some y)" "priv_mem x = priv_mem y"
  then show "a = b" by (rule data_ok_inj [OF assms(1)])
qed

lemma abs_of_stale:
  "C a = None \<Longrightarrow> F n = None \<Longrightarrow> abs_of (F(n \<mapsto> a)) C = abs_of F C"
  by (intro ext) (auto simp: abs_of_def)

text \<open>A fresh endpoint that is registered but has no private data yet.\<close>

lemma new_endpoint:
  assumes inv: "sys_inv E st" and room: "length (registered (ep_tbl st)) < capacity (ep_tbl st)"
    and alloc: "allocate_endpoint True t st = (Some a, st1)"
  defines "n \<equiv> int (length (registered (ep_tbl st)))"
  shows "\<exists>c st2. register_endpoint True True a st1 = Inr (n, st2) \<and> core_inv st2 \<and>
    cores st2 = (cores st)(a \<mapsto> c) \<and> core_id c = n \<and> ep_type c = t \<and> ep_bev c = None \<and>
    partner_id c = -1 \<and> cores st a = None \<and> data_ok E (view st) st2 \<and> view st a = None \<and>
    find_endpoint st2 = (find_endpoint st)(n \<mapsto> a) \<and> find_endpoint st n = None \<and>
    length (registered (ep_tbl st2)) = length (registered (ep_tbl st)) + 1 \<and>
    capacity (ep_tbl st2) = capacity (ep_tbl st) \<and>
    lev_calls st2 = lev_calls st \<and> os_calls st2 = os_calls st \<and> lo_list st2 = lo_list st"
proof -
  let ?c = "\<lparr>core_id = -1, partner_id = -1, ep_type = t, ep_base = base st, ep_bev = None, ep_data = None\<rparr>
    :: ep_priv ep_core"
  note al = allocate_keeps_inv [OF sys_invD(1) [OF inv] alloc]
  have st1: "os_calls st1 = os_calls st" "lo_list st1 = lo_list st"
    using alloc by (auto simp: allocate_endpoint_def Let_def)
  have "cores st1 a = Some ?c" by (simp add: al(2))
  from register_keeps_inv [OF al(1) this] room al(4) obtain st2 where
    st2: "register_endpoint True True a st1 = Inr (n, st2)" "core_inv st2"
      "cores st2 = (cores st1)(a \<mapsto> ?c\<lparr>core_id := n\<rparr>)"
      "registered (ep_tbl st2) = registered (ep_tbl st) @ [a]"
      "capacity (ep_tbl st2) = capacity (ep_tbl st)" "lev_calls st2 = lev_calls st"
    by (auto simp: n_def al(5))
  note frame = register_frame [OF st2(1)]
  have "data_ok E (view st) st2"
    by (rule data_ok_cong [OF sys_invD(2) [OF inv]]) (use register_frame [OF st2(1)] st1 in simp_all)
  moreover have "find_endpoint st2 = (find_endpoint st)(n \<mapsto> a)"
    unfolding n_def using register_find [OF core_inv_lap [OF sys_invD(1) [OF inv]] core_inv_lap [OF st2(2)] st2(4)] .
  moreover have "find_endpoint st n = None"
    using first_lap_get [OF core_inv_lap [OF sys_invD(1) [OF inv]]] by (simp add: find_endpoint_def n_def)
  moreover have "view st a = None" using al(3) by (simp add: view_def)
  ultimately show ?thesis
    using st2 al(2,3) frame st1
    by (intro exI [of _ "?c\<lparr>core_id := n\<rparr>"] exI [of _ st2]) simp
qed

text \<open>What is left to do once the new endpoint is registered.\<close>

lemma open_registered:
  assumes "uri_target uri = Inr (Some (t, path))" "mem X 48" "mem X 128" "mem X 32"
    and "allocate_endpoint True t st = (Some a, st1)" "register_endpoint True True a st1 = Inr (n, st2)" "0 \<le> n"
    and "ep_ops_list t = Some ops"
  shows "rteipc_open X uri st =
    and_then (ops_open (osys X) ops t a path st2) (\<lambda>(r, d, st3).
      if r \<noteq> 0 then
        and_then (unregister_endpoint (levent X) a st3) (\<lambda>st4.
        and_then (destroy_endpoint a st4) (\<lambda>st5. Inr (-1, st5)))
      else and_then (set_core a (\<lambda>c. c\<lparr>ep_data := d\<rparr>) st3) (\<lambda>st4. Inr (n, st4)))"
  using assms by (simp add: rteipc_open_def)

definition open_outcome :: "os \<Rightarrow> rsys \<Rightarrow> (int \<times> rsys) outcome \<Rightarrow> bool" where
  "open_outcome E st res \<longleftrightarrow>
     (case res of
        Inl e \<Rightarrow> uri_fault e
      | Inr (r, st') \<Rightarrow>
          sys_inv E st' \<and> capacity (ep_tbl st') = capacity (ep_tbl st) \<and>
          length (registered (ep_tbl st')) \<le> length (registered (ep_tbl st)) + 1 \<and>
          (r = -1 \<and> ep_abs st' = ep_abs st \<or>
           0 \<le> r \<and> ep_abs st r = None \<and> (\<exists>t. ep_abs st' = (ep_abs st)(r \<mapsto> (t, None)))))"

lemma open_refines:
  assumes inv: "sys_inv E st" and ok: "lev_ok (levent X)" "osys X = E" "os_ok E"
    and memory: "mem X 128" "mem X 32"
    and room: "length (registered (ep_tbl st)) < capacity (ep_tbl st)"
  shows "open_outcome E st (rteipc_open X uri st)"
proof -
  have same: "open_outcome E st (Inr (-1, st))" using inv by (simp add: open_outcome_def)
  show ?thesis
  proof (cases "uri_target uri")
    case (Inl e)
    then show ?thesis using uri_target_fault by (simp add: rteipc_open_def open_outcome_def)
  next
    case uri: (Inr target)
    show ?thesis
    proof (cases "target = None \<or> \<not> mem X 48")
      case True
      with uri same show ?thesis
        by (auto simp: rteipc_open_def allocate_endpoint_def split: option.splits)
    next
      case False
      then obtain t path where target: "target = Some (t, path)" and m: "mem X 48" by auto
      obtain ops where ops: "ep_ops_list t = Some ops" using uri_target_ops uri target by blast
      obtain a st1 where alloc: "allocate_endpoint True t st = (Some a, st1)"
        by (simp add: allocate_endpoint_def Let_def)
      define n where "n = int (length (registered (ep_tbl st)))"
      from new_endpoint [OF inv room alloc] obtain c st2 where
        reg: "register_endpoint True True a st1 = Inr (n, st2)" and core: "core_inv st2"
        and cs: "cores st2 = (cores st)(a \<mapsto> c)" and c: "core_id c = n" "ep_type c = t" "ep_bev c = None"
          "partner_id c = -1" "cores st a = None"
        and data: "data_ok E (view st) st2" and va: "view st a = None"
        and find: "find_endpoint st2 = (find_endpoint st)(n \<mapsto> a)" "find_endpoint st n = None"
        and len: "length (registered (ep_tbl st2)) = length (registered (ep_tbl st)) + 1"
          "capacity (ep_tbl st2) = capacity (ep_tbl st)"
        unfolding n_def by blast
      have n: "0 \<le> n" "n \<noteq> -1" by (simp_all add: n_def)
      note open_eq = open_registered [OF uri [unfolded target] m memory alloc reg n(1) ops, unfolded ok(2)]
      show ?thesis
      proof (cases "ops_open E ops t a path st2")
        case (Inl e)
        then show ?thesis using ops_open_fault by (auto simp: open_eq open_outcome_def)
      next
        case (Inr res)
        obtain r d st3 where res: "res = (r, d, st3)" by (cases res)
        have op: "opened E ops st2 (r, d, st3)"
          using ops_opened [OF ok(3) data_ok_loops [OF data] Inr] res by simp
        then obtain h ls where frame: "st3 = st2\<lparr>os_calls := h, lo_list := ls\<rparr>" by (auto simp: opened_def)
        note fr = os_frame [OF frame]
        have a3: "cores st3 a = Some c" by (simp add: fr(3) cs)
        show ?thesis
        proof (cases d)
          case None
          with op have r: "r \<noteq> 0" and grow: "owns E st2 \<subseteq> owns E st3" "loops_ok E st3" "lo_list st3 = lo_list st2"
            by (simp_all add: opened_def)
          have "(view st3)(a := None) = view st"
            using va by (intro ext) (simp add: view_def fr(3) cs)
          with data_ok_grow [OF data grow(1,3,2)] have "data_ok E ((view st3)(a := None)) st3" by simp
          from close_core [OF core_inv_os [OF core frame] ok(1) a3 _ this] c(1) n(2) obtain st' where
            st': "and_then (unregister_endpoint (levent X) a st3) (destroy_endpoint a) = Inr st'" "sys_inv E st'"
              "find_endpoint st' = find_endpoint st3" "cores st' = (freed_partner st3 a c)(a := None)"
              "registered (ep_tbl st') = registered (ep_tbl st3)" "capacity (ep_tbl st') = capacity (ep_tbl st3)"
            by auto
          have "cores st' = cores st"
            using c(5) by (auto simp: st'(4) freed_partner_unbound [OF c(3)] fr(3) cs)
          then have "ep_abs st' = ep_abs st"
            using abs_of_stale [of "cores st" a "find_endpoint st" n, OF c(5) find(2)] by (simp add: ep_abs_def st'(3) fr(2) find(1))
          moreover have "rteipc_open X uri st = Inr (-1, st')"
            using st'(1) r by (auto simp: open_eq Inr res and_then_eq_Inr)
          ultimately show ?thesis using st'(2,5,6) len fr(5) by (simp add: open_outcome_def)
        next
          case (Some x)
          with op have r: "r = 0" by (simp add: opened_def)
          define st' where "st' = st3\<lparr>cores := (cores st3)(a \<mapsto> c\<lparr>ep_data := d\<rparr>)\<rparr>"
          have "rteipc_open X uri st = Inr (n, st')"
            using r a3 by (simp add: open_eq Inr res set_core_def st'_def)
          moreover have "core_inv st'"
            unfolding st'_def by (rule core_inv_set_data [OF core_inv_os [OF core frame] a3 c(3)])
          moreover have "data_ok E (view st') st'"
          proof -
            have "data_ok E ((view st)(a \<mapsto> (n, t, Some x))) st3"
              by (rule data_ok_add [OF data va _ n(2) ops]) (use op r Some in simp)
            moreover have "view st' = (view st)(a \<mapsto> (n, t, Some x))"
              using c Some by (intro ext) (simp add: view_def st'_def fr(3) cs)
            ultimately show ?thesis using data_ok_cong [of E _ st3 st'] by (simp add: st'_def)
          qed
          moreover have "ep_abs st' = (ep_abs st)(n \<mapsto> (t, None))"
          proof -
            have "cores st' = (cores st)(a \<mapsto> c\<lparr>ep_data := d\<rparr>)" by (simp add: st'_def fr(3) cs)
            moreover have "find_endpoint st' = (find_endpoint st)(n \<mapsto> a)"
              using find(1) fr(2) by (simp add: st'_def find_endpoint_def [abs_def])
            ultimately show ?thesis
              using abs_of_new [of "find_endpoint st" n "cores st" a, OF find(2) c(5), of "c\<lparr>ep_data := d\<rparr>"] c
              by (simp add: ep_abs_def info_def)
          qed
          moreover have "ep_abs st n = None" using find(2) by (simp add: ep_abs_def abs_of_def)
          ultimately show ?thesis using n len fr(5)
            by (auto simp: open_outcome_def sys_inv_def) (simp_all add: st'_def)
        qed
      qed
    qed
  qed
qed


definition environment_ok :: "outside \<Rightarrow> bool" where
  "environment_ok X \<longleftrightarrow> os_ok (osys X) \<and> lev_ok (levent X) \<and> mem X 128 \<and> mem X 32"

text \<open>What a successful open leaves behind, beside the invariant.\<close>

definition opened_as ::
  "outside \<Rightarrow> string \<Rightarrow> rsys \<Rightarrow> int \<Rightarrow> rsys \<Rightarrow> nat \<Rightarrow> addr \<Rightarrow> ep_priv ep_core \<Rightarrow> bool" where
  "opened_as X uri st i st' t a c \<longleftrightarrow>
     i = int (length (registered (ep_tbl st))) \<and> cores st a = None \<and> cores st' = (cores st)(a \<mapsto> c) \<and>
     core_id c = i \<and> ep_type c = t \<and> ep_bev c = None \<and> find_endpoint st' = (find_endpoint st)(i \<mapsto> a) \<and>
     lev_calls st' = lev_calls st \<and> base st' = base st \<and> live_bases st' = live_bases st \<and> base_calls st' = base_calls st \<and>
     (\<exists>path ops d st2. uri_target uri = Inr (Some (t, path)) \<and> ep_ops_list t = Some ops \<and>
        ep_data c = Some d \<and> os_calls st2 = os_calls st \<and> lo_list st2 = lo_list st \<and>
        ops_open (osys X) ops t a path st2 = Inr (0, Some d, st2\<lparr>os_calls := os_calls st', lo_list := lo_list st'\<rparr>))"

lemma register_bases:
  assumes "register_endpoint m1 m2 a (st :: rsys) = Inr (k, st')"
  shows "base st' = base st" "live_bases st' = live_bases st" "base_calls st' = base_calls st"
  using assms
  by (auto simp: register_endpoint_def set_core_def and_then_eq_Inr Let_def split: prod.splits if_splits)

lemma allocate_bases:
  assumes "allocate_endpoint m t (st :: rsys) = (Some a, st')"
  shows "base st' = base st" "live_bases st' = live_bases st" "base_calls st' = base_calls st"
  using assms by (auto simp: allocate_endpoint_def Let_def split: if_splits)

lemma open_success:
  assumes inv: "sys_inv (osys X) st" and X: "environment_ok X"
    and room: "length (registered (ep_tbl st)) < capacity (ep_tbl st)"
    and op: "rteipc_open X uri st = Inr (i, st')" "0 \<le> i"
  shows "\<exists>t a c. opened_as X uri st i st' t a c"
proof -
  have ok: "os_ok (osys X)" "lev_ok (levent X)" "mem X 128" "mem X 32" using X by (auto simp: environment_ok_def)
  from op obtain t path where uri: "uri_target uri = Inr (Some (t, path))"
    by (auto simp: rteipc_open_def and_then_eq_Inr split: option.splits)
  have m: "mem X 48" using op uri by (auto simp: rteipc_open_def allocate_endpoint_def split: if_splits)
  obtain ops where ops: "ep_ops_list t = Some ops" using uri_target_ops [OF uri] by blast
  obtain a st1 where alloc: "allocate_endpoint True t st = (Some a, st1)"
    by (simp add: allocate_endpoint_def Let_def)
  define n where "n = int (length (registered (ep_tbl st)))"
  from new_endpoint [OF inv room alloc] obtain c st2 where
    reg: "register_endpoint True True a st1 = Inr (n, st2)"
    and cs: "cores st2 = (cores st)(a \<mapsto> c)" and c: "core_id c = n" "ep_type c = t" "ep_bev c = None" "cores st a = None"
    and data: "data_ok (osys X) (view st) st2"
    and find: "find_endpoint st2 = (find_endpoint st)(n \<mapsto> a)"
    and frame: "lev_calls st2 = lev_calls st" "os_calls st2 = os_calls st" "lo_list st2 = lo_list st"
    unfolding n_def by blast
  have n: "0 \<le> n" by (simp add: n_def)
  note open_eq = open_registered [OF uri m ok(3,4) alloc reg n ops]
  from op(1) obtain r d st3 where res: "ops_open (osys X) ops t a path st2 = Inr (r, d, st3)"
    by (auto simp: open_eq and_then_eq_Inr)
  have opened: "opened (osys X) ops st2 (r, d, st3)" by (rule ops_opened [OF ok(1) data_ok_loops [OF data] res])
  have r: "r = 0" using op by (auto simp: open_eq res and_then_eq_Inr split: if_splits)
  with opened obtain x h ls where x: "d = Some x" and st3: "st3 = st2\<lparr>os_calls := h, lo_list := ls\<rparr>"
    by (cases d) (auto simp: opened_def)
  have i: "i = n" "st' = st3\<lparr>cores := (cores st3)(a \<mapsto> c\<lparr>ep_data := d\<rparr>)\<rparr>"
    using op(1) r os_frame(3) [OF st3] cs by (auto simp: open_eq res set_core_def)
  have bases: "base st2 = base st" "live_bases st2 = live_bases st" "base_calls st2 = base_calls st"
    using register_bases [OF reg] allocate_bases [OF alloc] by simp_all
  have ls: "st3 = st2\<lparr>os_calls := os_calls st', lo_list := lo_list st'\<rparr>" by (simp add: i(2) st3)
  have "\<exists>path ops y st2. uri_target uri = Inr (Some (t, path)) \<and> ep_ops_list t = Some ops \<and>
      ep_data (c\<lparr>ep_data := d\<rparr>) = Some y \<and> os_calls st2 = os_calls st \<and> lo_list st2 = lo_list st \<and>
      ops_open (osys X) ops t a path st2 = Inr (0, Some y, st2\<lparr>os_calls := os_calls st', lo_list := lo_list st'\<rparr>)"
    using uri ops frame(2,3) res r x ls
    by (intro exI [of _ path] exI [of _ ops] exI [of _ x] exI [of _ st2]) simp
  moreover have "cores st' = (cores st)(a \<mapsto> c\<lparr>ep_data := d\<rparr>)" by (simp add: i(2) os_frame(3) [OF st3] cs)
  moreover have "find_endpoint st' = (find_endpoint st)(i \<mapsto> a)"
    using find os_frame(2) [OF st3] by (simp add: i find_endpoint_def [abs_def])
  moreover have "lev_calls st' = lev_calls st" "base st' = base st" "live_bases st' = live_bases st"
      "base_calls st' = base_calls st"
    by (simp_all add: i(2) st3 frame(1) bases)
  ultimately have "opened_as X uri st i st' t a (c\<lparr>ep_data := d\<rparr>)"
    unfolding opened_as_def using c i(1) by (simp add: n_def)
  then show ?thesis by blast
qed


subsection \<open>Client programs\<close>

datatype api_op = Api_Open string | Api_Close int | Api_Bind int int | Api_Unbind int

fun api_step :: "outside \<Rightarrow> api_op \<Rightarrow> rsys \<Rightarrow> (int \<times> rsys) outcome" where
  "api_step X (Api_Open uri) st = rteipc_open X uri st"
| "api_step X (Api_Close d) st = and_then (rteipc_close X d st) (\<lambda>st'. Inr (0, st'))"
| "api_step X (Api_Bind x y) st = rteipc_bind (levent X) x y st"
| "api_step X (Api_Unbind d) st = and_then (rteipc_unbind (levent X) d st) (\<lambda>st'. Inr (0, st'))"

fun api_ok :: "rsys \<Rightarrow> api_op \<Rightarrow> bool" where
  "api_ok st (Api_Open uri) \<longleftrightarrow> length (registered (ep_tbl st)) < capacity (ep_tbl st)"
| "api_ok st (Api_Close d) \<longleftrightarrow> usable st d"
| "api_ok st (Api_Bind x y) \<longleftrightarrow> usable st x \<and> usable st y"
| "api_ok st (Api_Unbind d) \<longleftrightarrow> usable st d"

inductive api_run :: "outside \<Rightarrow> rsys \<Rightarrow> api_op list \<Rightarrow> int list \<Rightarrow> rsys \<Rightarrow> bool" for X where
  api_done: "api_run X st [] [] st"
| api_more: "api_ok st op \<Longrightarrow> api_step X op st = Inr (r, st1) \<Longrightarrow> api_run X st1 ops rs st' \<Longrightarrow>
    api_run X st (op # ops) (r # rs) st'"

inductive spec_step :: "api_op \<Rightarrow> ep_spec \<Rightarrow> int \<Rightarrow> ep_spec \<Rightarrow> bool" where
  spec_open_fails: "spec_step (Api_Open uri) a (-1) a"
| spec_open_works: "0 \<le> d \<Longrightarrow> a d = None \<Longrightarrow> spec_step (Api_Open uri) a d (a(d \<mapsto> (t, None)))"
| spec_closes: "spec_step (Api_Close d) a 0 (spec_close d a)"
| spec_binds: "spec_bind pair_ok x y a = (r, a') \<Longrightarrow> spec_step (Api_Bind x y) a r a'"
| spec_unbinds: "spec_step (Api_Unbind d) a 0 (spec_unbind d a)"

inductive spec_run :: "ep_spec \<Rightarrow> api_op list \<Rightarrow> int list \<Rightarrow> ep_spec \<Rightarrow> bool" where
  spec_done: "spec_run a [] [] a"
| spec_more: "spec_step op a r a1 \<Longrightarrow> spec_run a1 ops rs a' \<Longrightarrow> spec_run a (op # ops) (r # rs) a'"

inductive_cases spec_stepE: "spec_step op a r a'"

lemma api_step_refines:
  assumes X: "environment_ok X" and inv: "sys_inv (osys X) st" and ok: "api_ok st op"
  shows "case api_step X op st of
      Inl e \<Rightarrow> uri_fault e
    | Inr (r, st') \<Rightarrow> sys_inv (osys X) st' \<and> spec_step op (ep_abs st) r (ep_abs st')"
proof -
  from X have x: "os_ok (osys X)" "lev_ok (levent X)" "mem X 128" "mem X 32"
    by (auto simp: environment_ok_def)
  show ?thesis
  proof (cases op)
    case (Api_Open uri)
    have "open_outcome (osys X) st (rteipc_open X uri st)"
      using open_refines [OF inv x(2) refl x(1,3,4)] ok Api_Open by simp
    then show ?thesis using Api_Open
      by (auto simp: open_outcome_def split: sum.splits prod.splits intro: spec_step.intros)
  next
    case (Api_Close d)
    with close_refines [OF inv x(2) refl, of d] ok show ?thesis by (auto intro: spec_step.intros)
  next
    case (Api_Bind a b)
    with bind_refines [OF inv x(2), of a b] ok obtain r st' where
      "rteipc_bind (levent X) a b st = Inr (r, st')" "sys_inv (osys X) st'"
      "(r, ep_abs st') = spec_bind (pair_new (levent X) (lev_calls st) \<noteq> None) a b (ep_abs st)" by auto
    then show ?thesis using Api_Bind by (auto intro: spec_binds [OF sym])
  next
    case (Api_Unbind d)
    with unbind_refines [OF inv x(2), of d] ok show ?thesis by (auto intro: spec_step.intros)
  qed
qed

lemma api_run_refines:
  assumes "environment_ok X" "api_run X st ops rs st'" "sys_inv (osys X) st"
  shows "sys_inv (osys X) st' \<and> spec_run (ep_abs st) ops rs (ep_abs st')"
  using assms(2,3)
proof (induction rule: api_run.induct)
  case (api_done st)
  then show ?case by (auto intro: spec_run.intros)
next
  case (api_more st op r st1 ops rs st')
  from api_step_refines [OF assms(1) api_more.prems api_more.hyps(1)] api_more.hyps(2)
  have "sys_inv (osys X) st1" "spec_step op (ep_abs st) r (ep_abs st1)" by simp_all
  with api_more.IH show ?case by (blast intro: spec_run.intros)
qed

definition idle_sys :: rsys where
  "idle_sys = \<lparr>os_calls = [], base = None, live_bases = {}, base_calls = [], cores = Map.empty,
     next_core = 0, ep_tbl = DTBL_INITIALIZER MAX_NR_EP, lev_calls = [], lo_list = []\<rparr>"

lemma idle_sys_inv: "sys_inv E idle_sys" "ep_abs idle_sys = Map.empty"
  by (simp_all add: sys_inv_def core_inv_def idle_sys_def data_ok_def view_def loops_ok_def)
    (auto simp: ep_abs_def abs_of_def split: option.splits)

text \<open>A closed endpoint is gone from the heap, but not from the table.\<close>

lemma closed_entry_stays:
  assumes inv: "sys_inv E st" and L: "lev_ok (levent X)" and E: "osys X = E"
    and a: "find_endpoint st x = Some a" "cores st a = Some c" "core_id c = x"
  shows "\<exists>st'. rteipc_close X x st = Inr st' \<and> find_endpoint st' x = Some a \<and> cores st' a = None"
proof -
  have "usable st x" using a by (simp add: usable_def ep_abs_def abs_of_def)
  from close_refines [OF inv L E this] a(1) show ?thesis by auto
qed

text \<open>
  C1: the endpoint interface implements its specification and never misbehaves. Take any
  program of opens, closes, binds and unbinds that starts in a fresh process, opens at most 128
  endpoints in the life of the process (closed ones count) and passes only descriptors that are
  open or were never handed out, where the descriptor table gets its memory. Its results
  and the bindings it sets up are those of the abstract map of descriptors, and any further
  such call, whatever the system answers, either returns or stops on a malformed URI or a
  hostile device in one of the three ways of \<open>uri_fault\<close>: no freed endpoint is used, no
  assertion fails, no NULL pointer is read.
\<close>

theorem api_refines:
  assumes "environment_ok X" and "api_run X idle_sys ops rs st"
  shows "spec_run Map.empty ops rs (ep_abs st) \<and>
    (\<forall>op e. api_ok st op \<longrightarrow> api_step X op st = Inl e \<longrightarrow> e \<in> {Out_Of_Bounds, Uninitialised, Hangs})"
proof -
  from api_run_refines [OF assms idle_sys_inv(1)]
  have inv: "sys_inv (osys X) st" and "spec_run (ep_abs idle_sys) ops rs (ep_abs st)" by blast+
  moreover have "e \<in> {Out_Of_Bounds, Uninitialised, Hangs}"
    if "api_ok st op" "api_step X op st = Inl e" for op e
    using api_step_refines [OF assms(1) inv that(1)] that(2) by (simp add: uri_fault_def)
  ultimately show ?thesis unfolding idle_sys_inv(2) by blast
qed

text \<open>The bindings of the specification are symmetric and between compatible types.\<close>

definition spec_ok :: "ep_spec \<Rightarrow> bool" where
  "spec_ok a \<longleftrightarrow>
     (\<forall>x s y. a x = Some (s, Some y) \<longrightarrow> x \<noteq> y \<and> (\<exists>t. a y = Some (t, Some x) \<and> (ep_compat s t \<or> ep_compat t s)))"

lemma spec_okD: "spec_ok a \<Longrightarrow> a x = Some (s, Some y) \<Longrightarrow> x \<noteq> y \<and> (\<exists>t. a y = Some (t, Some x) \<and> (ep_compat s t \<or> ep_compat t s))"
  unfolding spec_ok_def by blast

lemma spec_ok_unbind:
  assumes "spec_ok a"
  shows "spec_ok (spec_unbind x a)" "\<And>z s. spec_unbind x a z \<noteq> Some (s, Some x)"
proof -
  have "spec_ok (spec_unbind x a) \<and> (\<forall>z s. spec_unbind x a z \<noteq> Some (s, Some x))"
  proof (cases "\<exists>s y. a x = Some (s, Some y)")
    case True
    then obtain s y where x: "a x = Some (s, Some y)" by blast
    with spec_okD [OF assms x] obtain t where y: "a y = Some (t, Some x)" "x \<noteq> y" by blast
    have un: "spec_unbind x a = a(y \<mapsto> (t, None), x \<mapsto> (s, None))"
      using x y by (simp add: spec_unbind_def)
    have other: "w \<noteq> x \<and> w \<noteq> y" if "a z = Some (r, Some w)" "z \<noteq> x" "z \<noteq> y" for z r w
      using spec_okD [OF assms that(1)] x y that by auto
    show ?thesis unfolding un
    proof
      show "spec_ok (a(y \<mapsto> (t, None), x \<mapsto> (s, None)))"
        unfolding spec_ok_def using spec_okD [OF assms] other by (auto split: if_splits)
      show "\<forall>z r. (a(y \<mapsto> (t, None), x \<mapsto> (s, None))) z \<noteq> Some (r, Some x)"
        using other by auto
    qed
  next
    case False
    then have un: "spec_unbind x a = a"
      by (auto simp: spec_unbind_def split: option.splits prod.splits)
    from False spec_okD [OF assms] show ?thesis unfolding un using assms by blast
  qed
  then show "spec_ok (spec_unbind x a)" "\<And>z s. spec_unbind x a z \<noteq> Some (s, Some x)" by blast+
qed

lemma spec_step_ok:
  assumes "spec_step op a r a'" "spec_ok a"
  shows "spec_ok a'"
  using assms(1)
proof (cases rule: spec_step.cases)
  case (spec_open_works t uri)
  have "y \<noteq> r" if "a x = Some (s, Some y)" for x s y
    using spec_okD [OF assms(2) that] spec_open_works by auto
  with spec_open_works assms(2) show ?thesis
    unfolding spec_ok_def by (auto split: if_splits)
next
  case (spec_closes d)
  with spec_ok_unbind [OF assms(2), of d] show ?thesis
    unfolding spec_ok_def spec_close_def by (auto split: if_splits)
next
  case (spec_binds pair_ok x y)
  show ?thesis
  proof (cases "a' = a")
    case False
    with spec_binds(2) obtain s t where b: "a x = Some (s, None)" "a y = Some (t, None)" "x \<noteq> y" "ep_compat s t"
        "a' = a(x \<mapsto> (s, Some y), y \<mapsto> (t, Some x))"
      by (auto simp: spec_bind_def split: option.splits if_splits)
    have other: "w \<noteq> x \<and> w \<noteq> y" if "a z = Some (r, Some w)" for z r w
      using spec_okD [OF assms(2) that] b(1,2) by auto
    show ?thesis unfolding spec_ok_def b(5) using spec_okD [OF assms(2)] other b(3,4)
      by (auto split: if_splits)
  qed (use assms(2) in simp)
qed (use assms(2) spec_ok_unbind in auto)

lemma spec_run_ok: "spec_run a ops rs a' \<Longrightarrow> spec_ok a \<Longrightarrow> spec_ok a'"
  by (induction rule: spec_run.induct) (auto intro: spec_step_ok)

text \<open>
  C8: in every state such a program reaches, bindings are one to one: an endpoint that has a
  partner is the partner of its partner, never its own, and the two types are compatible.
\<close>

theorem bindings_symmetric:
  assumes "environment_ok X" and "api_run X idle_sys ops rs st" and "ep_abs st x = Some (s, Some y)"
  shows "x \<noteq> y \<and> (\<exists>t. ep_abs st y = Some (t, Some x) \<and> (ep_compat s t \<or> ep_compat t s))"
proof -
  have "spec_run Map.empty ops rs (ep_abs st)"
    using api_run_refines [OF assms(1,2) idle_sys_inv(1)] idle_sys_inv(2) by simp
  then have "spec_ok (ep_abs st)" by (rule spec_run_ok) (simp add: spec_ok_def)
  then show ?thesis using assms(3) by (rule spec_okD)
qed

text \<open>
  C20: a descriptor that was closed is a dangling pointer from then on: the table still resolves
  it to the freed endpoint, so closing it again, unbinding it, or binding it to an open
  endpoint uses freed memory.
\<close>

theorem use_after_close:
  assumes "environment_ok X" and "sys_inv (osys X) st" and "ep_abs st d \<noteq> None"
  shows "\<exists>st'. rteipc_close X d st = Inr st' \<and> rteipc_close X d st' = Inl Dangling \<and>
    rteipc_unbind (levent X) d st' = Inl Dangling \<and>
    (\<forall>y. ep_abs st' y \<noteq> None \<longrightarrow> rteipc_bind (levent X) d y st' = Inl Dangling)"
proof -
  have x: "lev_ok (levent X)" using assms(1) by (simp add: environment_ok_def)
  from assms(3) obtain i where "ep_abs st d = Some i" by auto
  then obtain a c where a: "find_endpoint st d = Some a" "cores st a = Some c" "core_id c = d"
    by (rule abs_Some)
  from closed_entry_stays [OF assms(2) x refl a] obtain st' where
    st': "rteipc_close X d st = Inr st'" "find_endpoint st' d = Some a" "cores st' a = None" by blast
  have "rteipc_bind (levent X) d y st' = Inl Dangling" if "ep_abs st' y \<noteq> None" for y
  proof -
    from that obtain j where "ep_abs st' y = Some j" by auto
    then obtain b e where "find_endpoint st' y = Some b" "cores st' b = Some e" by (rule abs_Some)
    with st' show ?thesis by (auto simp: rteipc_bind_def)
  qed
  with st' show ?thesis
    by (auto simp: rteipc_close_def rteipc_unbind_def unbind_endpoint_def)
qed


subsection \<open>Types and URIs\<close>

text \<open>
  The table of compatible types: IPC, INET and loopback endpoints can be bound to any
  endpoint, two serial lines to each other, and nothing else.
\<close>

theorem compatible_types:
  assumes "s \<in> {1..8}" "t \<in> {1..8}"
  shows "ep_compat s t \<longleftrightarrow>
    s \<in> {EP_IPC, EP_INET, EP_LOOP} \<or> t \<in> {EP_IPC, EP_INET, EP_LOOP} \<or> s = EP_TTY \<and> t = EP_TTY"
proof -
  have "\<forall>s \<in> set [1..<9]. \<forall>t \<in> set [1..<9]. ep_compat s t \<longleftrightarrow>
      s \<in> {1, 7, 8} \<or> t \<in> {1, 7, 8} \<or> s = 2 \<and> t = 2"
    by code_simp
  moreover have "s \<in> set [1..<9]" "t \<in> set [1..<9]" using assms by auto
  ultimately show ?thesis by blast
qed

theorem compatible_types_witness: "\<not> ep_compat EP_I2C EP_TTY \<and> ep_compat EP_LOOP EP_I2C"
  using compatible_types [of EP_I2C EP_TTY] compatible_types [of EP_LOOP EP_I2C] by simp

lemma uri_target_protocol:
  assumes "CHR '':'' \<notin> set p" "0 < length p" "length p < 16" "0 < length q" "length q < 100" "CHR 0x0A \<notin> set q"
  shows "uri_target (p @ ''://'' @ q) = Inr (map_option (\<lambda>t. (t, q)) (protocol_type p))"
proof -
  have "takeWhile (\<lambda>c. c \<noteq> CHR '':'') (p @ CHR '':'' # r) = p" for r
    using assms(1) by (auto simp: takeWhile_append)
  moreover have "strstr (p @ ''://'' @ q) ''://''" by (induction p) simp_all
  moreover have whole: "takeWhile (\<lambda>c. c \<noteq> CHR 0x0A) q = q" using assms(6) by (auto simp: takeWhile_eq_all_conv)
  have "take 99 (takeWhile (\<lambda>c. c \<noteq> CHR 0x0A) q) = q" unfolding whole using assms(5) by simp
  ultimately show ?thesis
    using assms(2-4) by (simp add: uri_target_def uri_scan_def scan_not_def scan_not_width_def Let_def)
qed

lemma loop_target:
  assumes "CHR '':'' \<notin> set p" "NUL \<notin> set p" "length p < 16"
  shows "uri_target p = Inr (Some (EP_LOOP, p))"
proof -
  have "\<not> strstr p ''://''" using assms(1)
  proof (induction p)
    case (Cons c p)
    then show ?case by (cases p) auto
  qed simp
  moreover have whole: "takeWhile (\<lambda>c. c \<noteq> CHR '':'') p = p" using assms(1) by (auto simp: takeWhile_eq_all_conv)
  have "uri_scan p = Inr (p, [])" using assms(3) by (simp add: uri_scan_def scan_not_def whole Let_def)
  ultimately show ?thesis using assms by (simp add: uri_target_def read_strncpy)
qed

text \<open>
  C35: how a URI is read. Seven protocols select the endpoint type of their name and the path
  after the slashes, and no other protocol selects any; a name without the slashes (and of at most 15 characters before any colon) is a
  loopback endpoint; but 16 characters or more before the first colon, which includes every
  loopback name longer than 15, overflow the buffer of the protocol before any check of the
  length is made.
\<close>

theorem uri_targets:
  assumes "CHR '':'' \<notin> set p"
  shows "(0 < length p \<and> length p < 16 \<and> 0 < length q \<and> length q < 100 \<and> CHR 0x0A \<notin> set q \<longrightarrow>
      uri_target (p @ ''://'' @ q) = Inr (map_option (\<lambda>t. (t, q))
        (map_of [(''ipc'', EP_IPC), (''inet'', EP_INET), (''tty'', EP_TTY), (''gpio'', EP_GPIO),
           (''spi'', EP_SPI), (''i2c'', EP_I2C), (''sysfs'', EP_SYSFS)] p))) \<and>
    (length p < 16 \<and> NUL \<notin> set p \<longrightarrow> uri_target p = Inr (Some (EP_LOOP, p))) \<and>
    (16 \<le> length p \<longrightarrow> uri_target p = Inl Out_Of_Bounds \<and> uri_target (p @ ''://'' @ q) = Inl Out_Of_Bounds)"
proof -
  have take: "takeWhile (\<lambda>c. c \<noteq> CHR '':'') (p @ CHR '':'' # r) = p" "takeWhile (\<lambda>c. c \<noteq> CHR '':'') p = p" for r
    using assms by (auto simp: takeWhile_eq_all_conv takeWhile_append)
  have one: "uri_target (p @ ''://'' @ q) = Inr (map_option (\<lambda>t. (t, q))
        (map_of [(''ipc'', EP_IPC), (''inet'', EP_INET), (''tty'', EP_TTY), (''gpio'', EP_GPIO),
           (''spi'', EP_SPI), (''i2c'', EP_I2C), (''sysfs'', EP_SYSFS)] p))"
    if "0 < length p \<and> length p < 16 \<and> 0 < length q \<and> length q < 100 \<and> CHR 0x0A \<notin> set q"
    using uri_target_protocol assms that by (simp add: protocol_type_def)
  have two: "uri_target p = Inr (Some (EP_LOOP, p))" if "length p < 16 \<and> NUL \<notin> set p"
    using loop_target assms that by blast
  have three: "uri_target p = Inl Out_Of_Bounds \<and> uri_target (p @ ''://'' @ q) = Inl Out_Of_Bounds"
    if "16 \<le> length p"
  proof -
    have "p \<noteq> []" using that by auto
    then show ?thesis using that
      by (simp add: uri_target_def uri_scan_def scan_not_def Let_def
          take(1) [of "CHR ''/'' # CHR ''/'' # q"] take(2))
  qed
  from one two three show ?thesis by blast
qed

theorem uri_targets_witness:
  "uri_target ''i2c:///dev/i2c-1'' = Inr (Some (EP_I2C, ''/dev/i2c-1'')) \<and>
   uri_target ''a_loop_of_sixteen'' = Inl Out_Of_Bounds"
  using uri_targets [of "''i2c''" "''/dev/i2c-1''"] uri_targets [of "''a_loop_of_sixteen''" "[]"]
  by simp


subsection \<open>A sample program\<close>

fun api_exec :: "outside \<Rightarrow> rsys \<Rightarrow> api_op list \<Rightarrow> (int list \<times> rsys) option" where
  "api_exec X st [] = Some ([], st)"
| "api_exec X st (op # ops) =
     (if \<not> api_ok st op then None
      else (case api_step X op st of
              Inl e \<Rightarrow> None
            | Inr (r, st1) \<Rightarrow> map_option (\<lambda>(rs, st'). (r # rs, st')) (api_exec X st1 ops)))"

lemma api_exec_run: "api_exec X st ops = Some (rs, st') \<Longrightarrow> api_run X st ops rs st'"
proof (induction ops arbitrary: st rs)
  case (Cons op ops)
  then show ?case by (auto split: if_splits sum.splits intro: api_run.intros)
qed (auto intro: api_run.intros)

definition sample_outside :: outside where
  "sample_outside = \<lparr>mem = (\<lambda>n. True), osys = counting_os, levent = counting_lev,
     kwrite = (\<lambda>h k bs. Written (length bs)), lo_fun = (\<lambda>cb name msg len arg st. Inr st)\<rparr>"

lemma sample_environment: "environment_ok sample_outside"
  by (simp add: environment_ok_def sample_outside_def)

abbreviation sample_ops :: "api_op list" where
  "sample_ops \<equiv> [Api_Open ''a'', Api_Open ''b'', Api_Bind 0 1]"

lemma sample_run:
  obtains st where "api_run sample_outside idle_sys sample_ops [0, 1, 0] st"
    "ep_abs st 0 = Some (EP_LOOP, Some 1)" "ep_abs st 1 = Some (EP_LOOP, Some 0)"
proof -
  have "map_option (\<lambda>(rs, st). (rs, ep_abs st 0, ep_abs st 1)) (api_exec sample_outside idle_sys sample_ops) =
      Some ([0, 1, 0], Some (8, Some 1), Some (8, Some 0))"
    by code_simp
  then obtain rs st where "api_exec sample_outside idle_sys sample_ops = Some (rs, st)"
    "rs = [0, 1, 0]" "ep_abs st 0 = Some (8, Some 1)" "ep_abs st 1 = Some (8, Some 0)" by auto
  then show ?thesis using that api_exec_run by blast
qed

theorem api_refines_witness:
  "\<exists>st. api_run sample_outside idle_sys sample_ops [0, 1, 0] st \<and>
     spec_run Map.empty sample_ops [0, 1, 0] (ep_abs st) \<and> ep_abs st 0 = Some (EP_LOOP, Some 1)"
proof -
  obtain st where st: "api_run sample_outside idle_sys sample_ops [0, 1, 0] st"
    "ep_abs st 0 = Some (EP_LOOP, Some 1)" by (rule sample_run)
  with api_refines [OF sample_environment st(1)] show ?thesis by blast
qed

theorem bindings_symmetric_witness:
  "\<exists>st. ep_abs st 0 = Some (EP_LOOP, Some 1) \<and> (\<exists>t. ep_abs st 1 = Some (t, Some 0))"
proof -
  obtain st where st: "api_run sample_outside idle_sys sample_ops [0, 1, 0] st"
    "ep_abs st 0 = Some (EP_LOOP, Some 1)" by (rule sample_run)
  from bindings_symmetric [OF sample_environment st] st(2) show ?thesis by blast
qed

theorem use_after_close_witness:
  "\<exists>st st'. rteipc_close sample_outside 0 st = Inr st' \<and> rteipc_close sample_outside 0 st' = Inl Dangling"
proof -
  obtain st where st: "api_run sample_outside idle_sys sample_ops [0, 1, 0] st"
    "ep_abs st 0 = Some (EP_LOOP, Some 1)" by (rule sample_run)
  have "sys_inv (osys sample_outside) st"
    using api_run_refines [OF sample_environment st(1) idle_sys_inv(1)] by blast
  from use_after_close [OF sample_environment this, of 0] st(2) show ?thesis by auto
qed

end
