(* ===== verification/Rtemgrd_Routes.thy ===== *)
theory Rtemgrd_Routes
  imports Rtemgrd_Ctl Ep_Api
begin

section \<open>The routes between the interfaces of the daemon\<close>

text \<open>
  What the daemon promises of its interfaces, abstracted to a \<^emph>\<open>net\<close>: which interfaces there
  are, who is routed to whom, which are managed, and in which domain they are listed. Every
  command of the daemon acts on the net by abstract steps; as long as an interface is forgotten
  before it gets another partner, no interface ever has a partner that is gone.
\<close>

subsection \<open>Nets\<close>

record net =
  nodes :: "addr set"
  peer :: "addr \<rightharpoonup> addr"
  hub :: "addr set"
  home :: "addr \<rightharpoonup> nat"
  members :: "addr list list"
  called :: "addr \<rightharpoonup> string"
  ids :: "int list"
  fresh :: nat

definition net_of :: "daemon \<Rightarrow> net" where
  "net_of st = \<lparr>nodes = Map.dom (ifaces st),
     peer = (\<lambda>a. Option.bind (ifaces st a) i_partner),
     hub = {a. \<exists>i. ifaces st a = Some i \<and> i_managed i \<noteq> 0},
     home = (\<lambda>a. Option.bind (ifaces st a) i_domain),
     members = map dom_ifaces (domains st),
     called = (\<lambda>a. map_option (\<lambda>i. c_string (i_name i)) (ifaces st a)),
     ids = map dom_id (domains st), fresh = next_iface st\<rparr>"

definition peers_ok :: "net \<Rightarrow> bool" where
  "peers_ok n \<longleftrightarrow>
     (\<forall>x p. peer n x = Some p \<longrightarrow> x \<in> nodes n \<and> p \<in> nodes n \<and> x \<noteq> p \<and> x \<notin> hub n \<and>
        (p \<notin> hub n \<longrightarrow> peer n p = Some x))"

definition lists_ok :: "net \<Rightarrow> bool" where
  "lists_ok n \<longleftrightarrow>
     (\<forall>x \<in> nodes n. \<exists>k < length (members n). home n x = Some k \<and> x \<in> set (members n ! k)) \<and>
     (\<forall>k < length (members n). distinct (members n ! k) \<and>
        (\<forall>x \<in> set (members n ! k). x \<in> nodes n \<and> home n x = Some k))"

definition net_ok :: "net \<Rightarrow> bool" where
  "net_ok n \<longleftrightarrow> (\<forall>x \<in> nodes n. x < fresh n) \<and> hub n \<subseteq> nodes n \<and> peers_ok n \<and> lists_ok n"

definition net_add :: "nat \<Rightarrow> bool \<Rightarrow> string \<Rightarrow> net \<Rightarrow> net" where
  "net_add k m s n =
     n\<lparr>nodes := insert (fresh n) (nodes n), hub := (if m then insert (fresh n) (hub n) else hub n),
       home := (home n)(fresh n \<mapsto> k), members := (members n)[k := members n ! k @ [fresh n]],
       called := (called n)(fresh n \<mapsto> s), fresh := fresh n + 1\<rparr>"

definition net_route :: "addr \<Rightarrow> addr \<Rightarrow> net \<Rightarrow> net" where
  "net_route a b n = n\<lparr>peer := (\<lambda>x. if x = a \<and> a \<notin> hub n then Some b
     else if x = b \<and> b \<notin> hub n then Some a else peer n x)\<rparr>"

definition net_forget :: "addr \<Rightarrow> net \<Rightarrow> net" where
  "net_forget a n = n\<lparr>peer := (\<lambda>x. if x = a \<or> peer n x = Some a then None else peer n x)\<rparr>"

definition net_remove :: "addr \<Rightarrow> net \<Rightarrow> net" where
  "net_remove a n = (net_forget a n)\<lparr>nodes := nodes n - {a}, hub := hub n - {a}, home := (home n)(a := None),
     called := (called n)(a := None),
     members := (case home n a of None \<Rightarrow> members n | Some k \<Rightarrow> (members n)[k := remove1 a (members n ! k)])\<rparr>"

definition may_route :: "addr \<Rightarrow> addr \<Rightarrow> net \<Rightarrow> bool" where
  "may_route a b n \<longleftrightarrow> (a \<notin> hub n \<longrightarrow> peer n a \<in> {None, Some b})"

inductive net_step :: "net \<Rightarrow> net \<Rightarrow> bool" where
  Add: "k < length (members n) \<Longrightarrow> net_step n (net_add k m s n)"
| Route: "a \<in> nodes n \<Longrightarrow> b \<in> nodes n \<Longrightarrow> a \<noteq> b \<Longrightarrow> may_route a b n \<Longrightarrow> may_route b a n \<Longrightarrow>
    net_step n (net_route a b n)"
| Forget: "a \<in> nodes n \<Longrightarrow> net_step n (net_forget a n)"
| Remove: "a \<in> nodes n \<Longrightarrow> net_step n (net_remove a n)"

lemma net_okD:
  assumes "net_ok n"
  shows "x \<in> nodes n \<Longrightarrow> x < fresh n" and "hub n \<subseteq> nodes n" and "peers_ok n" and "lists_ok n"
  using assms unfolding net_ok_def by blast+

lemma peers_okD:
  assumes "peers_ok n" and "peer n x = Some p"
  shows "x \<in> nodes n" "p \<in> nodes n" "x \<noteq> p" "x \<notin> hub n" "p \<notin> hub n \<Longrightarrow> peer n p = Some x"
  using assms unfolding peers_ok_def by blast+

lemma lists_okD:
  assumes "lists_ok n"
  shows "x \<in> nodes n \<Longrightarrow> \<exists>k < length (members n). home n x = Some k \<and> x \<in> set (members n ! k)"
    and "k < length (members n) \<Longrightarrow> distinct (members n ! k)"
    and "k < length (members n) \<Longrightarrow> x \<in> set (members n ! k) \<Longrightarrow> x \<in> nodes n"
    and "k < length (members n) \<Longrightarrow> x \<in> set (members n ! k) \<Longrightarrow> home n x = Some k"
  using assms unfolding lists_ok_def by blast+

lemma net_defs_simps [simp]:
  "nodes (net_forget a n) = nodes n" "hub (net_forget a n) = hub n" "home (net_forget a n) = home n"
  "members (net_forget a n) = members n" "called (net_forget a n) = called n" "ids (net_forget a n) = ids n"
  "fresh (net_forget a n) = fresh n"
  "nodes (net_route a b n) = nodes n" "hub (net_route a b n) = hub n" "home (net_route a b n) = home n"
  "members (net_route a b n) = members n" "called (net_route a b n) = called n"
  "ids (net_route a b n) = ids n" "fresh (net_route a b n) = fresh n"
  "peer (net_forget a n) x = (if x = a \<or> peer n x = Some a then None else peer n x)"
  "peer (net_route a b n) x = (if x = a \<and> a \<notin> hub n then Some b
     else if x = b \<and> b \<notin> hub n then Some a else peer n x)"
  by (simp_all add: net_forget_def net_route_def)

lemma peers_ok_members: "peers_ok (n\<lparr>members := ms\<rparr>) \<longleftrightarrow> peers_ok n"
  by (simp add: peers_ok_def)

lemma lists_ok_cong:
  "nodes n' = nodes n \<Longrightarrow> home n' = home n \<Longrightarrow> members n' = members n \<Longrightarrow> lists_ok n' = lists_ok n"
  by (simp add: lists_ok_def)

lemma net_forget_ok:
  assumes ok: "net_ok n"
  shows "net_ok (net_forget a n)"
proof -
  note peers = peers_okD [OF net_okD(3) [OF ok]]
  have "peers_ok (net_forget a n)"
    unfolding peers_ok_def
  proof (intro allI impI)
    fix x p assume "peer (net_forget a n) x = Some p"
    then have x: "peer n x = Some p" "x \<noteq> a" "p \<noteq> a" by (auto split: if_splits)
    with peers [OF x(1)] show "x \<in> nodes (net_forget a n) \<and> p \<in> nodes (net_forget a n) \<and> x \<noteq> p \<and>
        x \<notin> hub (net_forget a n) \<and> (p \<notin> hub (net_forget a n) \<longrightarrow> peer (net_forget a n) p = Some x)"
      by auto
  qed
  with ok show ?thesis by (simp add: net_ok_def lists_ok_cong [of "net_forget a n" n])
qed

lemma net_route_ok:
  assumes ok: "net_ok n" and ab: "a \<in> nodes n" "b \<in> nodes n" "a \<noteq> b" "may_route a b n" "may_route b a n"
  shows "net_ok (net_route a b n)"
proof -
  note peers = peers_okD [OF net_okD(3) [OF ok]]
  have a: "x = b" if "peer n x = Some a" "a \<notin> hub n" for x
    using that ab(4) peers(5) [OF that] by (auto simp: may_route_def)
  have b: "x = a" if "peer n x = Some b" "b \<notin> hub n" for x
    using that ab(5) peers(5) [OF that] by (auto simp: may_route_def)
  have "peers_ok (net_route a b n)"
    unfolding peers_ok_def
  proof (intro allI impI)
    fix x p assume x: "peer (net_route a b n) x = Some p"
    consider "x = a" "a \<notin> hub n" "p = b" | "x = b" "b \<notin> hub n" "p = a" "x \<noteq> a"
      | "peer n x = Some p" "x = a \<longrightarrow> a \<in> hub n" "x = b \<longrightarrow> b \<in> hub n"
      using x unfolding net_defs_simps by (metis option.inject)
    then show "x \<in> nodes (net_route a b n) \<and> p \<in> nodes (net_route a b n) \<and> x \<noteq> p \<and>
        x \<notin> hub (net_route a b n) \<and> (p \<notin> hub (net_route a b n) \<longrightarrow> peer (net_route a b n) p = Some x)"
    proof cases
      case 3
      have "p \<notin> hub n \<Longrightarrow> p \<noteq> a" using a 3 ab(3) peers(4) [OF 3(1)] by blast
      moreover have "p \<notin> hub n \<Longrightarrow> p \<noteq> b" using b 3 ab(3) peers(4) [OF 3(1)] by blast
      moreover have "p \<notin> hub n \<Longrightarrow> peer n p = Some x" using peers(5) [OF 3(1)] .
      ultimately show ?thesis using peers(1-4) [OF 3(1)] by simp
    qed (use ab(1-3) in auto)
  qed
  with ok show ?thesis by (simp add: net_ok_def lists_ok_cong [of "net_route a b n" n])
qed

lemma net_add_ok:
  assumes ok: "net_ok n" and k: "k < length (members n)"
  shows "net_ok (net_add k m s n)"
proof -
  let ?f = "fresh n"
  have new: "?f \<notin> nodes n" using net_okD(1) [OF ok, of ?f] by blast
  note peers = peers_okD [OF net_okD(3) [OF ok]] and lists = lists_okD [OF net_okD(4) [OF ok]]
  have "peers_ok (net_add k m s n)"
    unfolding peers_ok_def
  proof (intro allI impI)
    fix x p assume "peer (net_add k m s n) x = Some p"
    then have x: "peer n x = Some p" by (simp add: net_add_def)
    from peers(1,2) [OF x] new have "x \<noteq> ?f" "p \<noteq> ?f" by blast+
    with peers(1-4) [OF x] peers(5) [OF x]
    show "x \<in> nodes (net_add k m s n) \<and> p \<in> nodes (net_add k m s n) \<and> x \<noteq> p \<and>
        x \<notin> hub (net_add k m s n) \<and> (p \<notin> hub (net_add k m s n) \<longrightarrow> peer (net_add k m s n) p = Some x)"
      by (simp add: net_add_def)
  qed
  moreover have "lists_ok (net_add k m s n)"
    unfolding lists_ok_def
  proof (intro conjI ballI allI impI)
    fix x assume "x \<in> nodes (net_add k m s n)"
    then consider "x = ?f" | "x \<noteq> ?f" "x \<in> nodes n" by (auto simp: net_add_def)
    then show "\<exists>j < length (members (net_add k m s n)). home (net_add k m s n) x = Some j \<and>
        x \<in> set (members (net_add k m s n) ! j)"
    proof cases
      case 2
      from lists(1) [OF this(2)] obtain j where "j < length (members n)" "home n x = Some j"
          "x \<in> set (members n ! j)" by blast
      with 2 show ?thesis
        by (intro exI [of _ j]) (cases "j = k"; simp add: net_add_def)
    qed (use k in \<open>auto simp: net_add_def\<close>)
  next
    fix j assume j: "j < length (members (net_add k m s n))"
    show "distinct (members (net_add k m s n) ! j)"
      using j k new lists(2,3) by (auto simp: net_add_def nth_list_update)
    fix x assume x: "x \<in> set (members (net_add k m s n) ! j)"
    show "x \<in> nodes (net_add k m s n)"
      using j k x lists(3) by (auto simp: net_add_def nth_list_update split: if_splits)
    show "home (net_add k m s n) x = Some j"
      using j k x new lists(3,4) by (auto simp: net_add_def nth_list_update split: if_splits)
  qed
  ultimately show ?thesis
    using net_okD(1,2) [OF ok] by (auto simp: net_ok_def net_add_def less_SucI)
qed

lemma net_remove_ok:
  assumes ok: "net_ok n" and a: "a \<in> nodes n"
  shows "net_ok (net_remove a n)"
proof -
  note peers = peers_okD [OF net_okD(3) [OF net_forget_ok [OF ok, of a]]]
    and lists = lists_okD [OF net_okD(4) [OF ok]]
  obtain k where k: "k < length (members n)" "home n a = Some k" using lists(1) [OF a] by blast
  let ?n = "net_remove a n"
  have simps: "nodes ?n = nodes n - {a}" "hub ?n = hub n - {a}" "peer ?n = peer (net_forget a n)"
      "home ?n = (home n)(a := None)" "members ?n = (members n)[k := remove1 a (members n ! k)]"
      "fresh ?n = fresh n"
    using k by (simp_all add: net_remove_def)
  have "peers_ok ?n"
    unfolding peers_ok_def simps
  proof (intro allI impI)
    fix x p assume x: "peer (net_forget a n) x = Some p"
    then have "x \<noteq> a" "p \<noteq> a" by (auto split: if_splits)
    with peers [OF x] show "x \<in> nodes n - {a} \<and> p \<in> nodes n - {a} \<and> x \<noteq> p \<and> x \<notin> hub n - {a} \<and>
        (p \<notin> hub n - {a} \<longrightarrow> peer (net_forget a n) p = Some x)" by auto
  qed
  moreover have "lists_ok ?n"
    unfolding lists_ok_def simps
  proof (intro conjI ballI allI impI)
    fix x assume "x \<in> nodes n - {a}"
    with lists(1) [of x] obtain j where "x \<noteq> a" "j < length (members n)" "home n x = Some j"
        "x \<in> set (members n ! j)" by blast
    then show "\<exists>j < length ((members n)[k := remove1 a (members n ! k)]). ((home n)(a := None)) x = Some j \<and>
        x \<in> set ((members n)[k := remove1 a (members n ! k)] ! j)"
      by (intro exI [of _ j]) (cases "j = k"; simp)
  next
    fix j assume "j < length ((members n)[k := remove1 a (members n ! k)])"
    then have j: "j < length (members n)" by simp
    show "distinct ((members n)[k := remove1 a (members n ! k)] ! j)"
      using j k lists(2) by (simp add: nth_list_update)
    fix x assume x: "x \<in> set ((members n)[k := remove1 a (members n ! k)] ! j)"
    then have mem: "x \<in> set (members n ! j)" using j k set_remove1_subset
      by (fastforce simp: nth_list_update split: if_splits)
    have "x \<noteq> a"
    proof
      assume xa: "x = a"
      with mem lists(4) [OF j] k have "j = k" by auto
      with x xa lists(2) [OF k(1)] k show False by simp
    qed
    with mem lists(3,4) [OF j] show "x \<in> nodes n - {a}" "((home n)(a := None)) x = Some j" by auto
  qed
  ultimately show ?thesis
    using net_okD(1,2) [OF ok] by (auto simp: net_ok_def simps)
qed

lemma net_step_ok: "net_step n n' \<Longrightarrow> net_ok n \<Longrightarrow> net_ok n'"
  by (induction rule: net_step.induct) (auto intro: net_add_ok net_route_ok net_forget_ok net_remove_ok)

lemma net_steps_ok: "net_step\<^sup>*\<^sup>* n n' \<Longrightarrow> net_ok n \<Longrightarrow> net_ok n'"
  by (induction rule: rtranclp_induct) (auto intro: net_step_ok)


subsection \<open>What each command does to a net\<close>

text \<open>
  The commands, written on nets alone. \<open>domain_of n k\<close> is the place of the domain with the id
  \<open>k\<close> and \<open>named n f\<close> the interface that an entry of a packet stands for: the first one of its
  domain that has its name.
\<close>

definition domain_of :: "net \<Rightarrow> int \<Rightarrow> nat option" where
  "domain_of n k = (if k \<in> set (ids n) then Some (length (takeWhile (\<lambda>i. i \<noteq> k) (ids n))) else None)"

definition named :: "net \<Rightarrow> rtemgr_intf \<Rightarrow> addr option" where
  "named n f =
     (case domain_of n (if_domain f) of
        None \<Rightarrow> None
      | Some k \<Rightarrow> find (\<lambda>a. called n a = Some (c_string (if_name f))) (members n ! k))"

text \<open>
  Opening adds one interface, in the domain and with the name of the first entry; when its
  endpoints cannot be set up, it is taken away again. \<open>r\<close> is the code in the reply.
\<close>

definition net_open :: "outside \<Rightarrow> rtemgr_data \<Rightarrow> int \<Rightarrow> net \<Rightarrow> net \<Rightarrow> bool" where
  "net_open X d r n n' \<longleftrightarrow>
     (if interfaces d = [] \<or> nr_intf d < 1 then r = -1 \<and> n' = n
      else (let f = hd (interfaces d) in
        (case domain_of n (if_domain f) of
           None \<Rightarrow> r = -1 \<and> n' = n
         | Some k \<Rightarrow>
             if \<not> mem X 216 then r = -1 \<and> n' = n
             else (let n1 = net_add k (if_managed f \<noteq> 0) (c_string (if_name f)) n in
               r = 0 \<and> n' = n1 \<or> r = -1 \<and> n' = net_remove (fresh n) n1))))"

text \<open>Closing takes away the interfaces of the entries, one after the other.\<close>

fun net_close :: "rtemgr_intf list \<Rightarrow> net \<Rightarrow> net" where
  "net_close [] n = n"
| "net_close (f # fs) n = net_close fs (case named n f of None \<Rightarrow> n | Some a \<Rightarrow> net_remove a n)"

fun net_routed :: "rtemgr_intf list \<Rightarrow> int \<Rightarrow> net \<Rightarrow> net \<Rightarrow> bool" where
  "net_routed [f, g] r n n' \<longleftrightarrow>
     (case (named n f, named n g) of
        (Some a, Some b) \<Rightarrow> if a = b then r = -1 \<and> n' = n else r = 0 \<and> n' = net_route a b n
      | _ \<Rightarrow> r = -1 \<and> n' = n)"
| "net_routed _ r n n' \<longleftrightarrow> r = -1 \<and> n' = n"

definition net_forgot :: "rtemgr_intf \<Rightarrow> int \<Rightarrow> net \<Rightarrow> net \<Rightarrow> bool" where
  "net_forgot f r n n' \<longleftrightarrow>
     (case named n f of None \<Rightarrow> r = -1 \<and> n' = n | Some a \<Rightarrow> r = 0 \<and> n' = net_forget a n)"

definition net_command :: "outside \<Rightarrow> rtemgr_data \<Rightarrow> int \<Rightarrow> net \<Rightarrow> net \<Rightarrow> bool" where
  "net_command X d r n n' \<longleftrightarrow>
     (if action (cmd d) = RTECMD_OPEN then net_open X d r n n'
      else if action (cmd d) = RTECMD_CLOSE then
        (if interfaces d = [] \<or> nr_intf d < 1 then r = -1 \<and> n' = n
         else r = 0 \<and> n' = net_close (take (nat (nr_intf d)) (interfaces d)) n)
      else if action (cmd d) = RTECMD_ROUTE then
        net_routed (if nr_intf d = 2 then take 2 (interfaces d) else []) r n n'
      else if action (cmd d) = RTECMD_FORGET then net_forgot (hd (interfaces d)) r n n'
      else n' = n)"


subsection \<open>The daemon implements nets\<close>

lemma net_of_simps:
  "nodes (net_of st) = Map.dom (ifaces st)"
  "peer (net_of st) a = Option.bind (ifaces st a) i_partner"
  "a \<in> hub (net_of st) \<longleftrightarrow> (\<exists>i. ifaces st a = Some i \<and> i_managed i \<noteq> 0)"
  "home (net_of st) a = Option.bind (ifaces st a) i_domain"
  "members (net_of st) = map dom_ifaces (domains st)" "fresh (net_of st) = next_iface st"
  "called (net_of st) a = map_option (\<lambda>i. c_string (i_name i)) (ifaces st a)"
  "ids (net_of st) = map dom_id (domains st)"
  by (simp_all add: net_of_def)

lemma net_of_rt [simp]: "net_of (st\<lparr>rt := r\<rparr>) = net_of st"
  by (simp add: net_of_def)

lemma net_eqI:
  assumes "ifaces st' = (ifaces st)(a \<mapsto> f i)" "ifaces st a = Some i" "domains st' = domains st"
    and "next_iface st' = next_iface st"
    and "i_managed (f i) = i_managed i" "i_domain (f i) = i_domain i" "i_partner (f i) = i_partner i"
    and "i_name (f i) = i_name i"
  shows "net_of st' = net_of st"
  using assms by (auto simp: net_of_def intro!: ext)

lemma set_iface_eq_Inr:
  "set_iface a f st = Inr st' \<longleftrightarrow> (\<exists>i. ifaces st a = Some i \<and> st' = st\<lparr>ifaces := (ifaces st)(a \<mapsto> f i)\<rparr>)"
  by (auto simp: set_iface_def and_then_eq_Inr deref_eq_Inr)

lemma set_iface_net:
  assumes "set_iface a f st = Inr st'"
    and "\<And>i. i_managed (f i) = i_managed i" "\<And>i. i_domain (f i) = i_domain i" "\<And>i. i_partner (f i) = i_partner i"
    "\<And>i. i_name (f i) = i_name i"
  shows "net_of st' = net_of st"
  using assms by (auto simp: set_iface_eq_Inr intro: net_eqI)

text \<open>Data changes no route.\<close>

definition keeps :: "daemon \<Rightarrow> daemon outcome \<Rightarrow> bool" where
  "keeps st r \<longleftrightarrow> (\<forall>st'. r = Inr st' \<longrightarrow> net_of st' = net_of st)"

lemma keepsD: "keeps st r \<Longrightarrow> r = Inr st' \<Longrightarrow> net_of st' = net_of st"
  by (simp add: keeps_def)

lemma keeps_intros:
  "keeps st (Inl e)" "keeps st (Inr st)" "keeps st (xfer_rt X n bs st)" "keeps st (xfer_result r' st)"
  "keeps st (set_iface a (\<lambda>i. i\<lparr>i_pending := g i\<rparr>) st)"
  "(\<And>x. r = Inr x \<Longrightarrow> keeps st (f x)) \<Longrightarrow> keeps st (and_then r f)"
  "(P \<Longrightarrow> keeps st r1) \<Longrightarrow> (\<not> P \<Longrightarrow> keeps st r2) \<Longrightarrow> keeps st (if P then r1 else r2)"
  by (auto simp: keeps_def xfer_rt_def xfer_result_def and_then_eq_Inr intro: set_iface_net)

lemma keeps_option:
  "(v = None \<Longrightarrow> keeps st r1) \<Longrightarrow> (\<And>x. v = Some x \<Longrightarrow> keeps st (f' x)) \<Longrightarrow>
     keeps st (case v of None \<Rightarrow> r1 | Some x \<Rightarrow> f' x)"
  by (cases v) simp_all

lemma raw_handler_keeps: "keeps st (iface_raw_handler X Y a len msg st)"
  unfolding iface_raw_handler_def iface_pending_def Let_def
  by (intro keeps_intros keeps_option)

lemma managed_handler_keeps: "keeps st (iface_managed_handler X Y s len msg st)"
  unfolding iface_managed_handler_def to_managed_def to_spi_or_i2c_def Let_def prod.case
  by (intro keeps_intros keeps_option)

lemma run_handler_keeps: "keeps st (run_handler X Y a len msg st)"
  unfolding run_handler_def
  by (intro keeps_intros keeps_option; split iface_handler.split)
    (simp add: raw_handler_keeps managed_handler_keeps)

lemmas run_handler_net = keepsD [OF run_handler_keeps]

lemma iface_trigger_net:
  assumes "iface_trigger X Y a st = Inr st'"
  shows "net_of st' = net_of st"
proof -
  from assms obtain i where i: "ifaces st a = Some i" by (auto simp: iface_trigger_def and_then_eq_Inr deref_eq_Inr)
  show ?thesis
  proof (cases "i_partner i")
    case None
    with assms i show ?thesis by (simp add: iface_trigger_def)
  next
    case (Some p)
    with assms i obtain st1 rest where
      "drain_loop (mem X) (run_handler X Y a) st (i_pending i) = Inr (st1, rest)"
      "set_iface a (\<lambda>i. i\<lparr>i_pending := rest\<rparr>) st1 = Inr st'"
      by (auto simp: iface_trigger_def and_then_eq_Inr)
    with drain_loop_keeps [OF this(1), of net_of] run_handler_net set_iface_net [OF this(2)]
    show ?thesis by simp
  qed
qed

text \<open>The commands are steps of nets.\<close>

lemma set_peer_net:
  "set_iface a (\<lambda>i. i\<lparr>i_partner := p\<rparr>) st = Inr st' \<Longrightarrow>
     net_of st' = (net_of st)\<lparr>peer := (peer (net_of st))(a := p)\<rparr>"
  by (auto simp: set_iface_eq_Inr net_of_def fun_eq_iff split: if_splits)

lemma set_route_net:
  assumes "set_route X Y a b st = Inr st'"
  shows "net_of st' = (net_of st)\<lparr>peer := (\<lambda>x. if x = a \<and> a \<notin> hub (net_of st) then Some b
    else peer (net_of st) x)\<rparr>" (is "_ = ?n")
proof -
  from assms obtain i where i: "ifaces st a = Some i" by (auto simp: set_route_def and_then_eq_Inr deref_eq_Inr)
  show ?thesis
  proof (cases "i_managed i = 0")
    case True
    with assms i obtain st1 where "set_iface a (\<lambda>i. i\<lparr>i_partner := Some b\<rparr>) st = Inr st1"
        "iface_trigger X Y a st1 = Inr st'"
      by (auto simp: set_route_def and_then_eq_Inr)
    then have "net_of st' = (net_of st)\<lparr>peer := (peer (net_of st))(a \<mapsto> b)\<rparr>"
      using iface_trigger_net set_peer_net by metis
    also have "\<dots> = ?n" using i True by (simp add: net_of_def fun_eq_iff)
    finally show ?thesis .
  next
    case False
    with assms i have "st' = st" by (simp add: set_route_def)
    with i False show ?thesis by (simp add: net_of_def)
  qed
qed


lemma route_net:
  assumes "set_route X Y a b st = Inr st1" "set_route X Y b a st1 = Inr st2" "a \<noteq> b"
  shows "net_of st2 = net_route a b (net_of st)"
  using set_route_net [OF assms(1)] set_route_net [OF assms(2)] assms(3)
  by (auto simp: net_route_def fun_eq_iff)

lemma find_name_live: "find_name h name as = Inr (Some a) \<Longrightarrow> h a \<noteq> None \<and> a \<in> set as"
  by (induction as) (auto simp: and_then_eq_Inr deref_eq_Inr split: if_splits)

lemma lookup_live: "lookup f st = Inr (Some a) \<Longrightarrow> a \<in> nodes (net_of st)"
  by (auto simp: net_of_simps lookup_def iface_lookup_by_name_def dest: find_name_live split: option.splits)

lemma do_forget_net:
  assumes "\<forall>x \<in> set as. ifaces st x \<noteq> None"
  shows "\<exists>st'. do_forget as a st = Inr st' \<and> net_of st' = (net_of st)\<lparr>peer := (\<lambda>x.
      if x \<in> set as \<and> x \<noteq> a \<and> peer (net_of st) x = Some a then None else peer (net_of st) x)\<rparr> \<and>
      rt st' = rt st \<and> domains st' = domains st \<and> ctrl_iface st' = ctrl_iface st"
  using assms
proof (induction as arbitrary: st)
  case Nil
  then show ?case by (simp add: net_of_def)
next
  case (Cons x as)
  then obtain i where i: "ifaces st x = Some i" by auto
  define st1 where "st1 = (if x \<noteq> a \<and> i_partner i = Some a
    then st\<lparr>ifaces := (ifaces st)(x \<mapsto> i\<lparr>i_partner := None\<rparr>)\<rparr> else st)"
  have "do_forget (x # as) a st = do_forget as a st1"
    using i by (simp add: set_iface_def st1_def)
  moreover have "net_of st1 = (net_of st)\<lparr>peer := (\<lambda>y. if y = x \<and> x \<noteq> a \<and> peer (net_of st) x = Some a
      then None else peer (net_of st) y)\<rparr>"
    using i by (auto simp: net_of_def fun_eq_iff st1_def)
  moreover have "\<forall>y \<in> set as. ifaces st1 y \<noteq> None" using Cons.prems by (auto simp: st1_def)
  moreover have "rt st1 = rt st" "domains st1 = domains st" "ctrl_iface st1 = ctrl_iface st"
    by (simp_all add: st1_def)
  ultimately show ?case
    using Cons.IH [of st1] by (auto simp: fun_eq_iff intro!: net.equality)
qed

lemma forget_all_net:
  assumes "\<forall>d \<in> set ds. \<forall>x \<in> set (dom_ifaces d). ifaces st x \<noteq> None"
  shows "\<exists>st'. forget_all ds a st = Inr st' \<and> net_of st' = (net_of st)\<lparr>peer := (\<lambda>x.
      if x \<in> (\<Union>d \<in> set ds. set (dom_ifaces d)) \<and> x \<noteq> a \<and> peer (net_of st) x = Some a
      then None else peer (net_of st) x)\<rparr> \<and>
      rt st' = rt st \<and> domains st' = domains st \<and> ctrl_iface st' = ctrl_iface st"
  using assms
proof (induction ds arbitrary: st)
  case Nil
  then show ?case by (simp add: net_of_def)
next
  case (Cons d ds)
  from do_forget_net [of "dom_ifaces d" st a] Cons.prems obtain st1 where
    st1: "do_forget (dom_ifaces d) a st = Inr st1" "net_of st1 = (net_of st)\<lparr>peer := (\<lambda>x.
      if x \<in> set (dom_ifaces d) \<and> x \<noteq> a \<and> peer (net_of st) x = Some a then None else peer (net_of st) x)\<rparr>"
      "rt st1 = rt st" "domains st1 = domains st" "ctrl_iface st1 = ctrl_iface st" by auto
  from st1(2) have "nodes (net_of st1) = nodes (net_of st)" by simp
  then have "Map.dom (ifaces st1) = Map.dom (ifaces st)" by (simp add: net_of_simps)
  with Cons.prems have "\<forall>d \<in> set ds. \<forall>x \<in> set (dom_ifaces d). ifaces st1 x \<noteq> None" by auto
  from Cons.IH [OF this] st1 show ?case
    by (auto simp: fun_eq_iff intro!: net.equality)
qed


lemma iface_forget_net:
  assumes peers: "peers_ok (net_of st)" and a: "ifaces st a = Some i"
    and listed: "\<And>x. ifaces st x \<noteq> None \<Longrightarrow> x \<noteq> a \<Longrightarrow> x \<in> (\<Union>d \<in> set (domains st). set (dom_ifaces d))"
      "\<And>d x. d \<in> set (domains st) \<Longrightarrow> x \<in> set (dom_ifaces d) \<Longrightarrow> ifaces st x \<noteq> None"
  shows "\<exists>st'. iface_forget (Some a) st = Inr st' \<and> net_of st' = net_forget a (net_of st) \<and>
    rt st' = rt st \<and> domains st' = domains st \<and> ctrl_iface st' = ctrl_iface st"
proof (cases "i_managed i = 0")
  case True
  then have raw: "a \<notin> hub (net_of st)" using a by (simp add: net_of_simps)
  note peer = peers_okD [OF peers]
  show ?thesis
  proof (cases "i_partner i")
    case None
    then have "peer (net_of st) a = None" using a by (simp add: net_of_simps)
    then have "peer (net_of st) x \<noteq> Some a" for x using peer(5) [of x a] raw by auto
    with \<open>peer (net_of st) a = None\<close> have "net_forget a (net_of st) = net_of st"
      by (auto simp: net_forget_def fun_eq_iff intro!: net.equality)
    with True None a show ?thesis by (simp add: iface_forget_def)
  next
    case (Some p)
    then have p: "peer (net_of st) a = Some p" using a by (simp add: net_of_simps)
    then obtain q where q: "ifaces st p = Some q" "p \<noteq> a"
      using peer(2,3) [OF p] by (auto simp: net_of_simps)
    have only: "x = p" if "peer (net_of st) x = Some a" for x using peer(5) [OF that raw] p by simp
    define st1 where "st1 = st\<lparr>ifaces := (ifaces st)(p \<mapsto> q\<lparr>i_partner := None\<rparr>)\<rparr>"
    define st2 where "st2 = st1\<lparr>ifaces := (ifaces st1)(a \<mapsto> i\<lparr>i_partner := None\<rparr>)\<rparr>"
    have run: "iface_forget (Some a) st = Inr st2"
      using True Some a q by (simp add: iface_forget_def set_iface_def st1_def st2_def)
    have "set_iface p (\<lambda>i. i\<lparr>i_partner := None\<rparr>) st = Inr st1"
        "set_iface a (\<lambda>i. i\<lparr>i_partner := None\<rparr>) st1 = Inr st2"
      using a q by (simp_all add: set_iface_def st1_def st2_def)
    then have "net_of st2 = (net_of st)\<lparr>peer := (peer (net_of st))(p := None, a := None)\<rparr>"
      by (simp add: set_peer_net)
    also have "\<dots> = net_forget a (net_of st)"
    proof -
      have "peer (net_of st) p = None" if "peer (net_of st) p \<noteq> Some a"
      proof -
        have "p \<in> hub (net_of st)" using peer(5) [OF p] that by blast
        then show ?thesis using peer(4) [of p] by fastforce
      qed
      note p_none = this
      then have "((peer (net_of st))(p := None, a := None)) x =
          (if x = a \<or> peer (net_of st) x = Some a then None else peer (net_of st) x)" for x
      proof (cases "x = p")
        case True
        then show ?thesis using p_none q(2) by (cases "peer (net_of st) p = Some a") simp_all
      next
        case False
        then have "peer (net_of st) x \<noteq> Some a" using only by blast
        with False show ?thesis by simp
      qed
      then have "(peer (net_of st))(p := None, a := None) =
          (\<lambda>x. if x = a \<or> peer (net_of st) x = Some a then None else peer (net_of st) x)" by (rule ext)
      then show ?thesis by (simp only: net_forget_def)
    qed
    finally show ?thesis using run by (simp add: st1_def st2_def)
  qed
next
  case False
  then have "a \<in> hub (net_of st)" using a by (simp add: net_of_simps)
  then have none: "peer (net_of st) a = None" using peers_okD(4) [OF peers, of a] by fastforce
  have "\<forall>d \<in> set (domains st). \<forall>x \<in> set (dom_ifaces d). ifaces st x \<noteq> None" using listed(2) by blast
  from forget_all_net [OF this, of a] obtain st' where st': "forget_all (domains st) a st = Inr st'"
      "net_of st' = (net_of st)\<lparr>peer := (\<lambda>x. if x \<in> (\<Union>d \<in> set (domains st). set (dom_ifaces d)) \<and> x \<noteq> a \<and>
        peer (net_of st) x = Some a then None else peer (net_of st) x)\<rparr>"
      "rt st' = rt st" "domains st' = domains st" "ctrl_iface st' = ctrl_iface st" by blast
  have "x \<in> (\<Union>d \<in> set (domains st). set (dom_ifaces d))" if "peer (net_of st) x = Some a" "x \<noteq> a" for x
    using listed(1) [of x] that peers_okD(1) [OF peers that(1)] by (auto simp: net_of_simps)
  then have "(if x \<in> (\<Union>d \<in> set (domains st). set (dom_ifaces d)) \<and> x \<noteq> a \<and> peer (net_of st) x = Some a
      then None else peer (net_of st) x) =
      (if x = a \<or> peer (net_of st) x = Some a then None else peer (net_of st) x)" for x
    using none by (cases "x = a"; cases "peer (net_of st) x = Some a") simp_all
  then have "net_of st' = net_forget a (net_of st)"
    by (simp only: st'(2) net_forget_def)
  with st' False a show ?thesis by (simp add: iface_forget_def)
qed

lemma net_listed:
  assumes "net_ok (net_of st)"
  shows "ifaces st x \<noteq> None \<Longrightarrow> x \<in> (\<Union>d \<in> set (domains st). set (dom_ifaces d))"
    and "d \<in> set (domains st) \<Longrightarrow> x \<in> set (dom_ifaces d) \<Longrightarrow> ifaces st x \<noteq> None"
proof -
  note lists = lists_okD [OF net_okD(4) [OF assms]]
  show "x \<in> (\<Union>d \<in> set (domains st). set (dom_ifaces d))" if "ifaces st x \<noteq> None"
  proof -
    have "x \<in> nodes (net_of st)" using that by (auto simp: net_of_simps)
    from lists(1) [OF this] obtain k where "k < length (domains st)" "x \<in> set (dom_ifaces (domains st ! k))"
      by (auto simp: net_of_simps)
    then show ?thesis by (metis UN_I nth_mem)
  qed
  show "ifaces st x \<noteq> None" if d: "d \<in> set (domains st)" "x \<in> set (dom_ifaces d)"
  proof -
    from d(1) obtain k where "k < length (domains st)" "domains st ! k = d" by (auto simp: in_set_conv_nth)
    with lists(3) [of k x] d(2) show ?thesis by (auto simp: net_of_simps)
  qed
qed

lemma close_rt_net: "close_rt X d st = Inr st' \<Longrightarrow> \<exists>r. st' = st\<lparr>rt := r\<rparr>"
  by (auto simp: close_rt_def and_then_eq_Inr split: if_splits intro: exI [of _ "rt st"])

lemma upd_domain_simps [simp]:
  "ifaces (upd_domain k f st) = ifaces st" "rt (upd_domain k f st) = rt st"
  "next_iface (upd_domain k f st) = next_iface st" "ctrl_iface (upd_domain k f st) = ctrl_iface st"
  by (simp_all add: upd_domain_def)

lemma upd_domain_ids [simp]: "map dom_id (domains (upd_domain k f st)) = map dom_id (domains st)"
proof (rule nth_equalityI)
  fix j assume "j < length (map dom_id (domains (upd_domain k f st)))"
  then show "map dom_id (domains (upd_domain k f st)) ! j = map dom_id (domains st) ! j"
    by (cases "j = k") (simp_all add: upd_domain_def)
qed (simp add: upd_domain_def)

lemma upd_domain_net: "k < length (domains st) \<Longrightarrow>
    net_of (upd_domain k f st) = (net_of st)\<lparr>members := (members (net_of st))[k := f (members (net_of st) ! k)]\<rparr>"
  using upd_domain_ids [of k f st]
  by (simp add: net_of_def upd_domain_def map_update)


lemma erase_net: "net_of (st\<lparr>ifaces := (ifaces st)(a := None)\<rparr>) = (net_of st)\<lparr>nodes := nodes (net_of st) - {a},
    hub := hub (net_of st) - {a}, peer := (peer (net_of st))(a := None), home := (home (net_of st))(a := None),
    called := (called (net_of st))(a := None)\<rparr>"
  by (auto simp: net_of_def fun_eq_iff)

text \<open>Freeing an interface fails only where closing its endpoints does.\<close>

lemma iface_free_net:
  assumes ok: "net_ok (net_of st)" and a: "ifaces st a = Some i"
    and closed: "close_rt X (i_id i) st = Inr st1" "close_rt X (i_ep i) st1 = Inr st2"
  shows "\<exists>st'. iface_free X (Some a) st = Inr st' \<and> net_of st' = net_remove a (net_of st) \<and>
    rt st' = rt st2 \<and> ctrl_iface st' = ctrl_iface st \<and> map dom_id (domains st') = map dom_id (domains st)"
proof -
  note lists = lists_okD [OF net_okD(4) [OF ok]]
  from closed obtain r where st2: "st2 = st\<lparr>rt := r\<rparr>" by (auto dest!: close_rt_net)
  have "a \<in> nodes (net_of st)" using a by (auto simp: net_of_simps)
  from lists(1) [OF this] obtain k where k: "k < length (domains st)" "i_domain i = Some k"
    using a by (auto simp: net_of_simps)
  let ?ms = "members (net_of st)"
  define st3 where "st3 = upd_domain k (remove1 a) st2"
  have net3: "net_of st3 = (net_of st)\<lparr>members := ?ms[k := remove1 a (?ms ! k)]\<rparr>"
    using k by (simp add: st3_def st2 upd_domain_net)
  have mem3: "map dom_ifaces (domains st3) = ?ms[k := remove1 a (?ms ! k)]"
    using arg_cong [OF net3, of members] by (simp add: net_of_simps(5))
  have same: "ifaces st3 = ifaces st" "rt st3 = rt st2" "ctrl_iface st3 = ctrl_iface st"
      "map dom_id (domains st3) = map dom_id (domains st)"
    by (simp_all add: st3_def st2)
  have "set (dom_ifaces d) \<subseteq> (\<Union>ms \<in> set ?ms. set ms)" if "d \<in> set (domains st3)" for d
  proof -
    have "dom_ifaces d \<in> set (map dom_ifaces (domains st3))" using that by simp
    then have "dom_ifaces d \<in> set (?ms[k := remove1 a (?ms ! k)])" by (simp only: mem3)
    then have "dom_ifaces d \<in> insert (remove1 a (?ms ! k)) (set ?ms)"
      by (rule set_mp [OF set_update_subset_insert])
    then show ?thesis
    proof
      assume "dom_ifaces d = remove1 a (?ms ! k)"
      then have "set (dom_ifaces d) \<subseteq> set (?ms ! k)" by (simp only: set_remove1_subset)
      moreover have "?ms ! k \<in> set ?ms" using k by (simp add: net_of_simps)
      ultimately show ?thesis by blast
    qed blast
  qed
  then have listed2: "ifaces st3 x \<noteq> None" if "d \<in> set (domains st3)" "x \<in> set (dom_ifaces d)" for d x
    using that net_listed(2) [OF ok, of _ x] by (fastforce simp: same net_of_simps(5))
  have listed1: "x \<in> (\<Union>d \<in> set (domains st3). set (dom_ifaces d))" if "ifaces st3 x \<noteq> None" "x \<noteq> a" for x
  proof -
    have "x \<in> nodes (net_of st)" using that(1) by (auto simp: same net_of_simps)
    from lists(1) [OF this] obtain j where j: "j < length ?ms" "x \<in> set (?ms ! j)" by blast
    have "length (domains st3) = length ?ms" using arg_cong [OF mem3, of length] by simp
    then have len: "j < length (domains st3)" using j(1) by simp
    have "x \<in> set (map dom_ifaces (domains st3) ! j)"
      unfolding mem3 using that(2) j by (cases "j = k") simp_all
    then have "x \<in> set (dom_ifaces (domains st3 ! j))" using len by simp
    with nth_mem [OF len] show ?thesis by (rule UN_I)
  qed
  have peers3: "peers_ok (net_of st3)" using net_okD(3) [OF ok] by (simp add: net3 peers_ok_members)
  have a3: "ifaces st3 a = Some i" using a by (simp add: same)
  have "\<exists>st'. iface_forget (Some a) st3 = Inr st' \<and> net_of st' = net_forget a (net_of st3) \<and>
      rt st' = rt st3 \<and> domains st' = domains st3 \<and> ctrl_iface st' = ctrl_iface st3"
    by (rule iface_forget_net [OF peers3 a3]) (fact listed1, fact listed2)
  then obtain st4 where
    st4: "iface_forget (Some a) st3 = Inr st4" "net_of st4 = net_forget a (net_of st3)"
      "rt st4 = rt st3" "domains st4 = domains st3" "ctrl_iface st4 = ctrl_iface st3" by blast
  let ?st' = "st4\<lparr>ifaces := (ifaces st4)(a := None)\<rparr>"
  have "iface_free X (Some a) st = Inr ?st'"
    using a closed k st4(1) by (simp add: iface_free_def st3_def)
  moreover have "net_of ?st' = net_remove a (net_of st)"
    using k a unfolding erase_net st4(2) net3
    by (auto simp: net_remove_def net_forget_def fun_eq_iff net_of_simps(4) intro!: net.equality)
  ultimately show ?thesis using st4(3-5) same by auto
qed

lemma iface_free_Inr:
  assumes "iface_free X (Some a) st = Inr st'"
  obtains i st1 st2 where "ifaces st a = Some i" "close_rt X (i_id i) st = Inr st1" "close_rt X (i_ep i) st1 = Inr st2"
  using assms by (auto simp: iface_free_def and_then_eq_Inr deref_eq_Inr)

lemma iface_free_removes:
  assumes "net_ok (net_of st)" "iface_free X (Some a) st = Inr st'"
  shows "net_of st' = net_remove a (net_of st)" "a \<in> nodes (net_of st)"
proof -
  from assms(2) obtain i st1 st2 where
    a: "ifaces st a = Some i" "close_rt X (i_id i) st = Inr st1" "close_rt X (i_ep i) st1 = Inr st2"
    by (rule iface_free_Inr)
  from iface_free_net [OF assms(1) a] assms(2) show "net_of st' = net_remove a (net_of st)" by auto
  show "a \<in> nodes (net_of st)" using a by (auto simp: net_of_simps)
qed

lemma iface_free_step:
  assumes "net_ok (net_of st)" "iface_free X iface st = Inr st'"
  shows "net_step\<^sup>*\<^sup>* (net_of st) (net_of st')"
proof (cases iface)
  case None
  with assms show ?thesis by (simp add: iface_free_def)
next
  case (Some a)
  from iface_free_removes [OF assms(1) assms(2) [unfolded Some]] show ?thesis
    by (auto intro: net_step.Remove)
qed


lemma iface_new_net:
  assumes ok: "net_ok (net_of st)" and new: "iface_new X k st = (Some a, st')" and k: "k < length (domains st)"
  shows "net_of st' = net_add k False [] (net_of st)" "a = next_iface st" "ctrl_iface st' = ctrl_iface st"
    "ifaces st a = None" "\<exists>i. ifaces st' a = Some i \<and> i_managed i = 0"
proof -
  from new have a: "a = next_iface st" and
    st': "st' = upd_domain k (\<lambda>as. as @ [a]) (st\<lparr>ifaces := (ifaces st)(a \<mapsto> \<lparr>i_id = 0, i_ep = 0,
      i_name = replicate 16 NUL, i_uri = replicate 128 NUL, i_bus = 0, i_domain = Some k, i_managed = 0,
      i_handler = None, i_partner = None, i_pending = []\<rparr>), next_iface := a + 1\<rparr>)"
    by (auto simp: iface_new_def Let_def split: if_splits)
  show "a = next_iface st" by (fact a)
  show "ctrl_iface st' = ctrl_iface st" "\<exists>i. ifaces st' a = Some i \<and> i_managed i = 0"
    by (simp_all add: st')
  show free: "ifaces st a = None"
    using net_okD(1) [OF ok, of a] a by (auto simp: net_of_simps)
  have "c_string (replicate 16 NUL) = []" by code_simp
  then show "net_of st' = net_add k False [] (net_of st)"
    using k free a unfolding st'
    by (subst upd_domain_net) (auto simp: net_add_def net_of_def fun_eq_iff)
qed

lemma open_rt_net: "open_rt X uri st = Inr (r, st') \<Longrightarrow> \<exists>s. st' = st\<lparr>rt := s\<rparr>"
  by (auto simp: open_rt_def and_then_eq_Inr)

lemma c_string_append: "NUL \<notin> set s \<Longrightarrow> c_string (s @ NUL # t) = s"
  by (induction s) (auto simp: c_string_def)

lemma copied_name:
  assumes "read_str buf = Inr n" "strcpy arr n = Inr r"
  shows "c_string r = c_string buf"
proof -
  have "NUL \<notin> set (c_string buf)"
    using set_takeWhileD [of NUL "\<lambda>c. c \<noteq> NUL" buf] by (auto simp: c_string_def)
  with assms show ?thesis by (auto simp: read_str_def strcpy_def c_string_append split: if_splits)
qed

lemma iface_build_net:
  assumes "iface_build X a name path bus managed st = Inr (r, st')"
  shows "net_of st' = (net_of st)\<lparr>hub := (if managed \<noteq> 0 then insert a (hub (net_of st)) else hub (net_of st) - {a}),
      called := (called (net_of st))(a \<mapsto> c_string name)\<rparr>"
    "\<exists>i. ifaces st' a = Some i" "ctrl_iface st' = ctrl_iface st"
proof -
  from assms obtain i n iname q iuri z1 z2 st4 where i: "ifaces st a = Some i"
    and name: "read_str name = Inr n" "strcpy (i_name i) n = Inr iname"
    and z1: "open_rt X n st = Inr z1" and z2: "open_rt X (take 127 (bus_to_prefix bus @ q)) (snd z1) = Inr z2"
    and st4: "set_iface a (\<lambda>i. i\<lparr>i_bus := bus, i_managed := managed, i_name := iname, i_uri := iuri,
           i_id := fst z1, i_ep := fst z2,
           i_handler := Some (if managed \<noteq> 0 then Managed_Handler else Raw_Handler)\<rparr>)
         ((snd z2)\<lparr>rt := snd (rteipc_xfer_setcb n (Some 0) a (rt (snd z2)))\<rparr>) = Inr st4"
    and st': "(if fst z1 < 0 \<or> fst z2 < 0 then Inr (-1, st4)
       else and_then (rteipc_bind (levent X) (fst z1) (fst z2) (rt st4)) (\<lambda>z.
         Inr (if fst z < 0 then -1 else 0, st4\<lparr>rt := snd z\<rparr>))) = Inr (r, st')"
    unfolding iface_build_def Let_def and_then_eq_Inr deref_eq_Inr case_prod_beta option.inject by blast
  from open_rt_net [of X n st "fst z1" "snd z1"] z1 obtain r1 where "snd z1 = st\<lparr>rt := r1\<rparr>" by auto
  moreover have "open_rt X (take 127 (bus_to_prefix bus @ q)) (snd z1) = Inr (fst z2, snd z2)" using z2 by simp
  note open_rt_net [OF this]
  ultimately obtain r2 where r2: "snd z2 = st\<lparr>rt := r2\<rparr>" by auto
  from st' have "\<exists>g. st' = st4\<lparr>rt := g\<rparr>"
    by (auto simp: and_then_eq_Inr split: if_splits intro: exI [of _ "rt st'"])
  with st4 r2 i have cont: "\<exists>f g. st' = st\<lparr>ifaces := (ifaces st)(a \<mapsto> f), rt := g\<rparr> \<and>
      i_managed f = managed \<and> i_domain f = i_domain i \<and> i_partner f = i_partner i \<and> c_string (i_name f) = c_string name"
    using copied_name [OF name] by (auto simp: set_iface_eq_Inr)
  from cont show "\<exists>i. ifaces st' a = Some i" "ctrl_iface st' = ctrl_iface st" by auto
  from cont i show "net_of st' = (net_of st)\<lparr>hub := (if managed \<noteq> 0
      then insert a (hub (net_of st)) else hub (net_of st) - {a}), called := (called (net_of st))(a \<mapsto> c_string name)\<rparr>"
    by (auto simp: net_of_def fun_eq_iff split: if_splits)
qed


subsection \<open>Every command is a run of the net\<close>

text \<open>A packet may be routed when both interfaces are free, or already bound to each other.\<close>

definition may_run :: "rtemgr_data \<Rightarrow> daemon \<Rightarrow> bool" where
  "may_run d st \<longleftrightarrow>
     (action (cmd d) = RTECMD_ROUTE \<longrightarrow>
       (\<forall>a b. lookup (interfaces d ! 0) st = Inr (Some a) \<longrightarrow> lookup (interfaces d ! 1) st = Inr (Some b) \<longrightarrow>
         may_route a b (net_of st) \<and> may_route b a (net_of st)))"

lemma domain_lookup_less:
  assumes "domain_lookup_by_id key st = Some k"
  shows "k < length (domains st)"
proof -
  from assms obtain b where "find (\<lambda>(n, d). dom_id d = key) (enumerate 0 (domains st)) = Some (k, b)"
    by (auto simp: domain_lookup_by_id_def)
  then have "(k, b) \<in> set (enumerate 0 (domains st))" by (metis find_Some_iff nth_mem)
  then show ?thesis by (simp add: in_set_enumerate_eq)
qed

lemma domain_of_lookup: "domain_of (net_of st) key = domain_lookup_by_id key st"
proof -
  have "map_option fst (find (\<lambda>(n, d). dom_id d = key) (enumerate m ds)) =
      (if key \<in> set (map dom_id ds) then Some (m + length (takeWhile (\<lambda>i. i \<noteq> key) (map dom_id ds))) else None)"
    for m ds
  proof (induction ds arbitrary: m)
    case (Cons d ds)
    show ?case using Cons [of "Suc m"] by (auto split: if_splits)
  qed simp
  from this [of 0 "domains st"] show ?thesis
    by (simp add: domain_of_def domain_lookup_by_id_def net_of_simps)
qed

lemma find_name_named:
  "find_name h name as = Inr x \<Longrightarrow>
     find (\<lambda>a. map_option (\<lambda>i. c_string (i_name i)) (h a) = Some (c_string name)) as = x"
  by (induction as) (auto simp: and_then_eq_Inr deref_eq_Inr read_str_def split: if_splits)

lemma lookup_named: "lookup f st = Inr x \<Longrightarrow> named (net_of st) f = x"
  by (auto simp: lookup_def named_def domain_of_lookup iface_lookup_by_name_def net_of_simps
      domain_lookup_less dest!: find_name_named split: option.splits)

lemma open_net:
  assumes ok: "net_ok (net_of st)" and run: "do_rtecmd_open X d st = Inr (r, d', st')"
  shows "net_open X d r (net_of st) (net_of st')"
proof -
  let ?f = "hd (interfaces d)"
  consider "interfaces d = [] \<or> nr_intf d < 1" | "interfaces d \<noteq> []" "nr_intf d \<ge> 1" "domain_lookup_by_id (if_domain ?f) st = None"
    | k where "interfaces d \<noteq> []" "nr_intf d \<ge> 1" "domain_lookup_by_id (if_domain ?f) st = Some k"
    by fastforce
  then show ?thesis
  proof cases
    case 3
    then have net: "net_open X d r (net_of st) (net_of st') \<longleftrightarrow> (if \<not> mem X 216 then r = -1 \<and> net_of st' = net_of st
        else (let n1 = net_add k (if_managed ?f \<noteq> 0) (c_string (if_name ?f)) (net_of st) in
          r = 0 \<and> net_of st' = n1 \<or> r = -1 \<and> net_of st' = net_remove (fresh (net_of st)) n1))"
      by (simp add: net_open_def domain_of_lookup Let_def)
    have open_run: "do_rtecmd_open X d st = (case iface_new X k st of
        (None, st1) \<Rightarrow> Inr (-1, d, st1)
      | (Some a, st1) \<Rightarrow> and_then (iface_build X a (if_name ?f) (if_path ?f) (if_bus ?f) (if_managed ?f) st1) (\<lambda>(r, st2).
          if r \<noteq> 0 then and_then (iface_free X (Some a) st2) (\<lambda>st3. Inr (-1, d, st3)) else Inr (0, d, st2)))"
      using 3 by (simp add: do_rtecmd_open_def Let_def)
    show ?thesis
    proof (cases "mem X 216")
      case False
      then have "iface_new X k st = (None, st)" by (simp add: iface_new_def)
      with open_run run have "r = -1" "st' = st" by simp_all
      with False show ?thesis unfolding net by simp
    next
      case True
      then obtain a st1 where new1: "iface_new X k st = (Some a, st1)" by (auto simp: iface_new_def Let_def)
      note new = iface_new_net [OF ok new1 domain_lookup_less [OF 3(3)]]
      from run open_run new1 obtain r' st2 where
        build: "iface_build X a (if_name ?f) (if_path ?f) (if_bus ?f) (if_managed ?f) st1 = Inr (r', st2)"
        and st': "(if r' \<noteq> 0 then and_then (iface_free X (Some a) st2) (\<lambda>st3. Inr (-1, d, st3))
                   else Inr (0, d, st2)) = Inr (r, d', st')"
        by (auto simp: and_then_eq_Inr)
      have "fresh (net_of st) \<notin> hub (net_of st)" using new(2,4) by (simp add: net_of_simps)
      then have net2: "net_of st2 = net_add k (if_managed ?f \<noteq> 0) (c_string (if_name ?f)) (net_of st)"
        using iface_build_net(1) [OF build] new(1,2)
        by (auto simp: net_add_def net_of_simps(6) intro!: net.equality)
      have ok2: "net_ok (net_of st2)"
        unfolding net2 using domain_lookup_less [OF 3(3)]
        by (intro net_add_ok [OF ok]) (simp add: net_of_simps)
      show ?thesis
      proof (cases "r' = 0")
        case True
        with st' have "r = 0" "st' = st2" by simp_all
        with \<open>mem X 216\<close> net2 show ?thesis unfolding net by simp
      next
        case False
        with st' have free: "iface_free X (Some a) st2 = Inr st'" "r = -1" by (auto simp: and_then_eq_Inr)
        then have "net_of st' = net_remove a (net_of st2)" using iface_free_removes [OF ok2] by simp
        with free(2) \<open>mem X 216\<close> net2 new(2) show ?thesis unfolding net by (simp add: net_of_simps(6))
      qed
    qed
  qed (use run in \<open>auto simp: do_rtecmd_open_def net_open_def domain_of_lookup Let_def\<close>)
qed

lemma open_step:
  assumes ok: "net_ok (net_of st)" and run: "do_rtecmd_open X d st = Inr (r, d', st')"
  shows "net_step\<^sup>*\<^sup>* (net_of st) (net_of st')"
proof -
  have two: "net_step\<^sup>*\<^sup>* n (net_remove (fresh n) (net_add k m s n))" if "k < length (members n)" for k m s n
  proof -
    have "net_step n (net_add k m s n)" using that by (rule net_step.Add)
    moreover have "net_step (net_add k m s n) (net_remove (fresh n) (net_add k m s n))"
      by (rule net_step.Remove) (simp add: net_add_def)
    ultimately show ?thesis by (rule rtranclp.rtrancl_into_rtrancl [OF r_into_rtranclp])
  qed
  have one: "net_step\<^sup>*\<^sup>* n (net_add k m s n)" if "k < length (members n)" for k m s n
    using that by (blast intro: net_step.Add)
  show ?thesis
    using open_net [OF ok run] one two domain_lookup_less [of "if_domain (hd (interfaces d))" st]
    by (auto simp: net_open_def domain_of_lookup Let_def net_of_simps(5)
        split: if_splits option.splits)
qed

lemma close_each_step:
  "close_each X n fs st = Inr st' \<Longrightarrow> net_ok (net_of st) \<Longrightarrow>
     net_step\<^sup>*\<^sup>* (net_of st) (net_of st') \<and> net_of st' = net_close (take n fs) (net_of st)"
proof (induction X n fs st rule: close_each.induct)
  case (3 X n f fs st)
  then obtain iface st1 where l: "lookup f st = Inr iface" and free: "iface_free X iface st = Inr st1"
    and rest: "close_each X n fs st1 = Inr st'"
    by (auto simp: and_then_eq_Inr)
  note first = iface_free_step [OF 3(3) free]
  from 3(1) [OF l free rest net_steps_ok [OF first 3(3)]]
  have rest: "net_step\<^sup>*\<^sup>* (net_of st1) (net_of st')" and close: "net_of st' = net_close (take n fs) (net_of st1)"
    by blast+
  have "net_of st1 = (case named (net_of st) f of None \<Rightarrow> net_of st | Some a \<Rightarrow> net_remove a (net_of st))"
    using free iface_free_removes [OF 3(3)] by (auto simp: lookup_named [OF l] iface_free_def split: option.split)
  with close have "net_of st' = net_close (take (Suc n) (f # fs)) (net_of st)" by simp
  with rtranclp_trans [OF first rest] show ?case by blast
qed auto

lemma route_net_run:
  assumes run: "do_rtecmd_route X Y d st = Inr (r, d', st')"
  shows "net_routed (if nr_intf d = 2 then take 2 (interfaces d) else []) r (net_of st) (net_of st')"
    and "st' \<noteq> st \<Longrightarrow> \<exists>a b. lookup (interfaces d ! 0) st = Inr (Some a) \<and> lookup (interfaces d ! 1) st = Inr (Some b) \<and>
      a \<noteq> b \<and> net_of st' = net_route a b (net_of st)"
proof -
  have both: "net_routed (if nr_intf d = 2 then take 2 (interfaces d) else []) r (net_of st) (net_of st') \<and>
      (st' \<noteq> st \<longrightarrow> (\<exists>a b. lookup (interfaces d ! 0) st = Inr (Some a) \<and> lookup (interfaces d ! 1) st = Inr (Some b) \<and>
        a \<noteq> b \<and> net_of st' = net_route a b (net_of st)))"
  proof (cases "nr_intf d = 2 \<and> length (interfaces d) \<ge> 2")
    case True
    then obtain f g fs where fs: "interfaces d = f # g # fs" by (auto simp: numeral_2_eq_2 Suc_le_length_iff)
    with run True obtain x y where xy: "lookup f st = Inr x" "lookup g st = Inr y"
      and cont: "(case (x, y) of
           (Some a, Some b) \<Rightarrow>
             if a = b then Inr (-1, d, st)
             else
               and_then (set_route X Y a b st) (\<lambda>st1.
               and_then (set_route X Y b a st1) (\<lambda>st2. Inr (0, d, st2)))
         | _ \<Rightarrow> Inr (-1, d, st)) = Inr (r, d', st')"
      unfolding do_rtecmd_route_def by (simp add: and_then_eq_Inr) blast
    note who = lookup_named [OF xy(1)] lookup_named [OF xy(2)]
    show ?thesis
    proof (cases "\<exists>a b. x = Some a \<and> y = Some b \<and> a \<noteq> b")
      case True
      then obtain a b where ab: "x = Some a" "y = Some b" "a \<noteq> b" by blast
      with cont obtain st1 where "set_route X Y a b st = Inr st1" "set_route X Y b a st1 = Inr st'" "r = 0"
        by (auto simp: and_then_eq_Inr)
      with route_net [OF this(1,2) ab(3)] who xy ab fs \<open>nr_intf d = 2 \<and> _\<close> show ?thesis by (simp add: numeral_2_eq_2)
    next
      case False
      with cont have "st' = st" "r = -1" by (auto split: option.splits if_splits)
      with False who fs \<open>nr_intf d = 2 \<and> _\<close> show ?thesis by (auto simp: numeral_2_eq_2 split: option.split)
    qed
  qed (use run in \<open>auto simp: do_rtecmd_route_def split: if_splits\<close>)
  then show "net_routed (if nr_intf d = 2 then take 2 (interfaces d) else []) r (net_of st) (net_of st')" ..
  from both show "st' \<noteq> st \<Longrightarrow> \<exists>a b. lookup (interfaces d ! 0) st = Inr (Some a) \<and>
      lookup (interfaces d ! 1) st = Inr (Some b) \<and> a \<noteq> b \<and> net_of st' = net_route a b (net_of st)" by blast
qed

lemma route_step:
  assumes run: "do_rtecmd_route X Y d st = Inr (r, d', st')"
    and may: "may_run (d\<lparr>cmd := (cmd d)\<lparr>action := RTECMD_ROUTE\<rparr>\<rparr>) st"
  shows "net_step\<^sup>*\<^sup>* (net_of st) (net_of st')"
proof (cases "st' = st")
  case False
  with route_net_run(2) [OF run] obtain a b where
    look: "lookup (interfaces d ! 0) st = Inr (Some a)" "lookup (interfaces d ! 1) st = Inr (Some b)"
    and ab: "a \<noteq> b" "net_of st' = net_route a b (net_of st)" by blast
  have "net_step (net_of st) (net_route a b (net_of st))"
    using look may ab(1) by (intro net_step.Route lookup_live) (auto simp: may_run_def)
  with ab(2) show ?thesis by simp
qed simp

lemma forget_step:
  assumes ok: "net_ok (net_of st)" and run: "do_rtecmd_forget d st = Inr (r, d', st')"
  shows "net_step\<^sup>*\<^sup>* (net_of st) (net_of st') \<and> net_forgot (hd (interfaces d)) r (net_of st) (net_of st')"
proof -
  from run obtain iface where look: "lookup (hd (interfaces d)) st = Inr iface"
    and cont: "(case iface of None \<Rightarrow> Inr (-1, d, st)
      | Some a \<Rightarrow> and_then (iface_forget (Some a) st) (\<lambda>st1. Inr (0, d, st1))) = Inr (r, d', st')"
    by (auto simp: do_rtecmd_forget_def and_then_eq_Inr split: if_splits)
  note who = lookup_named [OF look]
  show ?thesis
  proof (cases iface)
    case None
    with cont who show ?thesis by (simp add: net_forgot_def)
  next
    case (Some a)
    with cont have forget: "iface_forget (Some a) st = Inr st'" "r = 0" by (auto simp: and_then_eq_Inr)
    note look = look [unfolded Some]
    from lookup_live [OF look] obtain i where a: "ifaces st a = Some i" by (auto simp: net_of_simps)
    have "\<exists>st'. iface_forget (Some a) st = Inr st' \<and> net_of st' = net_forget a (net_of st) \<and>
        rt st' = rt st \<and> domains st' = domains st \<and> ctrl_iface st' = ctrl_iface st"
      by (rule iface_forget_net [OF net_okD(3) [OF ok] a]) (use net_listed [OF ok] in blast)+
    with forget have "net_of st' = net_forget a (net_of st)" by auto
    with net_step.Forget [OF lookup_live [OF look]] forget(2) who Some show ?thesis
      by (auto simp: net_forgot_def)
  qed
qed

lemma cat_net:
  assumes run: "do_rtecmd_cat X Y F d st = Inr (r, d', st')"
  shows "net_of st' = net_of st"
proof (cases "st' = st")
  case False
  with run obtain iface where look: "lookup (hd (interfaces d)) st = Inr iface"
    by (cases "lookup (hd (interfaces d)) st") (auto simp: do_rtecmd_cat_def split: if_splits)
  with run False obtain a where a: "iface = Some a"
    by (cases iface) (auto simp: do_rtecmd_cat_def split: if_splits)
  with run False look obtain i where i: "ifaces st a = Some i" "i_partner i = None"
    by (cases "ifaces st a") (auto simp: do_rtecmd_cat_def split: if_splits)
  with run look a obtain out rest where out: "drain_loop (mem X) (cat_message F (i_bus i)) [] (i_pending i) = Inr (out, rest)"
    by (cases "drain_loop (mem X) (cat_message F (i_bus i)) [] (i_pending i)")
      (auto simp: do_rtecmd_cat_def split: if_splits)
  let ?st1 = "st\<lparr>ifaces := (ifaces st)(a \<mapsto> i\<lparr>i_pending := rest\<rparr>)\<rparr>"
  have "st' = ?st1"
    using run look a i out by (simp add: do_rtecmd_cat_def set_iface_def Let_def split: if_splits)
  moreover have "net_of ?st1 = net_of st"
    by (rule set_iface_net [of a "\<lambda>i. i\<lparr>i_pending := rest\<rparr>"]) (simp_all add: set_iface_def i)
  ultimately show ?thesis by simp
qed simp


lemma run_command_cases:
  assumes "run_command X Y F len msg d st = Inr (r, d', st')"
  obtains "action (cmd d) = RTECMD_OPEN" "do_rtecmd_open X d st = Inr (r, d', st')"
    | "action (cmd d) = RTECMD_CLOSE" "do_rtecmd_close X d st = Inr (r, d', st')"
    | "action (cmd d) = RTECMD_ROUTE" "do_rtecmd_route X Y d st = Inr (r, d', st')"
    | "action (cmd d) = RTECMD_FORGET" "do_rtecmd_forget d st = Inr (r, d', st')"
    | "action (cmd d) \<notin> {RTECMD_OPEN, RTECMD_CLOSE, RTECMD_ROUTE, RTECMD_FORGET}" "net_of st' = net_of st"
proof -
  have listed: "net_of st' = net_of st" if "do_rtecmd_list Y d st = Inr (r, d', st')"
    using that by (auto simp: do_rtecmd_list_def and_then_eq_Inr split: option.splits)
  have xfer: "net_of st' = net_of st"
    if "and_then (iface_managed_handler X Y (ctrl_iface st) len msg st) (\<lambda>st1. Inr (0, d, st1)) = Inr (r, d', st')"
    using that by (auto simp: and_then_eq_Inr intro: keepsD [OF managed_handler_keeps])
  consider "action (cmd d) = RTECMD_LIST" "do_rtecmd_list Y d st = Inr (r, d', st')"
    | "action (cmd d) = RTECMD_OPEN" | "action (cmd d) = RTECMD_CLOSE" | "action (cmd d) = RTECMD_ROUTE"
    | "action (cmd d) = RTECMD_FORGET"
    | "action (cmd d) = RTECMD_XFER"
      "and_then (iface_managed_handler X Y (ctrl_iface st) len msg st) (\<lambda>st1. Inr (0, d, st1)) = Inr (r, d', st')"
    | "action (cmd d) = RTECMD_CAT" "do_rtecmd_cat X Y F d st = Inr (r, d', st')"
    | "action (cmd d) \<notin> {RTECMD_OPEN, RTECMD_CLOSE, RTECMD_ROUTE, RTECMD_FORGET}" "st' = st"
    using assms by (auto simp: run_command_def split: if_splits)
  then show ?thesis
  proof cases
    case 1
    with that(5) listed show ?thesis by simp
  next
    case 6
    with that(5) xfer show ?thesis by simp
  next
    case 7
    with that(5) cat_net [OF 7(2)] show ?thesis by simp
  qed (use that assms in \<open>simp_all add: run_command_def\<close>)
qed

lemma close_step:
  assumes ok: "net_ok (net_of st)" and run: "do_rtecmd_close X d st = Inr (r, d', st')"
  shows "net_step\<^sup>*\<^sup>* (net_of st) (net_of st') \<and>
    (if interfaces d = [] \<or> nr_intf d < 1 then r = -1 \<and> net_of st' = net_of st
     else r = 0 \<and> net_of st' = net_close (take (nat (nr_intf d)) (interfaces d)) (net_of st))"
  using run close_each_step [OF _ ok] by (auto simp: do_rtecmd_close_def and_then_eq_Inr split: if_splits)

lemma command_net:
  assumes ok: "net_ok (net_of st)" and run: "run_command X Y F len msg d st = Inr (r, d', st')"
  shows "net_command X d r (net_of st) (net_of st')"
  using run
  by (cases rule: run_command_cases)
    (use open_net [OF ok] close_step [OF ok] route_net_run(1) forget_step [OF ok] in
      \<open>force simp: net_command_def split: if_splits\<close>)+

lemma command_steps:
  assumes ok: "net_ok (net_of st)" and may: "may_run d st" and run: "run_command X Y F len msg d st = Inr (r, d', st')"
  shows "net_step\<^sup>*\<^sup>* (net_of st) (net_of st')"
  using run
proof (cases rule: run_command_cases)
  case 3
  with route_step [OF 3(2)] may show ?thesis by (simp add: may_run_def)
qed (use open_step [OF ok] close_step [OF ok] forget_step [OF ok] in auto)

text \<open>
  What happens to the daemon: packets arrive at the control port (after decoding), data arrives
  at its other interfaces, and the endpoints do what they like to the library's state.
\<close>

datatype event = Packet nat "byte list" rtemgr_data | Arrival addr nat "byte list" | Endpoints rsys

fun daemon_step ::
  "outside \<Rightarrow> libs \<Rightarrow> (64 word \<Rightarrow> string option) \<Rightarrow> event \<Rightarrow> daemon \<Rightarrow> daemon outcome" where
  "daemon_step X Y F (Packet len msg d) st =
     and_then (run_command X Y F len msg d st) (\<lambda>(r, d', st'). Inr st')"
| "daemon_step X Y F (Arrival a len msg) st = run_handler X Y a len msg st"
| "daemon_step X Y F (Endpoints r) st = Inr (st\<lparr>rt := r\<rparr>)"

fun well_routed :: "event \<Rightarrow> daemon \<Rightarrow> bool" where
  "well_routed (Packet len msg d) st = may_run d st"
| "well_routed _ st = True"

inductive daemon_run ::
  "outside \<Rightarrow> libs \<Rightarrow> (64 word \<Rightarrow> string option) \<Rightarrow> daemon \<Rightarrow> event list \<Rightarrow> daemon \<Rightarrow> bool" for X Y F where
  Stop: "daemon_run X Y F st [] st"
| Step: "well_routed e st \<Longrightarrow> daemon_step X Y F e st = Inr st1 \<Longrightarrow> daemon_run X Y F st1 es st' \<Longrightarrow>
    daemon_run X Y F st (e # es) st'"

lemma daemon_step_net:
  assumes "net_ok (net_of st)" "well_routed e st" "daemon_step X Y F e st = Inr st'"
  shows "net_step\<^sup>*\<^sup>* (net_of st) (net_of st')"
  using assms by (cases e) (auto simp: and_then_eq_Inr run_handler_net intro: command_steps)

lemma daemon_run_net:
  "daemon_run X Y F st es st' \<Longrightarrow> net_ok (net_of st) \<Longrightarrow>
     net_step\<^sup>*\<^sup>* (net_of st) (net_of st') \<and> net_ok (net_of st')"
proof (induction rule: daemon_run.induct)
  case (Step e st st1 es st')
  note first = daemon_step_net [OF Step(5,1,2)]
  from Step.IH net_steps_ok [OF first Step(5)] first show ?case by (auto intro: rtranclp_trans)
qed auto

text \<open>
  The same history on nets: each event with the code that its packet is answered with (0 for
  what is not a packet) acts on the net by itself.
\<close>

fun net_event :: "outside \<Rightarrow> event \<Rightarrow> int \<Rightarrow> net \<Rightarrow> net \<Rightarrow> bool" where
  "net_event X (Packet len msg d) r n n' = net_command X d r n n'"
| "net_event X (Arrival a len msg) r n n' = (n' = n)"
| "net_event X (Endpoints s) r n n' = (n' = n)"

inductive net_history :: "outside \<Rightarrow> net \<Rightarrow> (event \<times> int) list \<Rightarrow> net \<Rightarrow> bool" for X where
  Start: "net_history X n [] n"
| Next: "net_event X e r n n1 \<Longrightarrow> net_history X n1 es n' \<Longrightarrow> net_history X n ((e, r) # es) n'"

fun answer ::
  "outside \<Rightarrow> libs \<Rightarrow> (64 word \<Rightarrow> string option) \<Rightarrow> event \<Rightarrow> daemon \<Rightarrow> int" where
  "answer X Y F (Packet len msg d) st = (case run_command X Y F len msg d st of Inr (r, d', st') \<Rightarrow> r | Inl _ \<Rightarrow> 0)"
| "answer X Y F _ st = 0"

fun answered ::
  "outside \<Rightarrow> libs \<Rightarrow> (64 word \<Rightarrow> string option) \<Rightarrow> event list \<Rightarrow> daemon \<Rightarrow> (event \<times> int) list" where
  "answered X Y F [] st = []"
| "answered X Y F (e # es) st =
     (e, answer X Y F e st) #
     (case daemon_step X Y F e st of Inr st1 \<Rightarrow> answered X Y F es st1 | Inl _ \<Rightarrow> map (\<lambda>e. (e, 0)) es)"

lemma daemon_step_event:
  assumes "net_ok (net_of st)" "daemon_step X Y F e st = Inr st'"
  shows "net_event X e (answer X Y F e st) (net_of st) (net_of st')"
  using assms by (cases e) (auto simp: and_then_eq_Inr run_handler_net intro: command_net)

text \<open>
  C3: the daemon implements a net of routes. In every history in which an interface that has a
  partner is not routed to another one, every packet changes the interfaces, their names,
  domains and routes exactly as its own command does: opening adds the one interface of the
  packet (or adds it and takes it away, and answers -1), closing takes away those that the
  packet names, a route joins its two interfaces and nothing else, forgetting cuts off its one
  interface; the answer is 0 exactly when this has been done. Listing, transfers, printing and
  data from the devices change none of it.
\<close>

theorem daemon_refines_net:
  assumes "daemon_run X Y F st es st'" and "net_ok (net_of st)"
  shows "net_history X (net_of st) (answered X Y F es st) (net_of st')"
  using assms
proof (induction rule: daemon_run.induct)
  case (Step e st st1 es st')
  note ok1 = net_steps_ok [OF daemon_step_net [OF Step(5,1,2)] Step(5)]
  from daemon_step_event [OF Step(5,2)] Step.IH [OF ok1] Step(2) show ?case
    by (auto intro: net_history.Next)
qed (simp add: net_history.Start)

text \<open>
  C11: no route leads to an interface that is gone. In every such history each partner is a live
  interface, and a partner that is itself not managed has the interface as its own partner, so
  that routes are symmetric; forgetting an interface cannot fail, and freeing it fails only
  where closing one of its two endpoints fails.
\<close>

theorem routes_stay_live:
  assumes run: "daemon_run X Y F st es st'" and ok: "net_ok (net_of st)" and a: "ifaces st' a = Some i"
  shows "(\<forall>p. i_partner i = Some p \<longrightarrow> i_managed i = 0 \<and>
      (\<exists>q. ifaces st' p = Some q \<and> (i_managed q = 0 \<longrightarrow> i_partner q = Some a))) \<and>
    (\<exists>s. iface_forget (Some a) st' = Inr s) \<and>
    (\<forall>st1 st2. close_rt X (i_id i) st' = Inr st1 \<longrightarrow> close_rt X (i_ep i) st1 = Inr st2 \<longrightarrow>
      (\<exists>s. iface_free X (Some a) st' = Inr s))"
proof -
  have ok': "net_ok (net_of st')" using daemon_run_net [OF run ok] by blast
  have "i_managed i = 0 \<and> (\<exists>q. ifaces st' p = Some q \<and> (i_managed q = 0 \<longrightarrow> i_partner q = Some a))"
    if "i_partner i = Some p" for p
  proof -
    have p: "peer (net_of st') a = Some p" using that a by (simp add: net_of_simps)
    note peers = peers_okD [OF net_okD(3) [OF ok'] p]
    then obtain q where q: "ifaces st' p = Some q" by (auto simp: net_of_simps)
    have "i_managed i = 0" using peers(4) a by (simp add: net_of_simps)
    moreover have "i_managed q = 0 \<longrightarrow> i_partner q = Some a"
      using peers(5) q by (simp add: net_of_simps)
    ultimately show ?thesis using q by blast
  qed
  moreover have "\<exists>s. iface_forget (Some a) st' = Inr s \<and> net_of s = net_forget a (net_of st') \<and>
      rt s = rt st' \<and> domains s = domains st' \<and> ctrl_iface s = ctrl_iface st'"
    by (rule iface_forget_net [OF net_okD(3) [OF ok'] a]) (use net_listed [OF ok'] in blast)+
  ultimately show ?thesis using iface_free_net [OF ok' a] by blast
qed


text \<open>
  C40: routing an interface that has a partner leaves a stale route. After \<open>a\<close> is routed to \<open>b\<close>
  and then to \<open>c\<close>, \<open>b\<close> still has \<open>a\<close> as its partner; once \<open>a\<close> is closed, the next data from \<open>b\<close>
  and every attempt to forget the route of \<open>b\<close> use the freed interface.
\<close>

theorem rerouting_leaves_stale_route:
  assumes raw: "{a, b, c} \<inter> hub (net_of st) = {}" and distinct: "a \<noteq> b" "a \<noteq> c" "b \<noteq> c"
    and routes: "set_route X Y a b st = Inr st1" "set_route X Y b a st1 = Inr st2"
      "set_route X Y a c st2 = Inr st3" "set_route X Y c a st3 = Inr st4"
    and free: "iface_free X (Some a) st4 = Inr st5"
  shows "iface_raw_handler X Y b len msg st5 = Inl Dangling \<and> iface_forget (Some b) st5 = Inl Dangling"
proof -
  have net: "net_of st4 = net_route a c (net_route a b (net_of st))"
    using route_net [OF routes(1,2) distinct(1)] route_net [OF routes(3,4) distinct(2)] by simp
  then have "peer (net_of st4) b = Some a" "peer (net_of st4) a = Some c" "hub (net_of st4) = hub (net_of st)"
    using raw distinct by simp_all
  with raw have "a \<notin> hub (net_of st4)" "b \<notin> hub (net_of st4)" by auto
  with \<open>peer (net_of st4) b = Some a\<close> \<open>peer (net_of st4) a = Some c\<close> obtain i j where
    i: "ifaces st4 a = Some i" "i_partner i = Some c" "i_managed i = 0"
    and j: "ifaces st4 b = Some j" "i_partner j = Some a" "i_managed j = 0"
    by (auto simp: net_of_simps bind_eq_Some_conv)
  from free i(1) obtain s1 s2 where
    closed: "close_rt X (i_id i) st4 = Inr s1" "close_rt X (i_ep i) s1 = Inr s2"
    by (auto simp: iface_free_def and_then_eq_Inr)
  then obtain r where s2: "s2 = st4\<lparr>rt := r\<rparr>" by (auto dest!: close_rt_net)
  define s3 where "s3 = (case i_domain i of None \<Rightarrow> s2 | Some k \<Rightarrow> upd_domain k (remove1 a) s2)"
  have s3: "ifaces s3 = ifaces st4" by (simp add: s3_def s2 split: option.split)
  from free i closed obtain s4 where s4: "iface_forget (Some a) s3 = Inr s4"
      "st5 = s4\<lparr>ifaces := (ifaces s4)(a := None)\<rparr>"
    by (auto simp: iface_free_def and_then_eq_Inr s3_def)
  then have "\<exists>q r. ifaces s4 = (ifaces st4)(c \<mapsto> q, a \<mapsto> r)"
    using i by (auto simp: iface_forget_def s3 and_then_eq_Inr set_iface_eq_Inr) blast
  then have "ifaces st5 b = Some j" "ifaces st5 a = None"
    using j distinct s4(2) by auto
  with j show ?thesis
    by (simp add: iface_raw_handler_def iface_forget_def set_iface_def)
qed


subsection \<open>A sample daemon\<close>

text \<open>Three raw interfaces \<open>a\<close>, \<open>b\<close>, \<open>c\<close> (at 1, 2, 3) whose endpoints are not open.\<close>

definition sample_iface :: "char \<Rightarrow> iface" where
  "sample_iface c = \<lparr>i_id = -1, i_ep = -1, i_name = strncpy 16 [c], i_uri = strncpy 128 (''tty:///dev/'' @ [c]),
     i_bus = int EP_TTY, i_domain = Some 0, i_managed = 0, i_handler = Some Raw_Handler,
     i_partner = None, i_pending = []\<rparr>"

definition sample_daemon :: daemon where
  "sample_daemon = \<lparr>rt = idle_sys, ifaces = [1 \<mapsto> sample_iface CHR ''a'', 2 \<mapsto> sample_iface CHR ''b'',
     3 \<mapsto> sample_iface CHR ''c''], next_iface = 4, domains = [\<lparr>dom_id = 0, dom_ifaces = [1, 2, 3]\<rparr>],
     ctrl_iface = None\<rparr>"

definition packet :: "int \<Rightarrow> string list \<Rightarrow> rtemgr_data" where
  "packet act names = \<lparr>cmd = no_cmd\<lparr>action := act\<rparr>, nr_intf = int (length names),
     interfaces = map (\<lambda>n. new_intf\<lparr>if_name := strncpy 16 n\<rparr>) names\<rparr>"

lemma sample_daemon_ok: "net_ok (net_of sample_daemon)"
  unfolding net_ok_def peers_ok_def lists_ok_def
  by (auto simp: net_of_def sample_daemon_def sample_iface_def split: if_splits)

lemma sample_route:
  obtains st where
    "daemon_run sample_outside sample_libs (\<lambda>_. None) sample_daemon [Packet 0 [] (packet RTECMD_ROUTE [''a'', ''b''])] st"
    "map_option i_partner (ifaces st 1) = Some (Some 2)" "map_option i_partner (ifaces st 2) = Some (Some 1)"
proof -
  let ?d = "packet RTECMD_ROUTE [''a'', ''b'']"
  let ?step = "daemon_step sample_outside sample_libs (\<lambda>_. None) (Packet 0 [] ?d) sample_daemon"
  have may: "may_run ?d sample_daemon"
    by (auto simp: may_run_def may_route_def net_of_simps sample_daemon_def sample_iface_def)
  have "(case ?step of Inl e \<Rightarrow> None | Inr st \<Rightarrow>
      Some (map_option i_partner (ifaces st 1), map_option i_partner (ifaces st 2))) = Some (Some (Some 2), Some (Some 1))"
    by code_simp
  then obtain st where "?step = Inr st" "map_option i_partner (ifaces st 1) = Some (Some 2)"
      "map_option i_partner (ifaces st 2) = Some (Some 1)" by (auto split: sum.splits)
  with may that show ?thesis by (metis daemon_run.intros well_routed.simps(1))
qed

theorem daemon_refines_net_witness:
  "\<exists>st. net_history sample_outside (net_of sample_daemon)
     [(Packet 0 [] (packet RTECMD_ROUTE [''a'', ''b'']), 0)] (net_of st) \<and> peer (net_of st) 1 = Some 2"
proof -
  obtain st where st: "daemon_run sample_outside sample_libs (\<lambda>_. None) sample_daemon
      [Packet 0 [] (packet RTECMD_ROUTE [''a'', ''b''])] st" "map_option i_partner (ifaces st 1) = Some (Some 2)"
    by (rule sample_route)
  have "answered sample_outside sample_libs (\<lambda>_. None) [Packet 0 [] (packet RTECMD_ROUTE [''a'', ''b''])] sample_daemon
      = [(Packet 0 [] (packet RTECMD_ROUTE [''a'', ''b'']), 0)]"
  proof -
    have "answer sample_outside sample_libs (\<lambda>_. None) (Packet 0 [] (packet RTECMD_ROUTE [''a'', ''b''])) sample_daemon = 0"
      by code_simp
    then show ?thesis by (simp split: sum.split)
  qed
  with daemon_refines_net [OF st(1) sample_daemon_ok] st(2) show ?thesis by (auto simp: net_of_simps)
qed

theorem routes_stay_live_witness:
  "\<exists>st i q. ifaces st 1 = Some i \<and> i_partner i = Some 2 \<and> ifaces st 2 = Some q \<and>
     (i_managed q = 0 \<longrightarrow> i_partner q = Some 1) \<and> (\<exists>s. iface_forget (Some 1) st = Inr s)"
proof -
  obtain st where st: "daemon_run sample_outside sample_libs (\<lambda>_. None) sample_daemon
      [Packet 0 [] (packet RTECMD_ROUTE [''a'', ''b''])] st" "map_option i_partner (ifaces st 1) = Some (Some 2)"
    by (rule sample_route)
  then obtain i where i: "ifaces st 1 = Some i" "i_partner i = Some 2" by auto
  with routes_stay_live [OF st(1) sample_daemon_ok i(1)] show ?thesis by blast
qed


theorem rerouting_leaves_stale_route_witness:
  "\<exists>st. iface_raw_handler sample_outside sample_libs 2 1 [7] st = Inl Dangling \<and>
     iface_forget (Some 2) st = Inl Dangling"
proof -
  let ?X = sample_outside and ?Y = sample_libs
  let ?run = "and_then (set_route ?X ?Y 1 2 sample_daemon) (\<lambda>s1. and_then (set_route ?X ?Y 2 1 s1) (\<lambda>s2.
    and_then (set_route ?X ?Y 1 3 s2) (\<lambda>s3. and_then (set_route ?X ?Y 3 1 s3) (iface_free ?X (Some 1)))))"
  have "(case ?run of Inl e \<Rightarrow> False | Inr _ \<Rightarrow> True)" by code_simp
  then obtain s1 s2 s3 s4 s5 where run: "set_route ?X ?Y 1 2 sample_daemon = Inr s1"
      "set_route ?X ?Y 2 1 s1 = Inr s2" "set_route ?X ?Y 1 3 s2 = Inr s3" "set_route ?X ?Y 3 1 s3 = Inr s4"
      "iface_free ?X (Some 1) s4 = Inr s5"
    by (auto simp: and_then_eq_Inr split: sum.splits)
  have "{1, 2, 3} \<inter> hub (net_of sample_daemon) = {}"
    by (auto simp: net_of_simps sample_daemon_def sample_iface_def)
  from rerouting_leaves_stale_route [OF this _ _ _ run, of 1 "[7]"] show ?thesis by auto
qed

end
