(* ===== verification/Rtemgrd_Traffic.thy ===== *)
theory Rtemgrd_Traffic
  imports Rtemgrd_Routes
begin

section \<open>Data through the daemon\<close>

text \<open>
  What happens to the data that arrives at the interfaces: data of an interface without a route
  waits for one and is then passed on in order; requests of clients to managed interfaces reach
  the device they name, or overrun the block of their value.
\<close>

subsection \<open>Pending data\<close>

definition with_pending :: "addr \<Rightarrow> byte list \<Rightarrow> daemon \<Rightarrow> daemon" where
  "with_pending a bs st =
     st\<lparr>ifaces := (ifaces st)(a := map_option (\<lambda>i. i\<lparr>i_pending := bs\<rparr>) (ifaces st a))\<rparr>"

lemma with_pending_simps [simp]:
  "with_pending a bs (with_pending a bs' st) = with_pending a bs st"
  "ifaces (with_pending a bs st) a = map_option (\<lambda>i. i\<lparr>i_pending := bs\<rparr>) (ifaces st a)"
  "p \<noteq> a \<Longrightarrow> ifaces (with_pending a bs st) p = ifaces st p"
  "rt (with_pending a bs st) = rt st" "domains (with_pending a bs st) = domains st"
  by (auto simp: with_pending_def fun_eq_iff option.map_comp comp_def)

lemma with_pending_same: "ifaces st a = Some i \<Longrightarrow> i_pending i = bs \<Longrightarrow> with_pending a bs st = st"
  by (simp add: with_pending_def map_upd_triv)

lemma xfer_rt_pending: "xfer_rt X n bs (with_pending a w st) = and_then (xfer_rt X n bs st) (\<lambda>s. Inr (with_pending a w s))"
  by (cases "rteipc_xfer (levent X) n bs (rt st)") (auto simp: xfer_rt_def with_pending_def)

lemma sender_info_pending:
  "i_partner i \<noteq> Some a \<Longrightarrow> sender_info (i\<lparr>i_pending := bs\<rparr>) f (with_pending a w st) = sender_info i f st"
  by (cases "i_partner i") (simp_all add: sender_info_def deref_def cong: option.case_cong)

lemma raw_handler_pending:
  assumes i: "ifaces st a = Some i" "i_partner i = Some p" "p \<noteq> a"
  shows "iface_raw_handler X Y a len msg (with_pending a w st) =
    and_then (iface_raw_handler X Y a len msg st) (\<lambda>s. Inr (with_pending a w s))"
proof (cases "ifaces st p")
  case None
  with i show ?thesis by (simp add: iface_raw_handler_def)
next
  case (Some q)
  show ?thesis
    using i Some
    by (auto simp: iface_raw_handler_def xfer_rt_pending sender_info_pending and_then_assoc Let_def
        intro!: and_then_cong split: option.split)
qed

lemma raw_handler_routed:
  assumes i: "ifaces st a = Some i" "i_partner i = Some p" and run: "iface_raw_handler X Y a len msg st = Inr s"
  shows "ifaces s = ifaces st"
proof -
  have keep: "xfer_rt X n bs st = Inr s \<Longrightarrow> ifaces s = ifaces st" for n bs
    by (auto simp: xfer_rt_def and_then_eq_Inr)
  with i run show ?thesis
    by (auto simp: iface_raw_handler_def and_then_eq_Inr Let_def split: option.splits if_splits)
qed

lemma each_routed:
  assumes "ifaces st a = Some i" "i_partner i = Some p" "p \<noteq> a"
  shows "each (\<lambda>m. iface_raw_handler X Y a (length m) m) ms (with_pending a w st) =
      and_then (each (\<lambda>m. iface_raw_handler X Y a (length m) m) ms st) (\<lambda>s. Inr (with_pending a w s))"
    and "each (\<lambda>m. iface_raw_handler X Y a (length m) m) ms st = Inr s \<Longrightarrow> ifaces s = ifaces st"
  using assms
proof (induction ms arbitrary: st)
  case (Cons m ms)
  {
    case 1
    then show ?case
    proof (cases "iface_raw_handler X Y a (length m) m st")
      case (Inr s)
      with raw_handler_routed [OF 1(1,2) Inr] 1 Cons.IH(1) [of s] show ?thesis
        by (simp add: raw_handler_pending [OF 1])
    qed (simp add: raw_handler_pending [OF 1])
  next
    case 2
    then obtain s1 where "iface_raw_handler X Y a (length m) m st = Inr s1"
        "each (\<lambda>m. iface_raw_handler X Y a (length m) m) ms s1 = Inr s"
      by (auto simp: and_then_eq_Inr)
    with raw_handler_routed [OF 2(2,3) this(1)] 2 Cons.IH(2) [of s1] show ?case by simp
  }
qed simp_all

lemma each_pending:
  assumes "ifaces st a = Some i" "i_partner i = None"
  shows "each (\<lambda>m. iface_raw_handler X Y a (length m) m) ms st =
    Inr (with_pending a (i_pending i @ concat (map frame ms)) st)"
  using assms
proof (induction ms arbitrary: st i)
  case Nil
  then show ?case by (simp add: with_pending_same)
next
  case (Cons m ms)
  let ?st = "with_pending a (i_pending i @ frame m) st"
  have "iface_raw_handler X Y a (length m) m st = Inr ?st"
    using Cons.prems by (simp add: iface_raw_handler_def iface_pending_def taken_def set_iface_def with_pending_def)
  with Cons.IH [of ?st "i\<lparr>i_pending := i_pending i @ frame m\<rparr>"] Cons.prems show ?case by simp
qed

lemma run_handler_raw:
  "ifaces st a = Some i \<Longrightarrow> i_handler i = Some Raw_Handler \<Longrightarrow>
     run_handler X Y a len msg st = iface_raw_handler X Y a len msg st"
  by (simp add: run_handler_def)


lemma raw_handler_code:
  assumes "iface_raw_handler X Y a len msg st = Inr s" "ifaces st a = Some i"
  shows "\<exists>j. ifaces s a = Some j \<and> i_handler j = i_handler i"
proof (cases "i_partner i")
  case None
  with assms show ?thesis
    by (auto simp: iface_raw_handler_def iface_pending_def and_then_eq_Inr set_iface_eq_Inr)
next
  case (Some p)
  with raw_handler_routed [OF assms(2) Some assms(1)] assms(2) show ?thesis by simp
qed

lemma each_run_handler:
  "ifaces st a = Some i \<Longrightarrow> i_handler i = Some Raw_Handler \<Longrightarrow>
     each (\<lambda>m. run_handler X Y a (length m) m) ms st = each (\<lambda>m. iface_raw_handler X Y a (length m) m) ms st"
proof (induction ms arbitrary: st i)
  case (Cons m ms)
  show ?case
  proof (cases "iface_raw_handler X Y a (length m) m st")
    case (Inr s)
    with raw_handler_code [OF Inr Cons.prems(1)] Cons show ?thesis by (auto simp: run_handler_raw)
  qed (simp add: run_handler_raw [OF Cons.prems])
qed simp

text \<open>Data that waits is handled, and then gone.\<close>

lemma iface_trigger_frames:
  assumes "mem X = (\<lambda>_. True)" "\<forall>m \<in> set ms. sendable m" "ifaces st a = Some i" "i_partner i = Some b"
    "i_pending i = concat (map frame ms)"
  shows "iface_trigger X Y a st =
    and_then (each (\<lambda>m. run_handler X Y a (length m) m) ms st) (set_iface a (\<lambda>i. i\<lparr>i_pending := []\<rparr>))"
  using assms drain_batch [OF assms(2), of "run_handler X Y a" st] by (simp add: iface_trigger_def and_then_assoc)

lemma set_route_fresh:
  assumes "ifaces st a = Some i" "i_partner i = None" "i_managed i = 0"
  shows "set_route X Y a b st = iface_trigger X Y a (st\<lparr>ifaces := (ifaces st)(a \<mapsto> i\<lparr>i_partner := Some b\<rparr>)\<rparr>)"
  using assms by (simp add: set_route_def set_iface_def)

lemma each_unrouted:
  assumes "ifaces st a = Some i" "i_partner i = None" "i_pending i = []" "i_handler i = Some Raw_Handler"
  shows "each (\<lambda>m. run_handler X Y a (length m) m) ms st =
    Inr (st\<lparr>ifaces := (ifaces st)(a \<mapsto> i\<lparr>i_pending := concat (map frame ms)\<rparr>)\<rparr>)"
  using each_run_handler [OF assms(1,4)] each_pending [OF assms(1,2)] assms(1,3) by (simp add: with_pending_def)

text \<open>A routed interface handles messages in the same way whatever waits, which stays.\<close>

lemma each_routed_pending:
  assumes "ifaces st a = Some j" "i_partner j = Some b" "b \<noteq> a" "i_handler j = Some Raw_Handler" "i_pending j = []"
  shows "and_then (each (\<lambda>m. run_handler X Y a (length m) m) ms (with_pending a w st))
      (set_iface a (\<lambda>i. i\<lparr>i_pending := []\<rparr>)) =
    each (\<lambda>m. run_handler X Y a (length m) m) ms st"
proof -
  let ?raw = "each (\<lambda>m. iface_raw_handler X Y a (length m) m) ms"
  have raw: "each (\<lambda>m. run_handler X Y a (length m) m) ms (with_pending a w st) = ?raw (with_pending a w st)"
    using each_run_handler [of "with_pending a w st" a "j\<lparr>i_pending := w\<rparr>"] assms(1,4) by simp
  have "set_iface a (\<lambda>i. i\<lparr>i_pending := []\<rparr>) (with_pending a w s) = Inr s" if "?raw st = Inr s" for s
    using each_routed(2) [OF assms(1-3) that] assms(1,5)
    by (auto simp: set_iface_def with_pending_def map_upd_triv)
  then show ?thesis
    unfolding raw each_run_handler [OF assms(1,4)] each_routed(1) [OF assms(1-3)] by (cases "?raw st") simp_all
qed

text \<open>
  C12: no data is lost or reordered while an interface waits for its route. For a raw interface
  without a partner, receiving any number of messages and then being routed to \<open>b\<close> ends as
  being routed first and receiving the same messages then does: every message is passed on once,
  in the order of arrival, to the same partner, with the same faults.
\<close>

theorem pending_data_delivered:
  assumes X: "mem X = (\<lambda>_. True)" and ms: "\<forall>m \<in> set ms. sendable m" and ab: "a \<noteq> b"
    and i: "ifaces st a = Some i" "i_managed i = 0" "i_partner i = None" "i_pending i = []"
      "i_handler i = Some Raw_Handler"
  shows "and_then (each (\<lambda>m. run_handler X Y a (length m) m) ms st) (set_route X Y a b) =
    and_then (set_route X Y a b st) (each (\<lambda>m. run_handler X Y a (length m) m) ms)"
proof -
  define j where "j = i\<lparr>i_partner := Some b\<rparr>"
  define st1 where "st1 = st\<lparr>ifaces := (ifaces st)(a \<mapsto> j)\<rparr>"
  have st1: "ifaces st1 a = Some j" "i_partner j = Some b" "b \<noteq> a" "i_handler j = Some Raw_Handler" "i_pending j = []"
    using ab i by (simp_all add: st1_def j_def)
  let ?w = "concat (map frame ms)"
  have swap: "i\<lparr>i_pending := ?w, i_partner := Some b\<rparr> = j\<lparr>i_pending := ?w\<rparr>" by (simp add: j_def)
  let ?st = "st\<lparr>ifaces := (ifaces st)(a \<mapsto> i\<lparr>i_pending := ?w\<rparr>)\<rparr>"
  have "?st\<lparr>ifaces := (ifaces ?st)(a \<mapsto> i\<lparr>i_pending := ?w, i_partner := Some b\<rparr>)\<rparr> = with_pending a ?w st1"
    by (simp only: swap) (simp add: st1_def with_pending_def)
  then have "set_route X Y a b ?st = iface_trigger X Y a (with_pending a ?w st1)"
    using set_route_fresh [of ?st a "i\<lparr>i_pending := ?w\<rparr>" X Y b] i(2,3) by simp
  also have "\<dots> = each (\<lambda>m. run_handler X Y a (length m) m) ms st1"
    using iface_trigger_frames [OF X ms, of "with_pending a ?w st1" a "j\<lparr>i_pending := ?w\<rparr>" b] st1
      each_routed_pending [OF st1] by simp
  finally have late: "set_route X Y a b ?st =
      each (\<lambda>m. run_handler X Y a (length m) m) ms st1" .
  have "set_route X Y a b st = Inr st1"
    using iface_trigger_frames [OF X, of "[]" st1 a j b] st1 set_route_fresh [OF i(1,3,2)]
    by (simp add: set_iface_def map_upd_triv flip: st1_def j_def)
  with late show ?thesis using each_unrouted [OF i(1,3,4,5)] by simp
qed


subsection \<open>Requests to managed interfaces\<close>

definition target :: "int \<Rightarrow> string \<Rightarrow> rtemgr_intf" where
  "target domain name = new_intf\<lparr>if_domain := domain, if_name := strncpy 16 name\<rparr>"

lemma request_parsed:
  assumes "libs_ok Y" "\<And>n. heap Y n" "is_int domain" "NUL \<notin> set name" "length name < 16"
    and c: "cmd_error c = 0" "val_v c = Some bs" "val_s c = of_nat (length bs)" "0 < length bs" "length bs < 2 ^ 32"
    and enc: "encode_cmd Y domain name c = Inr (Some out)"
  shows "rtemgr_data_parse Y out = Inr (Some (request_data domain name c))" "val_s c \<noteq> 0"
    "unat (val_s c) = length bs"
proof -
  have u: "unat (of_nat (length bs) :: 64 word) = length bs" using c(5) by (simp add: unat_of_nat)
  then show s: "val_s c \<noteq> 0" "unat (val_s c) = length bs" using c(3,4) by (metis unat_0 less_numeral_extra(3), simp)
  then have "value_ok c" using c by (simp add: value_ok_def)
  with encode_decode [OF assms(1-5) _ _ s(1) enc] c(1) have "rtemgr_decode Y out = Inr (Some (request_data domain name c))"
    by (simp add: is_int_def)
  then show "rtemgr_data_parse Y out = Inr (Some (request_data domain name c))"
    by (auto simp: rtemgr_decode_def and_then_eq_Inr split: option.splits if_splits)
qed

lemma managed_handler_request:
  assumes "rtemgr_data_parse Y out = Inr (Some (request_data domain name c))" "val_s c \<noteq> 0" "val_v c = Some v"
    and "lookup (target domain name) st = Inr (Some p)" "ifaces st p = Some q" "read_str (i_name q) = Inr n"
  shows "i_bus q \<in> {int EP_IPC, int EP_INET, int EP_TTY, int EP_SYSFS} \<Longrightarrow> i_managed q = 0 \<Longrightarrow>
      iface_managed_handler X Y self (length out) out st =
        and_then (taken (unat (val_s c)) v) (\<lambda>bs. xfer_rt X n bs st)"
    and "i_bus q = int EP_GPIO \<Longrightarrow> iface_managed_handler X Y self (length out) out st =
        and_then (value_string v) (\<lambda>s.
          xfer_result (rteipc_gpio_xfer (levent X) n (if s = ''0'' then 0 else 1) (rt st)) st)"
    and "i_bus q \<in> {int EP_SPI, int EP_I2C} \<Longrightarrow> iface_managed_handler X Y self (length out) out st =
        to_spi_or_i2c X Y q n (c\<lparr>action := RTECMD_XFER\<rparr>) v st"
  using assms by (auto simp: iface_managed_handler_def taken_def request_data_def target_def)

text \<open>
  C13: a client reaches the device behind a managed daemon. The packet that
  \<open>rtemgr_encode_domain\<close> makes for a name and a domain, when it arrives at a managed interface,
  sends exactly the bytes of the client to the interface of that name, if this is an IPC, INET,
  serial or sysfs interface that is not itself managed.
\<close>

theorem managed_delivery:
  assumes libs: "libs_ok Y" "\<And>n. heap Y n" and name: "is_int domain" "NUL \<notin> set name" "length name < 16"
    and bs: "0 < length bs" "length bs < 2 ^ 32"
    and enc: "rtemgr_encode_domain Y domain name (Some bs) (of_nat (length bs)) = Inr (Some out)"
    and dest: "lookup (target domain name) st = Inr (Some p)" "ifaces st p = Some q" "read_str (i_name q) = Inr n"
      "i_bus q \<in> {int EP_IPC, int EP_INET, int EP_TTY, int EP_SYSFS}" "i_managed q = 0"
  shows "iface_managed_handler X Y self (length out) out st = xfer_rt X n bs st"
proof -
  let ?c = "no_cmd\<lparr>val_s := of_nat (length bs), val_v := Some bs\<rparr>"
  have u: "unat (of_nat (length bs) :: 64 word) = length bs" using bs(2) by (simp add: unat_of_nat)
  then have "(of_nat (length bs) :: 64 word) \<noteq> 0" using bs(1) by (metis unat_0 less_numeral_extra(3))
  with enc u libs(2) have "encode_cmd Y domain name ?c = Inr (Some out)" by (simp add: rtemgr_encode_domain_def)
  note enc' = this
  have c: "cmd_error ?c = 0" "val_v ?c = Some bs" "val_s ?c = of_nat (length bs)" by (simp_all add: no_cmd_def)
  note parsed = request_parsed [OF libs name c bs enc']
  from managed_handler_request(1) [OF parsed(1,2) c(2) dest(1-3) dest(4,5), of X self]
  show ?thesis unfolding parsed(3) by (simp add: taken_def)
qed

lemma bytes_no_nul: "NUL \<notin> set s \<Longrightarrow> value_string (bytes_of s) = Inl Out_Of_Bounds"
  by (simp add: value_string_def read_str_def)

text \<open>
  Requests to GPIO, SPI and I2C interfaces overrun their value. The library's own helpers
  send the value without a terminator, the daemon decodes it into a block of exactly its size
  and reads it as a C string: every request made by the GPIO, SPI and (writing) I2C helpers
  makes the daemon read beyond the block.
\<close>

theorem managed_value_overrun:
  assumes libs: "libs_ok Y" "\<And>n. heap Y n" and name: "is_int domain" "NUL \<notin> set name" "length name < 16"
    and bs: "0 < length bs" "length bs < 2 ^ 16"
    and enc: "Inr (Some out) \<in> {rtemgr_gpio_encode_domain Y domain name v,
        rtemgr_spi_encode_domain Y domain name (Some bs) (of_nat (length bs)) rd,
        rtemgr_i2c_encode_domain Y domain name addr (Some bs) (of_nat (length bs)) rlen}"
    and dest: "lookup (target domain name) st = Inr (Some p)" "ifaces st p = Some q" "read_str (i_name q) = Inr n"
      "i_bus q \<in> {int EP_GPIO, int EP_SPI, int EP_I2C}"
  shows "iface_managed_handler X Y self (length out) out st = Inl Out_Of_Bounds"
proof -
  define t where "t = butlast (hex_text bs)"
  have hex: "NUL \<notin> set t"
  proof
    assume "NUL \<in> set t"
    then have "NUL \<in> set (hex_text bs)" unfolding t_def by (rule in_set_butlastD)
    then obtain b where "NUL \<in> set (show_02x b)" by (auto simp: hex_text_def split: if_splits)
    with show_02x_digits [of b] digit_not_special(4) show False by blast
  qed
  have len_t: "length t = 5 * length bs - 1" by (simp add: length_hex_text t_def)
  have "0 < length t" unfolding len_t using bs(1) by linarith
  moreover have "length t < 2 ^ 32" unfolding len_t using bs(2) by simp
  ultimately have len: "0 < length t" "length t < 2 ^ 32" .
  have n: "unat (of_nat (length bs) :: 16 word) = length bs" "(of_nat (length bs) :: 16 word) \<noteq> 0"
    using bs unat_len16 [OF bs(2)] len16_0 [OF bs(2)] by simp_all
  have "\<exists>c s. encode_cmd Y domain name c = Inr (Some out) \<and> cmd_error c = 0 \<and> val_v c = Some (bytes_of s) \<and>
      val_s c = of_nat (length s) \<and> NUL \<notin> set s \<and> 0 < length s \<and> length s < 2 ^ 32"
  proof -
    consider "rtemgr_gpio_encode_domain Y domain name v = Inr (Some out)"
      | "rtemgr_spi_encode_domain Y domain name (Some bs) (of_nat (length bs)) rd = Inr (Some out)"
      | "rtemgr_i2c_encode_domain Y domain name addr (Some bs) (of_nat (length bs)) rlen = Inr (Some out)"
      using enc by auto
    then show ?thesis
    proof cases
      case 1
      define s where "s = (if v \<noteq> 0 then ''1'' else ''0'')"
      then have s: "length s = 1" "NUL \<notin> set s" "s \<noteq> []" by auto
      have "encode_cmd Y domain name (no_cmd\<lparr>val_s := 1, val_v := Some (bytes_of s)\<rparr>) = Inr (Some out)"
        using 1 libs(2) s(1) by (simp add: rtemgr_gpio_encode_domain_def rtemgr_encode_domain_def flip: s_def)
      then show ?thesis using s by (intro exI conjI) (assumption, simp_all add: no_cmd_def, linarith)
    next
      case 2
      then have "encode_cmd Y domain name (no_cmd\<lparr>val_s := of_nat (length t), val_v := Some (bytes_of t),
          extra_rsize := if rd then of_nat (length bs) else 0\<rparr>) = Inr (Some out)"
        using n libs(2) by (simp add: rtemgr_spi_encode_domain_def Let_def flip: t_def)
      then show ?thesis using hex len by (intro exI conjI) (assumption, simp_all add: no_cmd_def)
    next
      case 3
      then have "encode_cmd Y domain name (no_cmd\<lparr>val_s := of_nat (length t), val_v := Some (bytes_of t),
          extra_addr := addr, extra_rsize := rlen\<rparr>) = Inr (Some out)"
        using n libs(2) by (simp add: rtemgr_i2c_encode_domain_def Let_def flip: t_def)
      then show ?thesis using hex len by (intro exI conjI) (assumption, simp_all add: no_cmd_def)
    qed
  qed
  then obtain c s where c: "encode_cmd Y domain name c = Inr (Some out)" "cmd_error c = 0" "val_v c = Some (bytes_of s)"
      "val_s c = of_nat (length (bytes_of s))" "NUL \<notin> set s" "0 < length (bytes_of s)" "length (bytes_of s) < 2 ^ 32"
    by auto
  note parsed = request_parsed [OF libs name c(2,3,4,6,7,1)]
  note over = bytes_no_nul [OF c(5)]
  note handle = managed_handler_request [OF parsed(1,2) c(3) dest(1-3), of X self]
  from dest(4) consider "i_bus q = int EP_GPIO" | "i_bus q \<in> {int EP_SPI, int EP_I2C}" by auto
  then show ?thesis by cases (simp_all add: handle over to_spi_or_i2c_def)
qed



subsection \<open>Samples\<close>

text \<open>The sample daemon with the loop of its interface \<open>b\<close> open and bound.\<close>

definition sample_bound :: daemon where
  "sample_bound = sample_daemon\<lparr>rt := idle_sys\<lparr>
     lo_list := [\<lparr>lo_addr = 9, lo_self = 0, lo_name = ''b'', lo_cb = Some 0, lo_arg = 2\<rparr>],
     cores := [0 \<mapsto> \<lparr>core_id = 0, partner_id = 1, ep_type = EP_LOOP, ep_base = None, ep_bev = Some 5,
       ep_data = Some (Loop_Priv 9)\<rparr>]\<rparr>\<rparr>"

abbreviation written :: "daemon outcome \<Rightarrow> lev_call list option" where
  "written r \<equiv> (case r of Inl e \<Rightarrow> None | Inr st \<Rightarrow> Some (lev_calls (rt st)))"

theorem pending_data_delivered_witness:
  "written (and_then (each (\<lambda>m. run_handler sample_outside sample_libs 1 (length m) m) [[7], [8, 9]] sample_bound)
       (set_route sample_outside sample_libs 1 2)) =
     Some [Bev_Write 5 [0, 0, 0, 2, 8, 9], Bev_Write 5 [0, 0, 0, 1, 7]]"
proof -
  have "mem sample_outside = (\<lambda>_. True)" by (simp add: sample_outside_def)
  note * = pending_data_delivered [OF this, of "[[7], [8, 9]]" 1 2 sample_bound "sample_iface CHR ''a''" sample_libs]
  have "written (and_then (set_route sample_outside sample_libs 1 2 sample_bound)
      (each (\<lambda>m. run_handler sample_outside sample_libs 1 (length m) m) [[7], [8, 9]])) =
      Some [Bev_Write 5 [0, 0, 0, 2, 8, 9], Bev_Write 5 [0, 0, 0, 1, 7]]"
    by code_simp
  then show ?thesis
    by (subst *) (simp_all add: sendable_def sample_bound_def sample_daemon_def sample_iface_def)
qed



lemma sample_encoded:
  "\<exists>out. encode_cmd sample_libs 0 ''b'' (no_cmd\<lparr>val_s := 1, val_v := Some [v]\<rparr>) = Inr (Some out)"
proof -
  let ?d = "request_data 0 ''b'' (no_cmd\<lparr>val_s := 1, val_v := Some [v]\<rparr>)"
  have "Rtemgr_Wire.data_ok ?d"
    by (rule request_data_ok) (simp_all add: is_int_def value_ok_def no_cmd_def)
  from sample_emitted [OF this, of 512] show ?thesis
    by (simp add: encode_cmd_emit no_cmd_def request_data_def value_room_def estimated_def)
qed

lemma sample_target:
  "lookup (target 0 ''b'') sample_bound = Inr (Some 2)"
  "ifaces sample_bound 2 = Some (sample_iface CHR ''b'')"
  "read_str (i_name (sample_iface CHR ''b'')) = Inr ''b''"
proof -
  have "lookup (target 0 ''b'') sample_bound = Inr (Some 2) \<and>
      read_str (i_name (sample_iface CHR ''b'')) = Inr ''b''" by code_simp
  then show "lookup (target 0 ''b'') sample_bound = Inr (Some 2)"
      "read_str (i_name (sample_iface CHR ''b'')) = Inr ''b''" by simp_all
  show "ifaces sample_bound 2 = Some (sample_iface CHR ''b'')" by (simp add: sample_bound_def sample_daemon_def)
qed

theorem managed_delivery_witness:
  "\<exists>out. rtemgr_encode_domain sample_libs 0 ''b'' (Some [7]) 1 = Inr (Some out) \<and>
     written (iface_managed_handler sample_outside sample_libs None (length out) out sample_bound) =
       Some [Bev_Write 5 [0, 0, 0, 1, 7]]"
proof -
  obtain out where "encode_cmd sample_libs 0 ''b'' (no_cmd\<lparr>val_s := 1, val_v := Some [7]\<rparr>) = Inr (Some out)"
    using sample_encoded [of 7] by blast
  then have out: "rtemgr_encode_domain sample_libs 0 ''b'' (Some [7]) (of_nat (length [7 :: byte])) = Inr (Some out)"
    by (simp add: rtemgr_encode_domain_def)
  have "iface_managed_handler sample_outside sample_libs None (length out) out sample_bound =
      xfer_rt sample_outside ''b'' [7] sample_bound"
    by (rule managed_delivery [OF libs_ok_sample _ _ _ _ _ _ out sample_target])
      (simp_all add: is_int_def sample_iface_def)
  moreover have "written (xfer_rt sample_outside ''b'' [7] sample_bound) = Some [Bev_Write 5 [0, 0, 0, 1, 7]]"
    by code_simp
  ultimately show ?thesis using out by auto
qed

definition sample_gpio :: daemon where
  "sample_gpio = sample_bound\<lparr>ifaces := (ifaces sample_bound)(2 \<mapsto> (sample_iface CHR ''b'')\<lparr>i_bus := int EP_GPIO\<rparr>)\<rparr>"

theorem managed_value_overrun_witness:
  "\<exists>out. rtemgr_gpio_encode_domain sample_libs 0 ''b'' 1 = Inr (Some out) \<and>
     iface_managed_handler sample_outside sample_libs None (length out) out sample_gpio = Inl Out_Of_Bounds"
proof -
  obtain out where "encode_cmd sample_libs 0 ''b'' (no_cmd\<lparr>val_s := 1, val_v := Some (bytes_of ''1'')\<rparr>) = Inr (Some out)"
    using sample_encoded [of "of_char CHR ''1''"] by (auto simp: bytes_of_def)
  then have out: "rtemgr_gpio_encode_domain sample_libs 0 ''b'' 1 = Inr (Some out)"
    by (simp add: rtemgr_gpio_encode_domain_def rtemgr_encode_domain_def)
  have found: "lookup (target 0 ''b'') sample_gpio = Inr (Some 2)" by code_simp
  have "iface_managed_handler sample_outside sample_libs None (length out) out sample_gpio = Inl Out_Of_Bounds"
    by (rule managed_value_overrun [OF libs_ok_sample _ _ _ _ _ _ _ found,
          of "[1]" out 1 False 0 0 "(sample_iface CHR ''b'')\<lparr>i_bus := int EP_GPIO\<rparr>" "''b''"])
      (use out sample_target(3) in \<open>simp_all add: is_int_def sample_gpio_def\<close>)
  with out show ?thesis by blast
qed

end
