(* ===== verification/Rtemgrd_Control.thy ===== *)
theory Rtemgrd_Control
  imports Rtemgrd_Traffic
begin

section \<open>What the control port answers\<close>

text \<open>
  The list command reports every interface as it is; packets without interfaces, and opening a
  name twice, lead the daemon to NULL and to freed memory.
\<close>

subsection \<open>Listing\<close>

definition iface_ok :: "iface \<Rightarrow> bool" where
  "iface_ok i \<longleftrightarrow> length (i_name i) = 16 \<and> NUL \<in> set (i_name i) \<and>
     (\<exists>proto path. read_str (i_uri i) = Inr (proto @ ''://'' @ path) \<and> proto \<noteq> [] \<and> CHR '':'' \<notin> set proto \<and>
        path \<noteq> [] \<and> length path < 100 \<and> CHR 0x0A \<notin> set path \<and> NUL \<notin> set path)"

definition listable :: "daemon \<Rightarrow> bool" where
  "listable st \<longleftrightarrow> (\<forall>d \<in> set (domains st). \<forall>a \<in> set (dom_ifaces d). \<exists>i. ifaces st a = Some i \<and> iface_ok i \<and>
     (\<forall>p. i_partner i = Some p \<longrightarrow> (\<exists>q. ifaces st p = Some q \<and> iface_ok q)))"

definition reports :: "daemon \<Rightarrow> domain \<times> addr \<Rightarrow> rtemgr_intf \<Rightarrow> bool" where
  "reports st = (\<lambda>(dm, a) f. \<exists>i proto path. ifaces st a = Some i \<and>
     if_id f = i_id i \<and> if_bus f = i_bus i \<and> if_managed f = i_managed i \<and> if_domain f = dom_id dm \<and>
     read_str (if_name f) = read_str (i_name i) \<and>
     read_str (i_uri i) = Inr (proto @ ''://'' @ path) \<and> CHR '':'' \<notin> set proto \<and>
     read_str (if_path f) = Inr path \<and>
     read_str (if_partner f) = (case i_partner i of None \<Rightarrow> Inr []
       | Some p \<Rightarrow> and_then (deref (ifaces st) (Some p)) (\<lambda>q. read_str (i_name q))) \<and>
     fits_array 16 (if_name f) \<and> fits_array 128 (if_path f) \<and> fits_array 16 (if_partner f))"

lemma strcpy_ok:
  assumes "NUL \<notin> set s" "length s < length arr"
  shows "\<exists>r. strcpy arr s = Inr r \<and> read_str r = Inr s"
proof -
  have "takeWhile (\<lambda>c. c \<noteq> NUL) (s @ NUL # drop (Suc (length s)) arr) = s"
    using assms(1) by (subst takeWhile_append2) auto
  with assms(2) show ?thesis by (simp add: strcpy_def read_str_def c_string_def)
qed

lemma strcpy_zeroed:
  assumes "NUL \<notin> set s" "length s < n"
  shows "\<exists>r. strcpy (replicate n NUL) s = Inr r \<and> read_str r = Inr s \<and> fits_array n r"
proof -
  have "replicate (n - length s) NUL = NUL # replicate (n - Suc (length s)) NUL"
    using assms(2) by (simp flip: replicate_Suc)
  with assms(2) have "strcpy (replicate n NUL) s = Inr (strncpy n s)" by (simp add: strcpy_def strncpy_def)
  with assms read_strncpy [OF assms(1), of n] show ?thesis by (auto simp: fits_array_def)
qed

lemma c_string_no_nul: "NUL \<notin> set (c_string s)"
  by (auto simp: c_string_def dest: set_takeWhileD)

lemma length_c_string: "NUL \<in> set s \<Longrightarrow> length (c_string s) < length s"
  unfolding c_string_def by (induction s) (auto split: if_splits)

lemma name_copied:
  assumes "iface_ok i"
  shows "\<exists>r. and_then (read_str (i_name i)) (strcpy (replicate 16 NUL)) = Inr r \<and>
    read_str r = read_str (i_name i) \<and> fits_array 16 r"
  using strcpy_zeroed [OF c_string_no_nul, of "i_name i" 16] length_c_string [of "i_name i"] assms
  by (auto simp: iface_ok_def read_str_def)

lemma scan_path_uri:
  assumes "proto \<noteq> []" "CHR '':'' \<notin> set proto" "path \<noteq> []" "length path < 100" "CHR 0x0A \<notin> set path"
  shows "scan_path (proto @ ''://'' @ path) old = path"
proof -
  have "takeWhile (\<lambda>c. c \<noteq> CHR '':'') (proto @ CHR '':'' # r) = proto" for r
    using assms(2) by (subst takeWhile_append2) auto
  moreover have whole: "takeWhile (\<lambda>c. c \<noteq> CHR 0x0A) path = path" using assms(5) by (auto simp: takeWhile_eq_all_conv)
  have "take 99 (takeWhile (\<lambda>c. c \<noteq> CHR 0x0A) path) = path" unfolding whole using assms(4) by simp
  ultimately show ?thesis
    using assms(1,3) by (simp add: scan_path_def scan_not_def scan_not_width_def Let_def)
qed

lemma collect_iface_reports:
  assumes heap: "\<And>n. heap Y n" and d: "nr_intf d = int (length (interfaces d))"
    and i: "ifaces st a = Some i" "iface_ok i" "\<And>p. i_partner i = Some p \<Longrightarrow> \<exists>q. ifaces st p = Some q \<and> iface_ok q"
  shows "\<exists>f old'. collect_iface Y st dm a (d, old) =
      Inr (d\<lparr>nr_intf := nr_intf d + 1, interfaces := interfaces d @ [f]\<rparr>, old') \<and> reports st (dm, a) f"
proof -
  from i(2) obtain proto path where uri: "read_str (i_uri i) = Inr (proto @ ''://'' @ path)" "proto \<noteq> []"
      "CHR '':'' \<notin> set proto" "path \<noteq> []" "length path < 100" "CHR 0x0A \<notin> set path" "NUL \<notin> set path"
    by (auto simp: iface_ok_def)
  obtain name where name: "and_then (read_str (i_name i)) (strcpy (if_name new_intf)) = Inr name"
      "read_str name = read_str (i_name i)" "fits_array 16 name"
    using name_copied [OF i(2)] by (auto simp: new_intf_def)
  obtain p where p: "strcpy (if_path new_intf) path = Inr p" "read_str p = Inr path" "fits_array 128 p"
    using strcpy_zeroed [OF uri(7), of 128] uri(5) by (auto simp: new_intf_def)
  let ?partner = "case i_partner i of None \<Rightarrow> Inr (if_partner new_intf)
    | Some q \<Rightarrow> and_then (deref (ifaces st) (Some q)) (\<lambda>j. and_then (read_str (i_name j)) (strcpy (if_partner new_intf)))"
  obtain partner where partner: "?partner = Inr partner" "read_str partner = (case i_partner i of None \<Rightarrow> Inr []
       | Some p \<Rightarrow> and_then (deref (ifaces st) (Some p)) (\<lambda>q. read_str (i_name q)))"
      "fits_array 16 partner"
  proof (cases "i_partner i")
    case None
    moreover have "fits_array 16 (strncpy 16 [])" unfolding fits_array_def by (intro exI [of _ "[]"]) simp
    ultimately show ?thesis using that by (simp add: new_intf_def read_str_def c_string_def strncpy_def)
  next
    case (Some q)
    with i(3) obtain j where "ifaces st q = Some j" "iface_ok j" by blast
    with Some name_copied [of j] show ?thesis using that by (auto simp: new_intf_def)
  qed
  let ?f = "new_intf\<lparr>if_id := i_id i, if_name := name, if_bus := i_bus i, if_path := p,
    if_domain := dom_id dm, if_managed := i_managed i, if_partner := partner\<rparr>"
  have "collect_iface Y st dm a (d, old) =
      Inr (d\<lparr>nr_intf := nr_intf d + 1, interfaces := interfaces d @ [?f]\<rparr>, path)"
    using i(1) heap d name(1) p(1) partner(1) uri(1) scan_path_uri [OF uri(2-6), of old]
    by (simp add: collect_iface_def rtemgr_data_alloc_interface_def Let_def cong: option.case_cong)
  moreover have "reports st (dm, a) ?f"
    using i(1) name(2,3) p(2,3) partner(2,3) uri(1,3) by (auto simp: reports_def)
  ultimately show ?thesis by blast
qed

lemma collect_ifaces_reports:
  assumes heap: "\<And>n. heap Y n" and "nr_intf d = int (length (interfaces d))"
    and "\<forall>a \<in> set as. \<exists>i. ifaces st a = Some i \<and> iface_ok i \<and>
      (\<forall>p. i_partner i = Some p \<longrightarrow> (\<exists>q. ifaces st p = Some q \<and> iface_ok q))"
  shows "\<exists>fs old'. collect_ifaces Y st dm as (d, old) = Inr (d\<lparr>nr_intf := nr_intf d + int (length fs),
      interfaces := interfaces d @ fs\<rparr>, old') \<and> list_all2 (reports st) (map (Pair dm) as) fs"
  using assms(2,3)
proof (induction as arbitrary: d old)
  case Nil
  then show ?case by (intro exI [of _ "[]"] exI [of _ old]) simp
next
  case (Cons a as)
  then obtain i where i: "ifaces st a = Some i" "iface_ok i" "\<And>p. i_partner i = Some p \<Longrightarrow> \<exists>q. ifaces st p = Some q \<and> iface_ok q"
    by auto
  from collect_iface_reports [OF heap Cons.prems(1) i] obtain f old1 where
    f: "collect_iface Y st dm a (d, old) = Inr (d\<lparr>nr_intf := nr_intf d + 1, interfaces := interfaces d @ [f]\<rparr>, old1)"
      "reports st (dm, a) f" by blast
  from Cons.IH [of "d\<lparr>nr_intf := nr_intf d + 1, interfaces := interfaces d @ [f]\<rparr>" old1] Cons.prems
  obtain fs old' where "collect_ifaces Y st dm as (d\<lparr>nr_intf := nr_intf d + 1, interfaces := interfaces d @ [f]\<rparr>, old1) =
      Inr (d\<lparr>nr_intf := nr_intf d + 1 + int (length fs), interfaces := interfaces d @ [f] @ fs\<rparr>, old')"
      "list_all2 (reports st) (map (Pair dm) as) fs" by auto
  with f show ?case by (intro exI [of _ "f # fs"] exI [of _ old']) (simp add: algebra_simps)
qed

lemma domains_report:
  assumes heap: "\<And>n. heap Y n" and "nr_intf d = int (length (interfaces d))"
    and "\<forall>dm \<in> set ds. \<forall>a \<in> set (dom_ifaces dm). \<exists>i. ifaces st a = Some i \<and> iface_ok i \<and>
      (\<forall>p. i_partner i = Some p \<longrightarrow> (\<exists>q. ifaces st p = Some q \<and> iface_ok q))"
  shows "\<exists>fs. each (domain_collect_ifaces Y st) ds d = Inr (d\<lparr>nr_intf := nr_intf d + int (length fs), interfaces := interfaces d @ fs\<rparr>) \<and>
    list_all2 (reports st) (concat (map (\<lambda>dm. map (Pair dm) (dom_ifaces dm)) ds)) fs"
  using assms(2,3)
proof (induction ds arbitrary: d)
  case Nil
  then show ?case by (intro exI [of _ "[]"]) simp
next
  case (Cons dm ds)
  from collect_ifaces_reports [OF heap Cons.prems(1), of "dom_ifaces dm" st dm "[]"] Cons.prems(2)
  obtain fs old' where fs: "collect_ifaces Y st dm (dom_ifaces dm) (d, []) = Inr (d\<lparr>nr_intf := nr_intf d + int (length fs),
      interfaces := interfaces d @ fs\<rparr>, old')" "list_all2 (reports st) (map (Pair dm) (dom_ifaces dm)) fs"
    by auto
  let ?d = "d\<lparr>nr_intf := nr_intf d + int (length fs), interfaces := interfaces d @ fs\<rparr>"
  from Cons.IH [of ?d] Cons.prems obtain gs where
    gs: "each (domain_collect_ifaces Y st) ds ?d = Inr (d\<lparr>nr_intf := nr_intf d + int (length fs) + int (length gs),
      interfaces := interfaces d @ fs @ gs\<rparr>)"
      "list_all2 (reports st) (concat (map (\<lambda>dm. map (Pair dm) (dom_ifaces dm)) ds)) gs" by auto
  have "domain_collect_ifaces Y st dm d = Inr ?d" by (simp add: domain_collect_ifaces_def fs(1))
  with gs fs(2) show ?case
    by (intro exI [of _ "fs @ gs"]) (simp add: list_all2_appendI algebra_simps)
qed

lemma listing:
  assumes "\<And>n. heap Y n" and "0 \<le> nr_intf d" "nr_intf d = int (length (interfaces d))" and "listable st"
  shows "\<exists>fs. do_rtecmd_list Y d st = Inr (0, d\<lparr>nr_intf := int (length fs), interfaces := fs\<rparr>, st) \<and>
    list_all2 (reports st) (concat (map (\<lambda>dm. map (Pair dm) (dom_ifaces dm)) (domains st))) fs"
proof -
  have "d\<lparr>nr_intf := 0, interfaces := []\<rparr> = d" if "nr_intf d = 0"
    using that assms(3) by (cases d) simp
  then have "rtemgr_data_cleanup_interfaces d = Some (d\<lparr>nr_intf := 0, interfaces := []\<rparr>)"
    using cleanup_interfaces [OF assms(2)] by (cases d) simp
  moreover from domains_report [OF assms(1), of "d\<lparr>nr_intf := 0, interfaces := []\<rparr>" "domains st" st] assms(4)
  obtain fs where "each (domain_collect_ifaces Y st) (domains st) (d\<lparr>nr_intf := 0, interfaces := []\<rparr>) =
      Inr (d\<lparr>nr_intf := int (length fs), interfaces := fs\<rparr>)"
      "list_all2 (reports st) (concat (map (\<lambda>dm. map (Pair dm) (dom_ifaces dm)) (domains st))) fs"
    by (auto simp: listable_def)
  ultimately show ?thesis by (auto simp: do_rtecmd_list_def)
qed

text \<open>
  The list command tells the truth. Its reply has one entry for each interface of each
  domain, in the order in which they were opened, with the descriptor, bus type, domain and
  managed flag of the interface, its name, the path behind the protocol of its URI, and the name
  of its partner or the empty name.
\<close>

theorem list_reports:
  assumes "\<And>n. heap Y n" and "0 \<le> nr_intf d" "nr_intf d = int (length (interfaces d))" and "listable st"
  shows "\<exists>fs. do_rtecmd_list Y d st = Inr (0, d\<lparr>nr_intf := int (length fs), interfaces := fs\<rparr>, st) \<and>
    list_all2 (reports st) (concat (map (\<lambda>dm. map (Pair dm) (dom_ifaces dm)) (domains st))) fs"
  using assms by (rule listing)

definition some_interface :: rtemgr_data where
  "some_interface = \<lparr>cmd = no_cmd\<lparr>action := RTECMD_LIST\<rparr>, nr_intf = 1, interfaces = [new_intf]\<rparr>"

lemma sample_listable: "listable sample_daemon"
proof -
  have "iface_ok (sample_iface c)" if "c \<noteq> NUL" "c \<noteq> CHR 0x0A" for c
  proof -
    have "read_str (strncpy 128 (''tty:///dev/'' @ [c])) = Inr (''tty'' @ ''://'' @ ''/dev/'' @ [c])"
      using that read_strncpy [of "''tty:///dev/'' @ [c]" 128] by simp
    then have "\<exists>proto path. read_str (i_uri (sample_iface c)) = Inr (proto @ ''://'' @ path) \<and> proto \<noteq> [] \<and>
        CHR '':'' \<notin> set proto \<and> path \<noteq> [] \<and> length path < 100 \<and> CHR 0x0A \<notin> set path \<and> NUL \<notin> set path"
      using that by (intro exI [of _ "''tty''"] exI [of _ "''/dev/'' @ [c]"]) (simp add: sample_iface_def)
    moreover have "NUL \<in> set (i_name (sample_iface c))" "length (i_name (sample_iface c)) = 16"
      by (simp_all add: sample_iface_def strncpy_def)
    ultimately show ?thesis by (simp add: iface_ok_def)
  qed
  moreover have "i_partner (sample_iface c) = None" for c by (simp add: sample_iface_def)
  ultimately show ?thesis by (simp add: listable_def sample_daemon_def)
qed

theorem list_reports_witness:
  "\<exists>f g h. do_rtecmd_list sample_libs some_interface sample_daemon =
       Inr (0, some_interface\<lparr>nr_intf := 3, interfaces := [f, g, h]\<rparr>, sample_daemon) \<and>
     read_str (if_name g) = read_str (strncpy 16 ''b'')"
proof -
  have "0 \<le> nr_intf some_interface" "nr_intf some_interface = int (length (interfaces some_interface))"
    by (simp_all add: some_interface_def)
  with list_reports [OF _ this sample_listable, of sample_libs] obtain fs where
    fs: "do_rtecmd_list sample_libs some_interface sample_daemon =
        Inr (0, some_interface\<lparr>nr_intf := int (length fs), interfaces := fs\<rparr>, sample_daemon)"
      "list_all2 (reports sample_daemon)
        (concat (map (\<lambda>dm. map (Pair dm) (dom_ifaces dm)) (domains sample_daemon))) fs" by auto
  then obtain f g h where "fs = [f, g, h]" "reports sample_daemon (\<lparr>dom_id = 0, dom_ifaces = [1, 2, 3]\<rparr>, 2) g"
    by (auto simp: sample_daemon_def list_all2_Cons1)
  moreover from this(2) have "read_str (if_name g) = read_str (strncpy 16 ''b'')"
    by (auto simp: reports_def sample_daemon_def sample_iface_def)
  ultimately show ?thesis using fs(1) by auto
qed


subsection \<open>Packets that break the daemon\<close>

text \<open>
  C38: a packet without interfaces. For such a packet opening, closing and routing report an
  error and change nothing; but forgetting and printing read the name of an interface through
  NULL, so that one packet of a client ends the daemon.
\<close>

theorem command_without_interface:
  assumes "rtemgr_data_parse Y msg = Inr (Some d)" "interfaces d = []"
  shows "(action (cmd d) \<in> {RTECMD_FORGET, RTECMD_CAT} \<longrightarrow>
      process_ctlport X Y F (length msg) msg st = Inl Null_Deref) \<and>
    (action (cmd d) \<in> {RTECMD_OPEN, RTECMD_CLOSE, RTECMD_ROUTE} \<longrightarrow>
      process_ctlport X Y F (length msg) msg st =
        and_then (rtemgr_data_emit Y (d\<lparr>cmd := (cmd d)\<lparr>cmd_error := -1\<rparr>\<rparr>) 4096) (\<lambda>out.
        (case out of None \<Rightarrow> Inr st | Some bs \<Rightarrow> xfer_rt X RTEMGRD_CTLPORT bs st)))"
  using assms
  by (auto simp: process_ctlport_def taken_def run_command_def do_rtecmd_forget_def do_rtecmd_cat_def
      do_rtecmd_open_def do_rtecmd_close_def do_rtecmd_route_def)

lemma empty_packet_ok: "Rtemgr_Wire.data_ok (packet RTECMD_CAT [])"
  by (simp add: Rtemgr_Wire.data_ok_def packet_def no_cmd_def is_int_def value_ok_def)

theorem command_without_interface_witness:
  "\<exists>msg. process_ctlport sample_outside sample_libs (\<lambda>_. None) (length msg) msg sample_daemon = Inl Null_Deref"
proof -
  obtain msg where msg: "rtemgr_data_emit sample_libs (packet RTECMD_CAT []) 4096 = Inr (Some msg)"
    using sample_emitted [OF empty_packet_ok] by (auto simp: packet_def no_cmd_def value_room_def)
  obtain d where d: "rtemgr_data_parse sample_libs msg = Inr (Some d)" "interfaces d = []" "action (cmd d) = RTECMD_CAT"
    using emitted_parses [OF libs_ok_sample _ empty_packet_ok msg] by (auto simp: packet_def no_cmd_def)
  from command_without_interface [OF d(1,2)] d(3) show ?thesis by auto
qed


lemma setcb_loop:
  assumes "lookup_lo n s = Some lo" "distinct (map lo_addr (lo_list s))"
  shows "find_loop (lo_addr lo) (snd (rteipc_xfer_setcb n cb arg s)) = Inr (lo\<lparr>lo_cb := cb, lo_arg := arg\<rparr>)"
proof -
  let ?f = "\<lambda>l. if lo_addr l = lo_addr lo then l\<lparr>lo_cb := cb, lo_arg := arg\<rparr> else l"
  have lo: "lo \<in> set (lo_list s)" using lookup_lo_Some [OF assms(1)] by simp
  have "find (\<lambda>l. lo_addr l = lo_addr lo) (map ?f (lo_list s)) =
      map_option ?f (find (\<lambda>l. lo_addr l = lo_addr lo) (lo_list s))"
    by (rule find_map_cong) simp
  also have "find (\<lambda>l. lo_addr l = lo_addr lo) (lo_list s) = Some lo"
    by (rule find_distinct [OF assms(2) lo])
  finally show ?thesis using assms(1) by (simp add: rteipc_xfer_setcb_def set_loop_def find_loop_def)
qed

text \<open>The list of loops changes only when a loop is opened or closed.\<close>

lemma set_core_loops: "set_core a f s = Inr s' \<Longrightarrow> lo_list s' = lo_list s" for s :: rsys
  by (auto simp: set_core_def and_then_eq_Inr)

lemma unbind_loops:
  assumes "unbind_endpoint L a s = Inr s'"
  shows "lo_list s' = lo_list (s :: rsys)"
proof -
  from assms obtain c where c: "cores s a = Some c" by (auto simp: unbind_endpoint_def and_then_eq_Inr deref_eq_Inr)
  consider "ep_bev c = None" | b where "ep_bev c = Some b" "pair_get_partner L (lev_calls s) b = None"
    | b pair where "ep_bev c = Some b" "pair_get_partner L (lev_calls s) b = Some pair"
    by (cases "ep_bev c"; cases "pair_get_partner L (lev_calls s) (the (ep_bev c))") auto
  then show ?thesis
  proof cases
    case 3
    with assms c obtain partner where "dtbl_get (ep_tbl s) (partner_id c) = Some partner"
      by (cases "dtbl_get (ep_tbl s) (partner_id c)") (simp_all add: unbind_endpoint_def)
    with 3 assms c show ?thesis
      by (auto simp: unbind_endpoint_def lev_call_def Let_def and_then_eq_Inr dest!: set_core_loops split: if_splits)
  qed (use assms c in \<open>simp_all add: unbind_endpoint_def\<close>)
qed

lemma core_ops_loops:
  "allocate_endpoint m t s = (x, s') \<Longrightarrow> lo_list s' = lo_list s"
  "register_endpoint m1 m2 a s = Inr (k, s') \<Longrightarrow> lo_list s' = lo_list s"
  "unregister_endpoint L a s = Inr s' \<Longrightarrow> lo_list s' = lo_list s"
  "destroy_endpoint a s = Inr s' \<Longrightarrow> lo_list s' = lo_list s"
  "set_core a f s = Inr s' \<Longrightarrow> lo_list s' = lo_list s" for s :: rsys
  by (auto simp: allocate_endpoint_def register_endpoint_def unregister_endpoint_def destroy_endpoint_def Let_def
      and_then_eq_Inr dest!: set_core_loops unbind_loops split: if_splits prod.splits)

lemma open_loops:
  assumes run: "rteipc_open X uri s = Inr (r, s')" "uri_target uri = Inr (Some (t, path))" "ep_ops_list t = Some ops"
    and dev: "\<And>ep s1 q d s2. lo_list s1 = lo_list s \<Longrightarrow> ops_open (osys X) ops t ep path s1 = Inr (q, d, s2) \<Longrightarrow>
      lo_list s2 = lo_list s \<and> (free \<or> q \<noteq> 0)"
  shows "lo_list s' = lo_list s \<and> (free \<or> r = -1)"
proof -
  obtain x s1 where al: "allocate_endpoint (mem X 48) t s = (x, s1)" by fastforce
  note s1 = core_ops_loops(1) [OF al]
  show ?thesis
  proof (cases x)
    case None
    with run al s1 show ?thesis by (simp add: rteipc_open_def)
  next
    case (Some ep)
    with run al obtain i s2 where reg: "register_endpoint (mem X 128) (mem X 32) ep s1 = Inr (i, s2)"
      and rest: "(if i < 0 then and_then (destroy_endpoint ep s2) (\<lambda>st3. Inr (-1, st3))
         else (case ep_ops_list t of None \<Rightarrow> Inl Null_Deref
           | Some ops \<Rightarrow> and_then (ops_open (osys X) ops t ep path s2) (\<lambda>(r, d, st3).
               if r \<noteq> 0 then and_then (unregister_endpoint (levent X) ep st3) (\<lambda>st4.
                 and_then (destroy_endpoint ep st4) (\<lambda>st5. Inr (-1, st5)))
               else and_then (set_core ep (\<lambda>c. c\<lparr>ep_data := d\<rparr>) st3) (\<lambda>st4. Inr (i, st4))))) = Inr (r, s')"
      by (auto simp: rteipc_open_def and_then_eq_Inr)
    note s2 = core_ops_loops(2) [OF reg]
    show ?thesis
    proof (cases "i < 0")
      case True
      with rest s1 s2 show ?thesis by (auto simp: and_then_eq_Inr dest: core_ops_loops(4))
    next
      case False
      with rest obtain q d s3 where op: "ops_open (osys X) ops t ep path s2 = Inr (q, d, s3)"
        and last: "(if q \<noteq> 0 then and_then (unregister_endpoint (levent X) ep s3) (\<lambda>st4.
             and_then (destroy_endpoint ep st4) (\<lambda>st5. Inr (-1, st5)))
           else and_then (set_core ep (\<lambda>c. c\<lparr>ep_data := d\<rparr>) s3) (\<lambda>st4. Inr (i, st4))) = Inr (r, s')"
        using assms(3) by (auto simp: and_then_eq_Inr)
      have "lo_list s2 = lo_list s" using s1 s2 by simp
      from dev [OF this op] last show ?thesis
        by (auto simp: and_then_eq_Inr dest!: core_ops_loops(3,4,5) split: if_splits)
    qed
  qed
qed

lemma open_used_name:
  assumes "rteipc_open X n s = Inr (r, s')" and n: "CHR '':'' \<notin> set n" "NUL \<notin> set n" "length n < 16"
    and used: "lookup_lo n s \<noteq> None"
  shows "r = -1" "lo_list s' = lo_list s"
proof -
  have target: "uri_target n = Inr (Some (EP_LOOP, n))" by (rule loop_target [OF n])
  have "lo_list s' = lo_list s \<and> (False \<or> r = -1)"
  proof (rule open_loops [OF assms(1) target])
    show "ep_ops_list EP_LOOP = Some Loop_Ops" by (simp add: ep_ops_list_def)
    fix ep q d and s1 s2 :: rsys
    assume s1: "lo_list s1 = lo_list s" and op: "ops_open (osys X) Loop_Ops EP_LOOP ep n s1 = Inr (q, d, s2)"
    have "lookup_lo n s1 \<noteq> None" using used s1 by (simp add: lookup_lo_def)
    then have "loop_open (osys X) ep n s1 = (-1, None, s1)" by (simp add: loop_open_def)
    with op s1 show "lo_list s2 = lo_list s \<and> (False \<or> q \<noteq> 0)" by (simp add: ops_open_def as_priv_def)
  qed
  then show "r = -1" "lo_list s' = lo_list s" by simp_all
qed

lemma open_device_loops:
  assumes "os_ok (osys X)" "rteipc_open X uri s = Inr (r, s')"
    and other: "\<And>t path. uri_target uri = Inr (Some (t, path)) \<Longrightarrow> t \<noteq> EP_LOOP"
  shows "lo_list s' = lo_list s"
proof (cases "\<exists>t path. uri_target uri = Inr (Some (t, path))")
  case True
  then obtain t path where target: "uri_target uri = Inr (Some (t, path))" by blast
  from uri_target_ops [OF this] obtain ops where ops: "ep_ops_list t = Some ops" by blast
  then have "ops \<noteq> Loop_Ops" using other [OF target] by (auto simp: ep_ops_list_def split: if_splits)
  note keep = ops_open_loops [OF assms(1) _ this]
  have "lo_list s' = lo_list s \<and> (True \<or> r = -1)"
  proof (rule open_loops [OF assms(2) target ops])
    fix ep q d and s1 s2 :: rsys
    assume "lo_list s1 = lo_list s" "ops_open (osys X) ops t ep path s1 = Inr (q, d, s2)"
    with keep show "lo_list s2 = lo_list s \<and> (True \<or> q \<noteq> 0)" by simp
  qed
  then show ?thesis by simp
next
  case False
  with assms(2) show ?thesis by (auto simp: rteipc_open_def and_then_eq_Inr split: option.splits)
qed

lemma close_device_loops:
  assumes "rteipc_close X i s = Inr s'"
    and other: "\<And>a c. find_endpoint s i = Some a \<Longrightarrow> cores s a = Some c \<Longrightarrow> ep_type c \<noteq> EP_LOOP"
  shows "lo_list s' = lo_list s"
proof (cases "find_endpoint s i")
  case None
  with assms(1) show ?thesis by (simp add: rteipc_close_def)
next
  case (Some a)
  with assms(1) obtain c where c: "cores s a = Some c" by (auto simp: rteipc_close_def and_then_eq_Inr deref_eq_Inr)
  note t = other [OF Some c]
  have dev: "lo_list s1 = lo_list s" if "ops_close ops x s = Inr s1" "ep_ops_list (ep_type c) = Some ops" for ops x s1
  proof -
    have "ops \<noteq> Loop_Ops" using that(2) t by (auto simp: ep_ops_list_def split: if_splits)
    then show ?thesis using that(1)
      by (auto simp: ops_close_def ipc_close_def tty_close_def gpio_close_def spidev_close_def i2c_close_def
          sysfs_close_def note_call_def Let_def split: ep_ops.splits option.splits ep_priv.splits)
  qed
  with assms(1) Some c show ?thesis
    by (auto simp: rteipc_close_def and_then_eq_Inr dest!: core_ops_loops(3,4) dev split: option.splits)
qed

lemma bus_target:
  assumes "b \<in> int ` {EP_IPC, EP_INET, EP_TTY, EP_GPIO, EP_SPI, EP_I2C, EP_SYSFS}"
    and "uri_target (take 127 (bus_to_prefix b @ p)) = Inr (Some (t, path))"
  shows "t \<noteq> EP_LOOP"
proof -
  have "strstr (take 127 (bus_to_prefix b @ p)) ''://''"
    using assms(1) by (auto simp: bus_to_prefix_def)
  with assms(2) show ?thesis
    by (auto simp: uri_target_def and_then_eq_Inr protocol_type_def split: if_splits)
qed

text \<open>The two opens of a new interface; the callback is set whether they have failed or not.\<close>

lemma iface_build_opens:
  assumes "iface_build X a name path bus managed st = Inr (r, st')" and n: "read_str name = Inr n"
  shows "\<exists>q p z1 e s2. rteipc_open X n (rt st) = Inr (q, z1) \<and>
    rteipc_open X (take 127 (bus_to_prefix bus @ p)) z1 = Inr (e, s2) \<and>
    (q < 0 \<longrightarrow> (\<exists>j. rt st' = snd (rteipc_xfer_setcb n (Some 0) a s2) \<and> ifaces st' a = Some j \<and>
       i_id j = q \<and> i_ep j = e \<and> r = -1))"
proof -
  from assms obtain iname p iuri z1 z2 st4 where z1: "open_rt X n st = Inr z1"
    and z2: "open_rt X (take 127 (bus_to_prefix bus @ p)) (snd z1) = Inr z2"
    and st4: "set_iface a (\<lambda>i. i\<lparr>i_bus := bus, i_managed := managed, i_name := iname, i_uri := iuri,
           i_id := fst z1, i_ep := fst z2,
           i_handler := Some (if managed \<noteq> 0 then Managed_Handler else Raw_Handler)\<rparr>)
         ((snd z2)\<lparr>rt := snd (rteipc_xfer_setcb n (Some 0) a (rt (snd z2)))\<rparr>) = Inr st4"
    and st': "(if fst z1 < 0 \<or> fst z2 < 0 then Inr (-1, st4)
       else and_then (rteipc_bind (levent X) (fst z1) (fst z2) (rt st4)) (\<lambda>z.
         Inr (if fst z < 0 then -1 else 0, st4\<lparr>rt := snd z\<rparr>))) = Inr (r, st')"
    unfolding iface_build_def Let_def and_then_eq_Inr deref_eq_Inr case_prod_beta option.inject n sum.inject by blast
  have "rteipc_open X n (rt st) = Inr (fst z1, rt (snd z1))"
      "rteipc_open X (take 127 (bus_to_prefix bus @ p)) (rt (snd z1)) = Inr (fst z2, rt (snd z2))"
    using z1 z2 by (auto simp: open_rt_def and_then_eq_Inr)
  moreover have "\<exists>j. rt st' = snd (rteipc_xfer_setcb n (Some 0) a (rt (snd z2))) \<and> ifaces st' a = Some j \<and>
       i_id j = fst z1 \<and> i_ep j = fst z2 \<and> r = -1" if "fst z1 < 0"
    using st' st4 that by (auto simp: set_iface_eq_Inr)
  ultimately show ?thesis by blast
qed

text \<open>Closing an endpoint that has just been opened for a device takes no loop away.\<close>

lemma opened_device_close:
  assumes inv: "sys_inv (osys X) z" "environment_ok X" "length (registered (ep_tbl z)) < capacity (ep_tbl z)"
    and op: "rteipc_open X uri z = Inr (e, s)" "0 \<le> e"
    and t: "\<And>t path. uri_target uri = Inr (Some (t, path)) \<Longrightarrow> t \<noteq> EP_LOOP"
    and same: "cores s1 = cores s" "find_endpoint s1 = find_endpoint s" and close: "rteipc_close X e s1 = Inr s2"
  shows "lo_list s2 = lo_list s1"
proof -
  from open_success [OF inv op] obtain t b c where "opened_as X uri z e s t b c" by blast
  then have "find_endpoint s e = Some b" "cores s b = Some c" "ep_type c = t"
      "\<exists>path. uri_target uri = Inr (Some (t, path))"
    by (auto simp: opened_as_def)
  with t have "find_endpoint s1 e = Some b" "cores s1 b = Some c" "ep_type c \<noteq> EP_LOOP" using same by auto
  then show ?thesis by (intro close_device_loops [OF close]) auto
qed

text \<open>
  What a new interface leaves behind when its name is in use: it has failed, but the loop of the
  name calls back with it.
\<close>

lemma twin_takes_callback:
  assumes ok: "sys_inv (osys X) (rt st)" "environment_ok X"
      "length (registered (ep_tbl (rt st))) + 1 < capacity (ep_tbl (rt st))"
    and name: "read_str name = Inr n" "CHR '':'' \<notin> set n" "lookup_lo n (rt st) = Some lo"
    and bus: "bus \<in> int ` {EP_IPC, EP_INET, EP_TTY, EP_GPIO, EP_SPI, EP_I2C, EP_SYSFS}"
    and build: "iface_build X a name path bus managed st = Inr (r, st1)"
  shows "\<exists>j. r = -1 \<and> ifaces st1 a = Some j \<and> i_id j = -1 \<and>
    find_loop (lo_addr lo) (rt st1) = Inr (lo\<lparr>lo_cb := Some 0, lo_arg := a\<rparr>) \<and>
    (\<forall>st2. close_rt X (i_ep j) st1 = Inr st2 \<longrightarrow> lo_list (rt st2) = lo_list (rt st1))"
proof -
  have env: "os_ok (osys X)" "lev_ok (levent X)" "mem X 128" "mem X 32" using ok(2) by (auto simp: environment_ok_def)
  have loops: "loops_ok (osys X) (rt st)" using data_ok_loops [OF sys_invD(2) [OF ok(1)]] .
  have "lo \<in> set (lo_list (rt st))" "lo_name lo = n" using lookup_lo_Some [OF name(3)] by simp_all
  moreover have "n = c_string name" using name(1) by (auto simp: read_str_def split: if_splits)
  ultimately have n: "length n < 16" "NUL \<notin> set n" "lookup_lo n (rt st) \<noteq> None"
    using loops name(3) c_string_no_nul by (auto simp: loops_ok_def)
  from iface_build_opens [OF build name(1)] obtain q p z1 e s2 where
    first: "rteipc_open X n (rt st) = Inr (q, z1)"
    and second: "rteipc_open X (take 127 (bus_to_prefix bus @ p)) z1 = Inr (e, s2)"
    and st1: "q < 0 \<Longrightarrow> \<exists>j. rt st1 = snd (rteipc_xfer_setcb n (Some 0) a s2) \<and> ifaces st1 a = Some j \<and>
      i_id j = q \<and> i_ep j = e \<and> r = -1" by blast
  note one = open_used_name [OF first name(2) n(2,1,3)]
  note t = bus_target [OF bus]
  have two: "lo_list s2 = lo_list (rt st)" using open_device_loops [OF env(1) second t] one(2) by simp
  from st1 one(1) obtain j where
    j: "rt st1 = snd (rteipc_xfer_setcb n (Some 0) a s2)" "ifaces st1 a = Some j" "i_id j = -1" "i_ep j = e" "r = -1"
    by auto
  have found: "find_loop (lo_addr lo) (rt st1) = Inr (lo\<lparr>lo_cb := Some 0, lo_arg := a\<rparr>)"
    unfolding j(1) using name(3) loops_okD(2) [OF loops]
    by (intro setcb_loop) (simp_all add: lookup_lo_def two)
  have z1: "sys_inv (osys X) z1" "length (registered (ep_tbl z1)) < capacity (ep_tbl z1)"
    using open_refines [OF ok(1) env(2) refl env(1,3,4), of n] ok(3) first one(1) by (auto simp: open_outcome_def)
  have same: "cores (rt st1) = cores s2" "find_endpoint (rt st1) = find_endpoint s2"
    unfolding j(1) by (auto simp: rteipc_xfer_setcb_def set_loop_def find_endpoint_def split: option.split)
  have "lo_list (rt st2) = lo_list (rt st1)" if "close_rt X e st1 = Inr st2" for st2
    using that opened_device_close [OF z1(1) ok(2) z1(2) second _ t same]
    by (auto simp: close_rt_def and_then_eq_Inr split: if_splits)
  with j found show ?thesis by blast
qed

text \<open>
  C39: opening a name that is in use. Whatever the device of the new interface, and whether or not
  it can be opened, the open reports an error and frees the interface it made; but by then it has
  made this interface the argument of the callback of the loop that had the name before: from then
  on, data for the old interface is handled by a freed one.
\<close>

theorem duplicate_open_dangles:
  assumes d: "interfaces d = f # fs" "0 < nr_intf d" "domain_lookup_by_id (if_domain f) st = Some k"
    and ok: "net_ok (net_of st)" "sys_inv (osys X) (rt st)" "environment_ok X" "mem X 216"
      "length (registered (ep_tbl (rt st))) + 1 < capacity (ep_tbl (rt st))"
    and name: "read_str (if_name f) = Inr n" "CHR '':'' \<notin> set n" "n \<noteq> RTEMGRD_CTLPORT" "lookup_lo n (rt st) = Some lo"
    and bus: "if_bus f \<in> int ` {EP_IPC, EP_INET, EP_TTY, EP_GPIO, EP_SPI, EP_I2C, EP_SYSFS}"
    and run: "do_rtecmd_open X d st = Inr (r, d', st')"
  shows "r = -1 \<and> loop_message X Y F (lo_addr lo) len msg st' = Inl Dangling"
proof -
  obtain a st0 where new: "iface_new X k st = (Some a, st0)" using ok(4) by (simp add: iface_new_def Let_def)
  note fresh = iface_new_net [OF ok(1) new domain_lookup_less [OF d(3)]]
  have rt0: "rt st0 = rt st" using new by (auto simp: iface_new_def Let_def split: if_splits)
  from run d new obtain r1 st1 where build:
      "iface_build X a (if_name f) (if_path f) (if_bus f) (if_managed f) st0 = Inr (r1, st1)"
    and rest: "(if r1 \<noteq> 0 then and_then (iface_free X (Some a) st1) (\<lambda>st3. Inr (-1, d, st3))
                 else Inr (0, d, st1)) = Inr (r, d', st')"
    by (auto simp: do_rtecmd_open_def Let_def and_then_eq_Inr split: if_splits)
  from twin_takes_callback [of X st0, unfolded rt0, OF ok(2,3,5) name(1,2,4) bus build] obtain j where
    j: "r1 = -1" "ifaces st1 a = Some j" "i_id j = -1"
    and found: "find_loop (lo_addr lo) (rt st1) = Inr (lo\<lparr>lo_cb := Some 0, lo_arg := a\<rparr>)"
    and kept: "\<And>st2. close_rt X (i_ep j) st1 = Inr st2 \<Longrightarrow> lo_list (rt st2) = lo_list (rt st1)" by blast
  from rest j(1) have r: "r = -1" and free: "iface_free X (Some a) st1 = Inr st'" by (auto simp: and_then_eq_Inr)
  from free j(2,3) obtain st2 where closed: "close_rt X (i_id j) st1 = Inr st1" "close_rt X (i_ep j) st1 = Inr st2"
    by (auto simp: iface_free_def and_then_eq_Inr close_rt_def)
  have found2: "find_loop (lo_addr lo) (rt st2) = Inr (lo\<lparr>lo_cb := Some 0, lo_arg := a\<rparr>)"
    using found kept [OF closed(2)] by (simp add: find_loop_def)
  have net1: "net_of st1 = net_add k (if_managed f \<noteq> 0) (c_string (if_name f)) (net_of st)"
    using iface_build_net(1) [OF build] fresh(1,2,4)
    by (auto simp: net_add_def net_of_simps intro!: net.equality)
  have ok1: "net_ok (net_of st1)"
    unfolding net1 by (rule net_add_ok [OF ok(1)]) (simp add: net_of_simps domain_lookup_less [OF d(3)])
  from iface_free_net [OF ok1 j(2) closed] free have gone: "net_of st' = net_remove a (net_of st1)" "rt st' = rt st2"
    by auto
  then have "a \<notin> nodes (net_of st')" by (simp add: net_remove_def)
  then have "ifaces st' a = None" by (auto simp: net_of_simps)
  with found2 gone(2) lookup_lo_Some [OF name(4)] r name(3) show ?thesis
    by (simp add: loop_message_def default_domain_handler_def)
qed


text \<open>A daemon in whose library the loop \<open>b\<close> is open, and a second \<open>b\<close>, on a device that can be opened.\<close>

definition sample_named :: daemon where
  "sample_named = sample_daemon\<lparr>rt :=
     (case api_exec sample_outside idle_sys [Api_Open ''b''] of None \<Rightarrow> idle_sys | Some (rs, s) \<Rightarrow> s)\<rparr>"

definition sample_twin :: rtemgr_intf where
  "sample_twin = new_intf\<lparr>if_name := strncpy 16 ''b'', if_bus := int EP_I2C, if_path := strncpy 128 ''/dev/i2c-1''\<rparr>"

lemma sample_named_ok: "sys_inv (osys sample_outside) (rt sample_named)"
proof -
  have "api_exec sample_outside idle_sys [Api_Open ''b''] \<noteq> None" by code_simp
  then obtain rs s where run: "api_exec sample_outside idle_sys [Api_Open ''b''] = Some (rs, s)" by auto
  from api_run_refines [OF sample_environment api_exec_run [OF run] idle_sys_inv(1)] run
  show ?thesis by (simp add: sample_named_def)
qed

abbreviation (input) closes_device :: "daemon \<Rightarrow> bool" where
  "closes_device st \<equiv> list_ex (\<lambda>c. case c of Sys_Close fd \<Rightarrow> 0 \<le> fd | _ \<Rightarrow> False) (os_calls (rt st))"

theorem duplicate_open_dangles_witness:
  "\<exists>lo d d' st'. lookup_lo ''b'' (rt sample_named) = Some lo \<and>
     do_rtecmd_open sample_outside d sample_named = Inr (-1, d', st') \<and> closes_device st' \<and>
     loop_message sample_outside sample_libs (\<lambda>_. None) (lo_addr lo) 1 [7] st' = Inl Dangling"
proof -
  let ?X = sample_outside and ?d = "\<lparr>cmd = no_cmd, nr_intf = 1, interfaces = [sample_twin]\<rparr>"
  have "(case do_rtecmd_open ?X ?d sample_named of Inl e \<Rightarrow> False | Inr (r, d', st') \<Rightarrow> closes_device st')"
    by code_simp
  then obtain r d' st' where run: "do_rtecmd_open ?X ?d sample_named = Inr (r, d', st')" "closes_device st'"
    by (auto split: sum.splits)
  have "lookup_lo ''b'' (rt sample_named) \<noteq> None" by code_simp
  then obtain lo where lo: "lookup_lo ''b'' (rt sample_named) = Some lo" by blast
  have d: "interfaces ?d = sample_twin # []" "0 < nr_intf ?d" "domain_lookup_by_id (if_domain sample_twin) sample_named = Some 0"
    by (simp_all add: domain_lookup_by_id_def sample_twin_def new_intf_def sample_named_def sample_daemon_def)
  have "net_of sample_named = net_of sample_daemon" by (simp add: sample_named_def)
  then have ok: "net_ok (net_of sample_named)" using sample_daemon_ok by simp
  have mem: "mem ?X 216" by (simp add: sample_outside_def)
  have room: "length (registered (ep_tbl (rt sample_named))) + 1 < capacity (ep_tbl (rt sample_named))" by code_simp
  have name: "read_str (if_name sample_twin) = Inr ''b''" "CHR '':'' \<notin> set ''b''" "''b'' \<noteq> RTEMGRD_CTLPORT"
    by (simp_all add: sample_twin_def read_strncpy RTEMGRD_CTLPORT_def)
  have bus: "if_bus sample_twin \<in> int ` {EP_IPC, EP_INET, EP_TTY, EP_GPIO, EP_SPI, EP_I2C, EP_SYSFS}"
    by (simp add: sample_twin_def)
  from duplicate_open_dangles [OF d ok sample_named_ok sample_environment mem room name lo bus run(1)] run lo
  show ?thesis by blast
qed

end
