(* ===== verification/Rtemgr_Client.thy ===== *)
theory Rtemgr_Client
  imports Rtemgr_Cli Rtemgrd_Control
begin

section \<open>From the command line to the reply (src/src/rtemgr/rtemgr.c)\<close>

subsection \<open>The subcommands\<close>

text \<open>
  The table of subcommands: the number of the action and its parser, if it has one. The entry
  behind the last one stands for an unknown command.
\<close>

definition RTECMD_MAX :: int where
  "RTECMD_MAX = 8"

definition rtemgr_actions :: "libs \<Rightarrow> blocks \<Rightarrow> (string \<times> int \<times> sub_parser option) list" where
  "rtemgr_actions Y R =
     [([], 0, None),
      (''list'', RTECMD_LIST, None),
      (''open'', RTECMD_OPEN, Some (open_parser R)),
      (''close'', RTECMD_CLOSE, Some (close_parser Y R)),
      (''route'', RTECMD_ROUTE, Some (route_parser Y R)),
      (''forget'', RTECMD_FORGET, Some (forget_parser R)),
      (''xfer'', RTECMD_XFER, Some (xfer_parser R)),
      (''cat'', RTECMD_CAT, Some (cat_parser R))]"

definition get_rtemgr_action :: "libs \<Rightarrow> blocks \<Rightarrow> string \<Rightarrow> int \<times> sub_parser option" where
  "get_rtemgr_action Y R c =
     (case find (\<lambda>e. fst e = c) (rtemgr_actions Y R) of
        None \<Rightarrow> (RTECMD_MAX, None)
      | Some e \<Rightarrow> snd e)"


subsection \<open>Options and words (subcmd_opt_check)\<close>

text \<open>The local variables of the loop over the options; \<open>None\<close> in a step is the exit on \<open>?\<close>.\<close>

record cmdline =
  cl_data :: rtemgr_data
  cl_sub :: string
  cl_attr :: "string option"
  cl_value :: "string option"

definition copy_text :: "libs \<Rightarrow> string \<Rightarrow> string option" where
  "copy_text Y s = (if heap Y (length s + 1) then Some s else None)"

definition first_intf :: "(rtemgr_intf \<Rightarrow> rtemgr_intf) \<Rightarrow> rtemgr_data \<Rightarrow> rtemgr_data" where
  "first_intf f d = d\<lparr>interfaces := (interfaces d)[0 := f (interfaces d ! 0)]\<rparr>"

definition take_option :: "libs \<Rightarrow> char \<times> string \<Rightarrow> cmdline \<Rightarrow> cmdline option" where
  "take_option Y opt l =
     (let (c, optarg) = opt; d = cl_data l in
      if c = CHR ''?'' then None
      else if c = CHR ''n'' then
        Some (l\<lparr>cl_data := first_intf (\<lambda>f. f\<lparr>if_name := strncpy 16 optarg\<rparr>) d\<rparr>)
      else if c = CHR ''t'' then
        Some (l\<lparr>cl_data := first_intf (\<lambda>f. f\<lparr>if_bus := str_to_bus optarg\<rparr>) d\<rparr>)
      else if c = CHR ''o'' then Some (l\<lparr>cl_sub := strncpy 256 optarg\<rparr>)
      else if c = CHR ''a'' then
        Some (l\<lparr>cl_data := d\<lparr>cmd := (cmd d)\<lparr>extra_addr := ucast (strtoul 16 optarg)\<rparr>\<rparr>\<rparr>)
      else if c = CHR ''r'' then Some (l\<lparr>cl_data := d\<lparr>cmd := (cmd d)\<lparr>extra_rsize := 1\<rparr>\<rparr>\<rparr>)
      else if c = CHR ''k'' then Some (l\<lparr>cl_attr := copy_text Y optarg\<rparr>)
      else if c = CHR ''w'' then Some (l\<lparr>cl_value := copy_text Y optarg\<rparr>)
      else Some l)"

fun take_options :: "libs \<Rightarrow> (char \<times> string) list \<Rightarrow> cmdline \<Rightarrow> cmdline option" where
  "take_options Y [] l = Some l"
| "take_options Y (opt # opts) l = Option.bind (take_option Y opt l) (take_options Y opts)"

text \<open>The value: \<open>attr=value\<close> printed into 256 characters, or whichever of the two there is.\<close>

definition take_value :: "libs \<Rightarrow> cmdline \<Rightarrow> rtemgr_data" where
  "take_value Y l =
     (let d = cl_data l;
          v = (case (cl_attr l, cl_value l) of
                 (Some a, Some b) \<Rightarrow> copy_text Y (take 255 (a @ ''='' @ b))
               | (Some a, None) \<Rightarrow> Some a
               | (None, b) \<Rightarrow> b)
      in case v of
           None \<Rightarrow> d
         | Some s \<Rightarrow> d\<lparr>cmd := (cmd d)\<lparr>val_v := Some (bytes_of s @ [0]), val_s := of_nat (length s)\<rparr>\<rparr>)"

fun make_args :: "libs \<Rightarrow> blocks \<Rightarrow> string list \<Rightarrow> argument list \<Rightarrow> argument list option outcome" where
  "make_args Y R [] l = Inr (Some l)"
| "make_args Y R (w # ws) l =
     or_fail (make_arg Y R [] w) (\<lambda>a. make_args Y R ws (l @ [a]))"

text \<open>
  \<open>None\<close> where the client exits. \<open>opts\<close> is what \<open>getopt_long\<close> returns, with the arguments;
  \<open>rest\<close> are the words behind the subcommand.
\<close>

definition subcmd_opt_check ::
  "libs \<Rightarrow> blocks \<Rightarrow> int \<times> sub_parser option \<Rightarrow> (char \<times> string) list \<Rightarrow> string list \<Rightarrow>
   rtemgr_data option outcome" where
  "subcmd_opt_check Y R entry opts rest =
     or_fail
       (Inr (Option.bind (rtemgr_data_alloc Y)
         (\<lambda>d. rtemgr_data_alloc_interface Y (d\<lparr>cmd := (cmd d)\<lparr>action := fst entry\<rparr>\<rparr>)))) (\<lambda>d.
     or_fail
       (Inr (take_options Y opts
         \<lparr>cl_data = d, cl_sub = replicate 256 NUL, cl_attr = None, cl_value = None\<rparr>)) (\<lambda>l.
     or_fail (make_args Y R rest []) (\<lambda>args.
     and_then (read_str (cl_sub l)) (\<lambda>subopts.
     and_then (parse_opts Y R subopts []) (\<lambda>(err, olist).
     if err \<noteq> 0 then Inr None
     else
       or_fail
         (case snd entry of
            None \<Rightarrow> Inr (Some (take_value Y l))
          | Some parser \<Rightarrow> parser (take_value Y l) args olist) (\<lambda>d1.
       and_then (remove_arg_list R olist) (\<lambda>_.
       and_then (remove_arg_list R args) (\<lambda>_. Inr (Some d1)))))))))"


subsection \<open>The reply\<close>

text \<open>\<open>%-n.ns\<close> of an array of at least \<open>n\<close> characters: cut to \<open>n\<close> and filled up with spaces.\<close>

definition cell :: "nat \<Rightarrow> string \<Rightarrow> string" where
  "cell n buf = (let t = take n (c_string buf) in t @ replicate (n - length t) CHR '' '')"

definition list_line :: "rtemgr_intf \<Rightarrow> string outcome" where
  "list_line f =
     and_then (read_str (if_partner f)) (\<lambda>partner.
     Inr (cell 16 (if_name f) @ '' '' @ cell 6 (bus_to_str (if_bus f)) @ '' '' @ cell 36 (if_path f) @ '' '' @
       cell 16 (if if_managed f \<noteq> 0 then ''**'' else if partner \<noteq> [] then partner else ''--'') @
       [CHR 0x0A]))"

fun list_lines :: "rtemgr_intf list \<Rightarrow> string outcome" where
  "list_lines [] = Inr []"
| "list_lines (f # fs) =
     (if if_id f = 0 then list_lines fs
      else and_then (list_line f) (\<lambda>s. and_then (list_lines fs) (\<lambda>t. Inr (s @ t))))"

definition list_head :: string where
  "list_head = cell 16 ''NAME'' @ '' '' @ cell 6 ''BUS'' @ '' '' @ cell 36 ''PATH'' @ '' '' @
     cell 16 ''ROUTE'' @ [CHR 0x0A]"

definition quoted :: "string \<Rightarrow> string outcome" where
  "quoted buf = and_then (read_str buf) (\<lambda>s. Inr (CHR 0x27 # s @ [CHR 0x27]))"

text \<open>\<open>%.*s\<close> of the value, whose precision is the low half of its size as an \<open>int\<close>.\<close>

definition shown_value :: "rtecmd \<Rightarrow> string outcome" where
  "shown_value c =
     (case val_v c of
        None \<Rightarrow> Inl Null_Deref
      | Some v \<Rightarrow>
          (let n = as_int (val_s c); t = take (nat n) (text_of v) in
           if n \<ge> 0 \<and> (nat n \<le> length v \<or> NUL \<in> set t) then Inr (c_string t)
           else read_str (text_of v)))"

definition report :: "rtemgr_data \<Rightarrow> string \<Rightarrow> string \<Rightarrow> string outcome" where
  "report d good bad =
     and_then (quoted (if_name (hd (interfaces d)))) (\<lambda>n.
     Inr ((if cmd_error (cmd d) = 0 then good else bad) @ '' '' @ n @ ''.'' @ [CHR 0x0A]))"

text \<open>What \<open>reply_callback\<close> prints for a packet with interfaces.\<close>

definition reply_text :: "rtemgr_data \<Rightarrow> string outcome" where
  "reply_text d =
     (let act = action (cmd d); ok = (cmd_error (cmd d) = 0); fs = interfaces d in
      if act = RTECMD_LIST then
        (if length fs < nat (nr_intf d) then Inl Out_Of_Bounds
         else and_then (list_lines (take (nat (nr_intf d)) fs)) (\<lambda>s. Inr (list_head @ s)))
      else if act = RTECMD_OPEN then report d ''Successfully created'' ''Failed to create''
      else if act = RTECMD_CLOSE then
        Inr ((if ok then ''Successfully closed'' else ''Failed to close'') @ ''.'' @ [CHR 0x0A])
      else if act = RTECMD_ROUTE then
        (if nr_intf d = 2 then
           (if length fs < 2 then Inl Out_Of_Bounds
            else
              and_then (quoted (if_name (fs ! 0))) (\<lambda>a.
              and_then (quoted (if_name (fs ! 1))) (\<lambda>b.
              Inr ((if ok then ''Successfully bound '' else ''Failed to bind '') @ a @ '' and '' @ b @
                ''.'' @ [CHR 0x0A]))))
         else Inr (''Unknown error occured.'' @ [CHR 0x0A]))
      else if act = RTECMD_FORGET then report d ''Successfully unbound'' ''Failed to unbind''
      else if act = RTECMD_XFER then
        report d ''Data successfully transfered to'' ''Failed to transfer data to''
      else if act = RTECMD_CAT then
        (if ok then and_then (shown_value (cmd d)) (\<lambda>s. Inr (s @ [CHR 0x0A]))
         else
           and_then (quoted (if_name (hd fs))) (\<lambda>n. Inr (''Failed to read data from '' @ n @ ''.'' @ [CHR 0x0A])))
      else Inr [])"

text \<open>
  The callback of the connection: the text on standard output, and whether the event loop is
  broken off, which a packet that cannot be parsed does not do.
\<close>

definition reply_callback :: "libs \<Rightarrow> nat \<Rightarrow> byte list \<Rightarrow> (string \<times> bool) outcome" where
  "reply_callback Y len msg =
     and_then (taken len msg) (\<lambda>bs.
     and_then (rtemgr_data_parse Y bs) (\<lambda>r.
     (case r of
        None \<Rightarrow> Inr ([], False)
      | Some d \<Rightarrow>
          and_then (if interfaces d = [] then Inr [] else reply_text d) (\<lambda>out.
          (case rtemgr_data_cleanup_interfaces d of
             None \<Rightarrow> Inl Hangs
           | Some _ \<Rightarrow> Inr (out, True))))))"


text \<open>After ten seconds without a reply: the text printed, and that the loop is broken off.\<close>

definition timeout_handler :: "string \<times> bool" where
  "timeout_handler = (''Timed out.'' @ [CHR 0x0A], True)"


subsection \<open>The program\<close>

text \<open>
  \<open>new\<close> is the event base, \<open>None\<close> where the base or its timer cannot be made; \<open>help\<close> whether
  \<open>-h\<close> comes first; \<open>words\<close> are the arguments that are not options, from the subcommand on, and
  \<open>opts\<close> the options of the subcommand; \<open>run\<close> is the event loop. The callback of the reply is
  number 0, its argument the base. Without any word, \<open>subcmd\<close> is read uninitialised. The result
  is the exit status and the state of the library.
\<close>

definition request_reply ::
  "client \<Rightarrow> libs \<Rightarrow> nat \<Rightarrow> (cn \<Rightarrow> cn outcome) \<Rightarrow> rtemgr_data \<Rightarrow> cn \<Rightarrow> (int \<times> cn) outcome" where
  "request_reply C Y b run d st =
     and_then (rteipc_connect C (''ipc://'' @ RTEMGRD_CTLPORT) st) (\<lambda>(ctx, st1).
     if ctx < 0 then Inr (1, st1)
     else
       and_then (rtemgr_data_emit Y d 4096) (\<lambda>out.
       (case out of
          None \<Rightarrow> Inr (-1, st1)
        | Some bytes \<Rightarrow>
            and_then (rteipc_send C ctx bytes st1) (\<lambda>(_, st2).
            and_then (rteipc_setcb ctx (Some 0) None b 0 st2) (\<lambda>(_, st3).
            and_then (rteipc_dispatch False st3) (\<lambda>st4.
            and_then (run st4) (\<lambda>st5.
            and_then (rteipc_shutdown st5) (\<lambda>st6. Inr (0, st6)))))))))"

definition rtemgr ::
  "client \<Rightarrow> libs \<Rightarrow> blocks \<Rightarrow> nat option \<Rightarrow> bool \<Rightarrow> string list \<Rightarrow> (char \<times> string) list \<Rightarrow>
   (cn \<Rightarrow> cn outcome) \<Rightarrow> cn \<Rightarrow> (int \<times> cn) outcome" where
  "rtemgr C Y R new help words opts run st =
     (case new of
        None \<Rightarrow> Inr (1, st)
      | Some b \<Rightarrow>
          (let st0 = rteipc_init (Some b) None (st\<lparr>live_bases := insert b (live_bases st)\<rparr>) in
           if help then Inr (0, st0)
           else
             (case words of
                [] \<Rightarrow> Inl Uninitialised
              | c # rest \<Rightarrow>
                  (let entry = get_rtemgr_action Y R c in
                   if fst entry = RTECMD_MAX then Inr (1, st0)
                   else
                     and_then (subcmd_opt_check Y R entry opts rest) (\<lambda>r.
                     (case r of
                        None \<Rightarrow> Inr (1, st0)
                      | Some d \<Rightarrow> request_reply C Y b run d st0))))))"

end
