(* ===== verification/Rtemgr_Request.thy ===== *)
theory Rtemgr_Request
  imports Rtemgr_Client
begin

section \<open>What the command line client sends\<close>

text \<open>
  Blocks of arguments are too small by one and their unwritten parts are freed; whatever packet
  the client still builds is the one that its words stand for.
\<close>

subsection \<open>Argument blocks\<close>

lemma remove_arg_list_eq:
  "remove_arg_list R as =
    (if zeroed R \<or> (\<forall>a \<in> set as. arg_key a \<noteq> None \<and> arg_val a \<noteq> None) then Inr () else Inl Uninitialised)"
  by (induction as) (auto simp: remove_arg_def pointer_def)

lemma make_args_words:
  assumes "make_args Y R ws l = Inr (Some as)"
  shows "\<exists>bs. as = l @ bs \<and> length bs = length ws \<and> (\<forall>a \<in> set bs. arg_key a = None)"
  using assms
proof (induction ws arbitrary: l)
  case (Cons w ws)
  then obtain a where a: "make_arg Y R [] w = Inr (Some a)" "make_args Y R ws (l @ [a]) = Inr (Some as)"
    by (auto simp: or_fail_eq_Some)
  from a(1) have "arg_key a = None"
    by (auto simp: make_arg_def copy_arg_def and_then_eq_Inr split: if_splits option.splits)
  with Cons.IH [OF a(2)] show ?case by auto
qed simp

lemma parsers_need_words:
  "open_parser R d [] os \<noteq> Inr (Some d')" "close_parser Y R d [] os \<noteq> Inr (Some d')"
  "route_parser Y R d [] os \<noteq> Inr (Some d')" "forget_parser R d [] os \<noteq> Inr (Some d')"
  "xfer_parser R d [] os \<noteq> Inr (Some d')" "cat_parser R d [] os \<noteq> Inr (Some d')"
  by (auto simp: open_parser_def close_parser_def route_parser_def forget_parser_def xfer_parser_def
      cat_parser_def and_then_eq_Inr split: list.splits if_splits)

lemma action_parsers:
  assumes "get_rtemgr_action Y R c = (n, Some p)"
  shows "p \<in> {open_parser R, close_parser Y R, route_parser Y R, forget_parser R, xfer_parser R, cat_parser R}"
proof -
  have "find (\<lambda>e. fst e = c) (rtemgr_actions Y R) = None \<or>
      (\<exists>e \<in> set (rtemgr_actions Y R). find (\<lambda>e. fst e = c) (rtemgr_actions Y R) = Some e)"
    by (cases "find (\<lambda>e. fst e = c) (rtemgr_actions Y R)") (auto simp: find_Some_iff)
  then obtain e where "e \<in> set (rtemgr_actions Y R)" "snd e = (n, Some p)"
    using assms by (auto simp: get_rtemgr_action_def)
  then show ?thesis by (auto simp: rtemgr_actions_def)
qed

text \<open>
  C37: the client frees pointers that it never wrote. Unless the memory that malloc returns
  happens to be zero, a subcommand that takes words never gets as far as sending its request:
  it exits with an error, or it reads an uninitialised or otherwise invalid pointer.
\<close>

theorem client_frees_uninitialised:
  assumes "\<not> zeroed R" and "get_rtemgr_action Y R c = (n, parser)" and "parser \<noteq> None \<or> rest \<noteq> []"
  shows "subcmd_opt_check Y R (n, parser) opts rest \<noteq> Inr (Some d)"
proof
  assume "subcmd_opt_check Y R (n, parser) opts rest = Inr (Some d)"
  then obtain l args olist d1 where args: "make_args Y R rest [] = Inr (Some args)"
    and parsed: "(case parser of None \<Rightarrow> Inr (Some (take_value Y l)) | Some p \<Rightarrow> p (take_value Y l) args olist) =
      Inr (Some d1)" and "remove_arg_list R args = Inr ()"
    by (auto simp: subcmd_opt_check_def or_fail_eq_Some and_then_eq_Inr split: if_splits)
  from this(3) assms(1) have keys: "\<forall>a \<in> set args. arg_key a \<noteq> None"
    by (auto simp: remove_arg_list_eq split: if_splits)
  from make_args_words [OF args] have words: "length args = length rest" "\<forall>a \<in> set args. arg_key a = None" by auto
  from keys words(2) have "args = []" by (cases args) auto
  with words(1) assms(3) obtain p where "parser = Some p" by auto
  with action_parsers [of Y R c n p] assms(2) parsed \<open>args = []\<close> parsers_need_words show False by auto
qed

text \<open>
  The blocks are one byte too small. With an allocator that gives exactly what it is asked
  for, the first word or option that is copied is written past the end of its block.
\<close>

theorem client_overruns_blocks:
  assumes "\<And>n. heap Y n" and "\<And>n. room R n = n" and "w \<noteq> []" and "NUL \<notin> set w"
  shows "make_arg Y R [] w = Inl Out_Of_Bounds \<and> make_arg Y R w v = Inl Out_Of_Bounds"
  using assms by (simp add: make_arg_def copy_arg_def)


subsection \<open>Packets of words\<close>

definition word_arg :: "string \<Rightarrow> argument" where
  "word_arg w = \<lparr>arg_key = None, arg_val = if w = [] then None else Some w\<rparr>"

lemma make_arg_word: "make_arg Y R [] w = Inr (Some a) \<Longrightarrow> a = word_arg w"
  by (auto simp: make_arg_def copy_arg_def word_arg_def and_then_eq_Inr split: if_splits option.splits)

lemma make_args_word_args: "make_args Y R ws l = Inr (Some as) \<Longrightarrow> as = l @ map word_arg ws"
  by (induction ws arbitrary: l) (fastforce simp: or_fail_eq_Some dest: make_arg_word)+

text \<open>Memory for everything that is asked for, with room for the terminators of these words.\<close>

definition roomy :: "libs \<Rightarrow> blocks \<Rightarrow> string list \<Rightarrow> bool" where
  "roomy Y R ws \<longleftrightarrow> (\<forall>n. heap Y n) \<and> (\<forall>w \<in> set ws. length w < room R (length w))"

lemma make_args_roomy: "roomy Y R ws \<Longrightarrow> make_args Y R ws l = Inr (Some (l @ map word_arg ws))"
  by (induction ws arbitrary: l)
    (auto simp: roomy_def make_arg_def copy_arg_def word_arg_def not_less Suc_le_eq)

lemma remove_zeroed: "zeroed R \<Longrightarrow> remove_arg_list R as = Inr ()"
  by (simp add: remove_arg_list_eq)

lemma the_text_word: "w \<noteq> [] \<Longrightarrow> the_text R (arg_val (word_arg w)) = Inr w"
  by (simp add: the_text_def pointer_def word_arg_def)

lemma first_interface:
  "Option.bind (rtemgr_data_alloc Y)
      (\<lambda>d. rtemgr_data_alloc_interface Y (d\<lparr>cmd := (cmd d)\<lparr>action := n\<rparr>\<rparr>)) =
    (if heap Y 48 \<and> heap Y 176 then Some (packet n [[]]) else None)"
  by (simp add: rtemgr_data_alloc_def rtemgr_data_alloc_interface_def packet_def no_cmd_def new_intf_def strncpy_def)

text \<open>A command line without options: only the words matter.\<close>

abbreviation parsed_words :: "blocks \<Rightarrow> int \<Rightarrow> sub_parser option \<Rightarrow> string list \<Rightarrow> rtemgr_data option outcome" where
  "parsed_words R n parser ws \<equiv>
     (case parser of None \<Rightarrow> Inr (Some (packet n [[]])) | Some p \<Rightarrow> p (packet n [[]]) (map word_arg ws) [])"

lemma no_suboptions: "read_str (replicate 256 NUL) = Inr []"
  by (simp add: read_str_def c_string_def)

lemma subcmd_made:
  assumes "subcmd_opt_check Y R (n, parser) [] ws = Inr (Some d)"
  shows "parsed_words R n parser ws = Inr (Some d)"
  using assms
  by (auto simp: subcmd_opt_check_def first_interface no_suboptions take_value_def parse_opts.simps or_fail_eq_Some
      and_then_eq_Inr dest!: make_args_word_args split: if_splits option.splits)

lemma subcmd_words:
  assumes "roomy Y R ws" "zeroed R"
  shows "subcmd_opt_check Y R (n, parser) [] ws = parsed_words R n parser ws"
proof -
  have "or_fail r (\<lambda>d. Inr (Some d)) = r" for r :: "rtemgr_data option outcome"
    by (auto simp: or_fail_def and_then_def split: option.splits sum.splits)
  moreover have "heap Y k" for k using assms(1) by (simp add: roomy_def)
  ultimately show ?thesis
    by (simp add: subcmd_opt_check_def first_interface make_args_roomy [OF assms(1)] no_suboptions
        remove_zeroed [OF assms(2)] take_value_def parse_opts.simps cong: option.case_cong)
qed

text \<open>A parser gives \<open>x\<close>, unless memory runs out.\<close>

definition unless_full :: "libs \<Rightarrow> 'a option \<Rightarrow> 'a option outcome \<Rightarrow> bool" where
  "unless_full Y x r \<longleftrightarrow> r = Inr x \<or> r = Inr None \<and> \<not> (\<forall>n. heap Y n)"

lemma unless_full_same: "unless_full Y x (Inr x)"
  by (simp add: unless_full_def)

lemma unless_full_Some: "unless_full Y x (Inr (Some d)) \<Longrightarrow> x = Some d"
  by (simp add: unless_full_def)

lemma unless_full_roomy: "unless_full Y x r \<Longrightarrow> roomy Y R ws \<Longrightarrow> r = Inr x"
  by (auto simp: unless_full_def roomy_def)

lemma name_interface_word:
  assumes "w \<noteq> []" and "length names = k \<or> names = [[]] \<and> k = 0"
  shows "unless_full Y (Some (packet n (take k names @ [w]))) (name_interface Y R k (word_arg w) (packet n names))"
proof -
  have "new_intf = new_intf\<lparr>if_name := strncpy 16 []\<rparr>" by (simp add: new_intf_def strncpy_def)
  then have "name_interface Y R k (word_arg w) (packet n names) = Inr (if length names = k \<and> \<not> heap Y (176 * (k + 1))
      then None else Some (packet n (take k names @ [w])))"
    using assms the_text_word [OF assms(1), of R]
    by (auto simp: name_interface_def packet_def rtemgr_data_alloc_interface_def nth_append list_update_append)
  then show ?thesis by (auto simp: unless_full_def)
qed

lemma close_args_words:
  assumes "\<forall>w \<in> set ws. w \<noteq> []" and "length names = k \<or> names = [[]] \<and> k = 0"
  shows "unless_full Y (if k = 0 \<and> ws = [] then None else Some (packet n (if ws = [] then names else take k names @ ws)))
    (close_args Y R k (map word_arg ws) (packet n names))"
  using assms
proof (induction ws arbitrary: k names)
  case (Cons w ws)
  let ?names = "take k names @ [w]"
  have "length ?names = k + 1" using Cons.prems(2) by auto
  with Cons.IH [of ?names "k + 1"] Cons.prems have
    "unless_full Y (Some (packet n (take k names @ w # ws)))
      (close_args Y R (k + 1) (map word_arg ws) (packet n ?names))" by (cases "ws = []") simp_all
  with name_interface_word [of w names k Y n R] Cons.prems show ?case
    by (simp add: unless_full_def) (elim disjE conjE; simp)
qed (auto simp: unless_full_same)

lemma route_args_words:
  assumes "\<forall>w \<in> set ws. w \<noteq> []" and "length names = k \<or> names = [[]] \<and> k = 0" "k \<le> 2"
  shows "unless_full Y (if k + length ws = 2 then Some (packet n (if ws = [] then names else take k names @ ws)) else None)
    (route_args Y R k (map word_arg ws) (packet n names))"
  using assms
proof (induction ws arbitrary: k names)
  case (Cons w ws)
  let ?names = "take k names @ [w]"
  have "length ?names = k + 1" using Cons.prems(2) by auto
  with Cons.IH [of ?names "k + 1"] Cons.prems name_interface_word [of w names k Y n R] the_text_word [of w R]
  show ?case by (auto simp: unless_full_def)
qed (auto simp: unless_full_def)

lemma one_name_words:
  assumes "\<forall>w \<in> set ws. w \<noteq> []"
  shows "one_name R (map word_arg ws) (packet n [[]]) = Inr (if length ws = 1 then Some (packet n ws) else None)"
proof (cases ws)
  case (Cons w more)
  with assms the_text_word [of _ R] show ?thesis by (cases more) (simp_all add: packet_def)
qed simp

text \<open>The packet that a subcommand and its words ask for, \<open>None\<close> where the words are not accepted.\<close>

definition asked :: "string \<Rightarrow> string list \<Rightarrow> rtemgr_data option" where
  "asked c ws =
     (if c = ''list'' then Some (packet RTECMD_LIST [[]])
      else if c = ''close'' then (if ws = [] then None else Some (packet RTECMD_CLOSE ws))
      else if c = ''route'' then (if length ws = 2 then Some (packet RTECMD_ROUTE ws) else None)
      else if c = ''forget'' then (if length ws = 1 then Some (packet RTECMD_FORGET ws) else None)
      else if c = ''cat'' then (if length ws = 1 then Some (packet RTECMD_CAT ws) else None)
      else None)"

lemma words_asked:
  assumes "c \<in> {''list'', ''close'', ''route'', ''forget'', ''cat''}" and "\<forall>w \<in> set ws. w \<noteq> []"
    and "get_rtemgr_action Y R c = (n, parser)"
  shows "unless_full Y (asked c ws) (parsed_words R n parser ws)"
proof -
  have "unless_full Y (asked ''route'' ws) (route_args Y R 0 (map word_arg ws) (packet RTECMD_ROUTE [[]]))"
    using route_args_words [OF assms(2), of "[[]]" 0 Y RTECMD_ROUTE R] by (auto simp: asked_def split: if_splits)
  note words = this [unfolded asked_def, simplified] close_args_words [OF assms(2), of "[[]]" 0 Y RTECMD_CLOSE R]
    one_name_words [OF assms(2), of R]
  note parsers = close_parser_def route_parser_def forget_parser_def cat_parser_def
  from assms(1) consider "c = ''list''" | "c = ''close''" | "c = ''route''" | "c = ''forget''" | "c = ''cat''"
    by blast
  then show ?thesis
    by cases (use assms(3) words in \<open>auto simp: get_rtemgr_action_def rtemgr_actions_def asked_def
        unless_full_same parsers\<close>)
qed

text \<open>
  C21: the packets of the subcommands that take names. Whatever malloc does, a packet that the
  client builds is the one that the words ask for: \<open>close\<close> asks to close all the interfaces that
  are named, in order; \<open>route\<close>, \<open>forget\<close> and \<open>cat\<close> name the two, or the one, that they take, and
  make no packet of more or fewer; \<open>list\<close> sends a packet with one interface that has no name,
  whatever the words are. The packet is built, and the client exits exactly for the words that
  are not accepted, where there is memory, the blocks of these words are larger than asked, and
  the unwritten parts of blocks are zero, which the client relies on.
\<close>

theorem client_packets:
  assumes "c \<in> {''list'', ''close'', ''route'', ''forget'', ''cat''}" and "\<forall>w \<in> set ws. w \<noteq> []"
  shows "(\<forall>d. subcmd_opt_check Y R (get_rtemgr_action Y R c) [] ws = Inr (Some d) \<longrightarrow> asked c ws = Some d) \<and>
    (roomy Y R ws \<and> zeroed R \<longrightarrow>
       subcmd_opt_check Y R (get_rtemgr_action Y R c) [] ws = Inr (asked c ws))"
proof -
  obtain n parser where entry: "get_rtemgr_action Y R c = (n, parser)" by fastforce
  note parsed = words_asked [OF assms entry]
  have "asked c ws = Some d" if "subcmd_opt_check Y R (n, parser) [] ws = Inr (Some d)" for d
    using unless_full_Some [OF parsed [unfolded subcmd_made [OF that]]] .
  moreover have "subcmd_opt_check Y R (n, parser) [] ws = Inr (asked c ws)" if "roomy Y R ws" "zeroed R"
    using unless_full_roomy [OF parsed that(1)] subcmd_words [OF that, of n parser] by simp
  ultimately show ?thesis unfolding entry by blast
qed

theorem client_packets_witness:
  "subcmd_opt_check sample_libs \<lparr>room = (\<lambda>n. 24), zeroed = True\<rparr>
     (get_rtemgr_action sample_libs \<lparr>room = (\<lambda>n. 24), zeroed = True\<rparr> ''route'') [] [''a'', ''b''] =
   Inr (Some (packet RTECMD_ROUTE [''a'', ''b'']))"
proof -
  have "roomy sample_libs \<lparr>room = (\<lambda>n. 24), zeroed = True\<rparr> [''a'', ''b'']"
    by (simp add: roomy_def sample_libs_def)
  moreover have "''route'' \<in> {''list'', ''close'', ''route'', ''forget'', ''cat''}"
      "\<forall>w \<in> set [''a'', ''b'']. w \<noteq> []" by simp_all
  from client_packets [OF this, THEN conjunct2] have
    "roomy sample_libs R [''a'', ''b''] \<and> zeroed R \<Longrightarrow>
     subcmd_opt_check sample_libs R (get_rtemgr_action sample_libs R ''route'') [] [''a'', ''b''] =
     Inr (asked ''route'' [''a'', ''b''])" for R by (rule mp)
  moreover have "asked ''route'' [''a'', ''b''] = Some (packet RTECMD_ROUTE [''a'', ''b''])"
    by (simp add: asked_def)
  ultimately show ?thesis by (metis blocks.select_convs(2))
qed

theorem client_frees_uninitialised_witness:
  "subcmd_opt_check sample_libs \<lparr>room = Suc, zeroed = False\<rparr>
     (get_rtemgr_action sample_libs \<lparr>room = Suc, zeroed = False\<rparr> ''list'') [] [''-''] \<noteq>
   Inr (Some (packet RTECMD_LIST [[]]))"
proof -
  have "get_rtemgr_action sample_libs \<lparr>room = Suc, zeroed = False\<rparr> ''list'' = (RTECMD_LIST, None)"
    by (simp add: get_rtemgr_action_def rtemgr_actions_def)
  with client_frees_uninitialised [OF _ this, of "[''-'']"] show ?thesis by simp
qed

theorem client_overruns_blocks_witness:
  "make_arg sample_libs \<lparr>room = (\<lambda>n. n), zeroed = True\<rparr> [] ''uart'' = Inl Out_Of_Bounds"
  using client_overruns_blocks [of sample_libs "\<lparr>room = (\<lambda>n. n), zeroed = True\<rparr>" "''uart''"]
  by (simp add: sample_libs_def)

end
