(* ===== verification/Rtemgr_Paths.thy ===== *)
theory Rtemgr_Paths
  imports Rtemgr_Request
begin

section \<open>The paths of new endpoints\<close>

text \<open>
  The client encodes the options of \<open>open\<close> into the path of an endpoint; the daemon puts the
  protocol in front, \<open>rteipc_open\<close> cuts the URI apart again, and the endpoint scans its options
  out of the path.
\<close>

subsection \<open>Scanning what was printed\<close>

lemma is_int_small: "0 \<le> i \<Longrightarrow> i < 256 \<Longrightarrow> is_int i"
  by (simp add: is_int_def)

lemma takeWhile_digits:
  assumes "\<forall>c \<in> set ds. digit_in b c" "rest = [] \<or> \<not> digit_in b (hd rest)"
  shows "takeWhile (digit_in b) (ds @ rest) = ds"
  using assms by (cases rest) (simp_all add: takeWhile_append)

lemma scan_sign_base: "scan_sign (show_base 10 n @ rest) = (False, show_base 10 n @ rest)"
proof -
  obtain c cs where s: "show_base 10 n = c # cs" by (cases "show_base 10 n") auto
  moreover from s show_base_digits [of 10 n] have "digit_in 10 c" by auto
  ultimately show ?thesis using digit_not_special [of 10 c] by (simp add: scan_sign_def)
qed

lemma scan_num_show:
  assumes "rest = [] \<or> \<not> digit_in 10 (hd rest)"
  shows "scan_num 10 (show_d i @ rest) = Some (i, rest)"
  using takeWhile_digits [OF show_base_digits assms, of "nat (- i)"] takeWhile_digits [OF show_base_digits assms, of "nat i"]
  by (simp add: scan_num_def show_d_def scan_sign_base scan_sign_minus digits_val_show_base Let_def)

lemma scan_d_show:
  assumes "is_int i" "rest = [] \<or> \<not> digit_in 10 (hd rest)"
  shows "scan_d (show_d i @ rest) = Some (i, rest)"
  using assms(1) signed_take_bit_int_eq_self [of 31 i]
  by (simp add: scan_d_def scan_num_show [OF assms(2)] is_int_def max_def min_def)

lemma scan_not_stop:
  assumes "s \<noteq> []" "set s \<inter> set stops = {}" "rest = [] \<or> hd rest \<in> set stops"
  shows "scan_not stops (s @ rest) = Some (s, rest)"
proof -
  have "takeWhile (\<lambda>c. c \<notin> set stops) (s @ rest) = s"
    using assms(2,3) by (cases rest) (auto simp: takeWhile_append takeWhile_eq_all_conv)
  with assms(1) show ?thesis by (simp add: scan_not_def)
qed

lemma scan_not_all: "s \<noteq> [] \<Longrightarrow> set s \<inter> set stops = {} \<Longrightarrow> scan_not stops s = Some (s, [])"
  using scan_not_stop [of s stops "[]"] by simp

lemma show_d_chars: "c \<in> set (show_d i) \<Longrightarrow> c = CHR ''-'' \<or> digit_in 10 c"
  using show_base_digits [of 10] by (auto simp: show_d_def split: if_splits)

lemma show_d_free: "\<not> digit_in 10 c \<Longrightarrow> c \<noteq> CHR ''-'' \<Longrightarrow> c \<notin> set (show_d i)"
  using show_d_chars by blast

lemma show_d_not_Nil [simp]: "show_d i \<noteq> []"
  by (simp add: show_d_def)

lemma length_show_base: "n < 10 ^ k \<Longrightarrow> 0 < k \<Longrightarrow> length (show_base 10 n) \<le> k"
proof (induction k arbitrary: n)
  case (Suc k)
  show ?case
  proof (cases "n < 10")
    case True
    then show ?thesis by (subst show_base.simps) simp
  next
    case False
    with Suc have "n div 10 < 10 ^ k" "0 < k" by (auto simp: div_less_iff_less_mult mult.commute intro: gr0I)
    with Suc.IH [of "n div 10"] False show ?thesis by (subst show_base.simps) simp
  qed
qed simp

lemma length_show_d:
  assumes "is_int i"
  shows "length (show_d i) \<le> 11"
proof -
  have "nat (- i) < 10 ^ 10" "nat i < 10 ^ 10" using assms by (auto simp: is_int_def nat_less_iff)
  then have "length (show_base 10 (nat (- i))) \<le> 10" "length (show_base 10 (nat i)) \<le> 10"
    by (auto intro: length_show_base)
  then show ?thesis by (auto simp: show_d_def)
qed

lemma show_d_inj: "is_int i \<Longrightarrow> is_int j \<Longrightarrow> show_d i = show_d j \<longleftrightarrow> i = j"
  using strtoul_show_d by metis

lemma digit_char_simps [simp]:
  "digit_char 1 = CHR ''1''" "digit_char 2 = CHR ''2''" "digit_char 3 = CHR ''3''" "digit_char 4 = CHR ''4''"
  "digit_char 5 = CHR ''5''" "digit_char 6 = CHR ''6''" "digit_char 7 = CHR ''7''" "digit_char 8 = CHR ''8''"
  "digit_char 9 = CHR ''9''" "digit_char (Suc 0) = CHR ''1''"
  by code_simp+

lemma tty_speed_shown:
  assumes "is_int s"
  shows "tty_speed (show_d s) =
    (if s \<in> {921600, 576000, 500000, 460800, 230400, 115200, 57600} then s else 115200)"
proof -
  have shown: "''921600'' = show_d 921600" "''576000'' = show_d 576000" "''500000'' = show_d 500000"
      "''460800'' = show_d 460800" "''230400'' = show_d 230400" "''115200'' = show_d 115200"
      "''57600'' = show_d 57600"
    by (simp_all add: show_d_def show_base.simps)
  have "is_int 921600" "is_int 576000" "is_int 500000" "is_int 460800" "is_int 230400" "is_int 115200"
      "is_int 57600" by (simp_all add: is_int_def)
  note inj = this [THEN show_d_inj [OF assms]]
  show ?thesis unfolding tty_speed_def shown inj by simp
qed


subsection \<open>From the options to the device\<close>

lemma bus_prefix:
  assumes "bus \<in> {EP_IPC, EP_INET, EP_TTY, EP_GPIO, EP_SPI, EP_I2C, EP_SYSFS}"
  obtains p where "bus_to_prefix (int bus) = p @ ''://''" "protocol_type p = Some bus"
    "CHR '':'' \<notin> set p" "0 < length p" "length p < 6"
proof -
  let ?goal = "\<lambda>p. bus_to_prefix (int bus) = p @ ''://'' \<and> protocol_type p = Some bus \<and>
    CHR '':'' \<notin> set p \<and> 0 < length p \<and> length p < 6"
  have "?goal ''ipc'' \<or> ?goal ''inet'' \<or> ?goal ''tty'' \<or> ?goal ''gpio'' \<or> ?goal ''spi'' \<or> ?goal ''i2c'' \<or> ?goal ''sysfs''"
    using assms by (elim insertE emptyE) (simp_all add: bus_to_prefix_def protocol_type_def)
  with that show thesis by metis
qed

lemma bus_uri:
  assumes "bus \<in> {EP_IPC, EP_INET, EP_TTY, EP_GPIO, EP_SPI, EP_I2C, EP_SYSFS}"
    and "t \<noteq> []" "length t < 100" "CHR 0x0A \<notin> set t"
  shows "uri_target (take 127 (bus_to_prefix (int bus) @ t)) = Inr (Some (bus, t))"
proof -
  from bus_prefix [OF assms(1)] obtain p where p: "bus_to_prefix (int bus) = p @ ''://''"
    "protocol_type p = Some bus" "CHR '':'' \<notin> set p" "0 < length p" "length p < 6" by metis
  with uri_target_protocol [of p t] assms(2-4) have "uri_target (p @ ''://'' @ t) = Inr (Some (bus, t))" by simp
  moreover have "length (p @ ''://'' @ t) \<le> 127" using p(5) assms(3) by simp
  ultimately show ?thesis by (simp add: p(1))
qed

text \<open>
  What the options of a client come to: the text of the path it sends selects, behind the
  prefix of the daemon, an endpoint type, whose scanner reads \<open>r\<close> out of the path.
\<close>

definition arrives :: "rtemgr_intf \<Rightarrow> open_opts \<Rightarrow> nat \<Rightarrow> (string \<Rightarrow> 'a outcome) \<Rightarrow> 'a \<Rightarrow> bool" where
  "arrives f oo type scan r \<longleftrightarrow>
     (\<exists>path t. open_path f oo = Inr path \<and> read_str path = Inr t \<and>
        uri_target (take 127 (bus_to_prefix (if_bus f) @ t)) = Inr (Some (type, t)) \<and> scan t = Inr r)"

definition opts_ok :: "open_opts \<Rightarrow> bool" where
  "opts_ok oo \<longleftrightarrow> is_int (oo_speed oo) \<and> is_int (oo_mode oo) \<and> oo_dir oo \<in> {''out'', ''in''} \<and>
     oo_out oo \<in> {''0'', ''1''}"

lemma opts_ok_updates:
  assumes "opts_ok oo"
  shows "opts_ok (oo\<lparr>oo_speed := as_int w\<rparr>)" "opts_ok (if c then oo else oo\<lparr>oo_abs := True\<rparr>)"
    "opts_ok (oo\<lparr>oo_managed := True\<rparr>)" "opts_ok (oo\<lparr>oo_line := l\<rparr>)" "opts_ok (oo\<lparr>oo_mode := as_int w\<rparr>)"
    "opts_ok (oo\<lparr>oo_out := if c then ''1'' else ''0''\<rparr>)"
    "key \<in> {''out'', ''in''} \<Longrightarrow> opts_ok (oo\<lparr>oo_dir := key\<rparr>)"
  using assms by (simp_all add: opts_ok_def as_int_is_int)

lemma open_option_ok:
  assumes "opts_ok oo"
  shows "returns opts_ok (open_option R bus a oo)"
  unfolding open_option_def by (intro returns_rules opts_ok_updates assms)

lemma open_options_ok: "opts_ok oo \<Longrightarrow> open_options R bus as oo = Inr (Some oo') \<Longrightarrow> opts_ok oo'"
proof (induction as arbitrary: oo)
  case (Cons a as)
  with open_option_ok [of oo R bus a] show ?case by (auto simp: or_fail_eq_Some returns_def)
qed simp

lemma no_opts_ok: "opts_ok no_opts"
  by (simp add: opts_ok_def no_opts_def is_int_def)

lemma printed:
  assumes "length arr = 128" "length t < 100" "NUL \<notin> set t"
  shows "\<exists>path. strcpy arr (take 127 t) = Inr path \<and> read_str path = Inr t"
  using strcpy_ok [OF assms(3), of arr] assms(1,2) by simp

lemma arrivesI:
  assumes "open_path f oo = strcpy (if_path f) (take 127 t)" "length (if_path f) = 128" "if_bus f = int bus"
    and "bus \<in> {EP_IPC, EP_INET, EP_TTY, EP_GPIO, EP_SPI, EP_I2C, EP_SYSFS}"
    and "t \<noteq> []" "length t < 100" "NUL \<notin> set t" "CHR 0x0A \<notin> set t" "scan t = Inr r"
  shows "arrives f oo bus scan r"
  using printed [OF assms(2,6,7)] bus_uri [OF assms(4,5,6,8)] assms(1,3,9) by (auto simp: arrives_def)

lemma show_d_plain: "NUL \<notin> set (show_d i)" "CHR 0x0A \<notin> set (show_d i)" "CHR '','' \<notin> set (show_d i)"
  by (rule show_d_free; simp add: digit_in_def digit_def)+

lemma tty_path_arrives:
  assumes p: "p \<noteq> []" "length p \<le> 60" "NUL \<notin> set p" "CHR 0x0A \<notin> set p" "CHR '','' \<notin> set p"
    and "opts_ok oo" and f: "if_bus f = int EP_TTY" "if_path f = strncpy 128 p"
  shows "arrives f oo EP_TTY tty_scan (p, show_d (if oo_speed oo \<noteq> 0 then oo_speed oo else 115200))"
proof -
  let ?s = "if oo_speed oo \<noteq> 0 then oo_speed oo else 115200"
  have "is_int ?s" using assms(6) by (simp add: opts_ok_def is_int_def)
  then have short: "length (show_d ?s) \<le> 11" by (rule length_show_d)
  have "read_str (if_path f) = Inr p" using f(2) p(2,3) read_strncpy [of p 128] by simp
  then have "open_path f oo = strcpy (if_path f) (take 127 (p @ '','' @ show_d ?s))"
    using f(1) by (simp add: open_path_def Let_def)
  moreover have "tty_scan (p @ '','' @ show_d ?s) = Inr (p, show_d ?s)"
    using scan_not_stop [of p "'',''" "'','' @ show_d ?s"] scan_not_all [of "show_d ?s" "'',''"] p show_d_plain short
    by (simp add: tty_scan_def)
  ultimately show ?thesis
    using p f short show_d_plain by (intro arrivesI [where t = "p @ '','' @ show_d ?s"]) simp_all
qed

lemma spi_path_arrives:
  assumes p: "p \<noteq> []" "length p \<le> 60" "NUL \<notin> set p" "CHR 0x0A \<notin> set p" "CHR '','' \<notin> set p"
    and "opts_ok oo" and f: "if_bus f = int EP_SPI" "if_path f = strncpy 128 p"
  shows "arrives f oo EP_SPI spi_scan (p, Some (if oo_speed oo \<noteq> 0 then oo_speed oo else 5000), oo_mode oo)"
proof -
  let ?s = "if oo_speed oo \<noteq> 0 then oo_speed oo else 5000" and ?m = "oo_mode oo"
  have ints: "is_int ?s" "is_int ?m" using assms(6) by (simp_all add: opts_ok_def is_int_def)
  then have short: "length (show_d ?s) \<le> 11" "length (show_d ?m) \<le> 11" using length_show_d by blast+
  let ?t = "p @ '','' @ show_d ?s @ '','' @ show_d ?m"
  have "read_str (if_path f) = Inr p" using f(2) p(2,3) read_strncpy [of p 128] by simp
  then have "open_path f oo = strcpy (if_path f) (take 127 ?t)"
    using f(1) by (simp add: open_path_def Let_def)
  moreover have "\<not> digit_in 10 CHR '',''" by (simp add: digit_in_def digit_def)
  then have "scan_d (show_d ?s @ '','' @ show_d ?m) = Some (?s, '','' @ show_d ?m)" "scan_d (show_d ?m) = Some (?m, [])"
    using scan_d_show [OF ints(1), of "'','' @ show_d ?m"] scan_d_show [OF ints(2), of "[]"] by simp_all
  then have "spi_scan ?t = Inr (p, Some ?s, ?m)"
    using scan_not_stop [of p "'',''" "'','' @ show_d ?s @ '','' @ show_d ?m"] p by (simp add: spi_scan_def)
  ultimately show ?thesis
    using p f short show_d_plain by (intro arrivesI [where t = ?t]) simp_all
qed

lemma gpio_path_arrives:
  assumes p: "p \<noteq> []" "length p \<le> 60" "NUL \<notin> set p" "CHR 0x0A \<notin> set p" "CHR ''-'' \<notin> set p"
    and n: "n \<noteq> []" "length n < 16" "NUL \<notin> set n" "CHR 0x0A \<notin> set n" "CHR ''@'' \<notin> set n"
    and oo: "opts_ok oo" and f: "if_bus f = int EP_GPIO" "if_path f = strncpy 128 p" "if_name f = strncpy 16 n"
  shows "arrives f oo EP_GPIO gpio_scan \<lparr>gp_consumer = n, gp_chip_path = p, gp_num = uint (oo_line oo),
    gp_dir = oo_dir oo, gp_val = if oo_dir oo = ''out'' \<and> oo_out oo = ''1'' then 1 else 0\<rparr>"
proof -
  let ?out = "if oo_dir oo = ''out'' then '','' @ oo_out oo else []" and ?l = "uint (oo_line oo)"
  let ?t = "n @ ''@'' @ p @ ''-'' @ show_d ?l @ '','' @ oo_dir oo @ ?out"
  have dirs: "oo_dir oo = ''out'' \<or> oo_dir oo = ''in''" "oo_out oo = ''0'' \<or> oo_out oo = ''1''"
    using oo by (simp_all add: opts_ok_def)
  have "?l < 256" "0 \<le> ?l" using uint_bounded [of "oo_line oo"] by simp_all
  then have int: "is_int ?l" by (intro is_int_small)
  then have short: "length (show_d ?l) \<le> 11" by (rule length_show_d)
  have "read_str (if_path f) = Inr p" "read_str (if_name f) = Inr n"
    using f(2,3) p(2,3) n(2,3) read_strncpy [of p 128] read_strncpy [of n 16] by simp_all
  then have "open_path f oo = strcpy (if_path f) (take 127 ?t)"
    using f(1) by (simp add: open_path_def Let_def)
  moreover have comma: "\<not> digit_in 10 CHR '',''" by (simp add: digit_in_def digit_def)
  then have "scan_d (show_d ?l @ '','' @ r) = Some (?l, '','' @ r)" for r
    using scan_d_show [OF int, of "'','' @ r"] by simp
  moreover have "scan_d ''0'' = Some (0, [])" "scan_d ''1'' = Some (1, [])" by code_simp+
  moreover have "scan_not '','' (oo_dir oo @ ?out) = Some (oo_dir oo, ?out)"
    using dirs by (intro scan_not_stop) auto
  ultimately have scan: "gpio_scan ?t = Inr \<lparr>gp_consumer = n, gp_chip_path = p, gp_num = ?l,
      gp_dir = oo_dir oo, gp_val = if oo_dir oo = ''out'' \<and> oo_out oo = ''1'' then 1 else 0\<rparr>"
    using scan_not_stop [of n "''@''" "''@'' @ p @ ''-'' @ show_d ?l @ '','' @ oo_dir oo @ ?out"] 
      scan_not_stop [of p "''-''" "''-'' @ show_d ?l @ '','' @ oo_dir oo @ ?out"] p n dirs
    by (auto simp: gpio_scan_def Let_def)
  have "length ?t < 100" "NUL \<notin> set ?t" "CHR 0x0A \<notin> set ?t"
    using dirs p n short show_d_plain by auto
  with \<open>open_path f oo = _\<close> scan f n show ?thesis by (intro arrivesI [where t = ?t]) simp_all
qed

text \<open>
  C14: the options of \<open>open\<close> reach the device. For a path of at most 60 characters (and, for GPIO,
  a name that the packet can hold) whatever options the client accepts, the path that it sends
  names, behind the prefix of the daemon, an endpoint of the bus asked for, and this endpoint
  scans out of it the device, and exactly the speed, mode, line, direction and value that the
  options set, or their defaults; only a serial speed that is not one of seven becomes 115200.
\<close>

theorem open_options_arrive:
  assumes opts: "open_options R (if_bus f) olist no_opts = Inr (Some oo)"
    and p: "if_path f = strncpy 128 p" "p \<noteq> []" "length p \<le> 60" "NUL \<notin> set p" "CHR 0x0A \<notin> set p"
    and n: "if_name f = strncpy 16 n" "n \<noteq> []" "length n < 16" "NUL \<notin> set n" "CHR 0x0A \<notin> set n"
  defines "speed \<equiv> \<lambda>d. if oo_speed oo \<noteq> 0 then oo_speed oo else d"
  shows "(if_bus f = int EP_TTY \<and> CHR '','' \<notin> set p \<longrightarrow>
       arrives f oo EP_TTY tty_scan (p, show_d (speed 115200)) \<and>
       tty_speed (show_d (speed 115200)) =
         (if speed 115200 \<in> {921600, 576000, 500000, 460800, 230400, 57600} then speed 115200 else 115200)) \<and>
    (if_bus f = int EP_SPI \<and> CHR '','' \<notin> set p \<longrightarrow>
       arrives f oo EP_SPI spi_scan (p, Some (speed 5000), oo_mode oo)) \<and>
    (if_bus f = int EP_GPIO \<and> CHR ''-'' \<notin> set p \<and> CHR ''@'' \<notin> set n \<longrightarrow>
       arrives f oo EP_GPIO gpio_scan \<lparr>gp_consumer = n, gp_chip_path = p, gp_num = uint (oo_line oo),
         gp_dir = oo_dir oo, gp_val = if oo_dir oo = ''out'' \<and> oo_out oo = ''1'' then 1 else 0\<rparr>)"
proof -
  have ok: "opts_ok oo" by (rule open_options_ok [OF no_opts_ok opts])
  then have "is_int (speed 115200)" by (simp add: speed_def opts_ok_def is_int_def)
  then show ?thesis
    using tty_path_arrives [OF p(2-5) _ ok _ p(1)] spi_path_arrives [OF p(2-5) _ ok _ p(1)]
      gpio_path_arrives [OF p(2-5) _ n(2-5) _ ok _ p(1) n(1)]
    by (simp add: speed_def tty_speed_shown)
qed

theorem open_options_arrive_witness:
  "arrives (new_intf\<lparr>if_bus := int EP_TTY, if_name := strncpy 16 ''uart'', if_path := strncpy 128 ''/dev/ttyS0''\<rparr>)
     (no_opts\<lparr>oo_speed := 57600\<rparr>) EP_TTY tty_scan (''/dev/ttyS0'', show_d 57600)"
proof -
  have val: "as_int (strtoul 0 ''57600'') = 57600"
    using strtoul_show_d [of 57600] by (simp add: is_int_def show_d_def show_base.simps)
  let ?f = "new_intf\<lparr>if_bus := int EP_TTY, if_name := strncpy 16 ''uart'', if_path := strncpy 128 ''/dev/ttyS0''\<rparr>"
  have "open_options R (if_bus ?f) [\<lparr>arg_key = Some ''speed'', arg_val = Some ''57600''\<rparr>] no_opts =
      Inr (Some (no_opts\<lparr>oo_speed := 57600\<rparr>))" for R
    by (simp add: open_option_def the_text_def pointer_def val)
  from open_options_arrive [OF this, of "''/dev/ttyS0''" "''uart''"] show ?thesis by simp
qed

end
