(* ===== verification/Rtemgr_Session.thy ===== *)
theory Rtemgr_Session
  imports Rtemgr_Request
begin

section \<open>A command, from the client through the daemon and back\<close>

text \<open>
  Composition of the parts: the client's packet is emitted, parsed and executed by the daemon,
  whose reply is emitted, parsed and printed by the client.
\<close>

subsection \<open>Listing\<close>

text \<open>The line of an interface, in terms of the daemon. The control interface is not shown.\<close>

definition shown_iface :: "daemon \<Rightarrow> addr \<Rightarrow> string" where
  "shown_iface st a =
     (case ifaces st a of
        None \<Rightarrow> []
      | Some i \<Rightarrow>
          if i_id i = 0 then []
          else
            (let partner = (case Option.bind (i_partner i) (ifaces st) of
                              None \<Rightarrow> [] | Some q \<Rightarrow> c_string (i_name q)) in
             cell 16 (i_name i) @ '' '' @ cell 6 (bus_to_str (i_bus i)) @ '' '' @
             cell 36 (scan_path (c_string (i_uri i)) []) @ '' '' @
             cell 16 (if i_managed i \<noteq> 0 then ''**'' else if partner \<noteq> [] then partner else ''--'') @
             [CHR 0x0A]))"

definition printable :: "daemon \<Rightarrow> bool" where
  "printable st \<longleftrightarrow> listable st \<and> int (length (concat (map dom_ifaces (domains st)))) < 2 ^ 31 \<and>
     (\<forall>d \<in> set (domains st). is_int (dom_id d)) \<and>
     (\<forall>i. i \<in> ran (ifaces st) \<longrightarrow> is_int (i_id i) \<and> is_int (i_bus i) \<and> is_int (i_managed i))"

lemma read_str_same: "read_str a = read_str b \<Longrightarrow> NUL \<in> set b \<Longrightarrow> c_string a = c_string b"
  by (auto simp: read_str_def split: if_splits)

lemma cell_same: "c_string a = c_string b \<Longrightarrow> cell n a = cell n b"
  by (simp add: cell_def)

lemma list_lines_reports:
  assumes "listable st" "list_all2 (reports st) ps fs" "\<forall>(dm, a) \<in> set ps. dm \<in> set (domains st) \<and> a \<in> set (dom_ifaces dm)"
  shows "list_lines fs = Inr (concat (map (shown_iface st \<circ> snd) ps))"
  using assms(2,3)
proof (induction ps fs rule: list_all2_induct)
  case (Cons p ps f fs)
  obtain dm a where p: "p = (dm, a)" by (cases p)
  with Cons.prems assms(1) obtain i where i: "ifaces st a = Some i" "iface_ok i"
      "\<And>p. i_partner i = Some p \<Longrightarrow> \<exists>q. ifaces st p = Some q \<and> iface_ok q"
    by (fastforce simp: listable_def)
  from i(2) obtain proto path where uri: "read_str (i_uri i) = Inr (proto @ ''://'' @ path)" "proto \<noteq> []"
      "CHR '':'' \<notin> set proto" "path \<noteq> []" "length path < 100" "CHR 0x0A \<notin> set path" "NUL \<notin> set path"
    by (auto simp: iface_ok_def)
  from Cons.hyps(1) p i(1) obtain proto' path' where
    f: "if_id f = i_id i" "if_bus f = i_bus i" "if_managed f = i_managed i" "read_str (if_name f) = read_str (i_name i)"
      "read_str (i_uri i) = Inr (proto' @ ''://'' @ path')" "CHR '':'' \<notin> set proto'" "read_str (if_path f) = Inr path'"
      "read_str (if_partner f) = (case i_partner i of None \<Rightarrow> Inr []
       | Some p \<Rightarrow> and_then (deref (ifaces st) (Some p)) (\<lambda>q. read_str (i_name q)))"
    by (auto simp: reports_def)
  have "proto' = proto \<and> path' = path"
    using split_at_append [OF f(6), of "''//'' @ path'"] split_at_append [OF uri(3), of "''//'' @ path"] f(5) uri(1) by simp
  with f(7) have path: "c_string (if_path f) = scan_path (c_string (i_uri i)) []"
    using scan_path_uri [OF uri(2-6), of "[]"] uri(1) by (auto simp: read_str_def split: if_splits)
  then have "cell 36 (if_path f) = cell 36 (scan_path (c_string (i_uri i)) [])"
    by (intro cell_same) (metis c_string_id c_string_no_nul)
  moreover have "cell 16 (if_name f) = cell 16 (i_name i)"
    using i(2) f(4) by (intro cell_same read_str_same) (auto simp: iface_ok_def)
  moreover have "read_str (if_partner f) = Inr (case Option.bind (i_partner i) (ifaces st) of
      None \<Rightarrow> [] | Some q \<Rightarrow> c_string (i_name q))"
    using f(8) i(3) by (auto simp: iface_ok_def read_str_def split: option.splits)
  ultimately show ?case
    using Cons.IH Cons.prems p i(1) f(1-3)
    by (simp add: list_line_def shown_iface_def Let_def)
qed simp

text \<open>A packet without a value on its way: it comes back with the text that stands for no value.\<close>

definition carried :: "libs \<Rightarrow> rtemgr_data \<Rightarrow> rtemgr_data" where
  "carried Y d = d\<lparr>cmd := (cmd d)\<lparr>val_v := Some (bytes_of (b64_encode Y []) @ [0])\<rparr>\<rparr>"

lemma carried_simps [simp]:
  "nr_intf (carried Y d) = nr_intf d" "interfaces (carried Y d) = interfaces d"
  "action (cmd (carried Y d)) = action (cmd d)" "cmd_error (cmd (carried Y d)) = cmd_error (cmd d)"
  "val_s (cmd (carried Y d)) = val_s (cmd d)"
  by (simp_all add: carried_def)

lemma process_packet:
  assumes "libs_ok Y" "\<And>n. heap Y n" "Rtemgr_Wire.data_ok d" "val_s (cmd d) = 0"
    and "rtemgr_data_emit Y d 4096 = Inr (Some req)"
    and "run_command X Y F (length req) req (carried Y d\<lparr>cmd := (cmd (carried Y d))\<lparr>cmd_error := -1\<rparr>\<rparr>) st =
      Inr (err, d1, st1)"
  shows "process_ctlport X Y F (length req) req st =
    and_then (rtemgr_data_emit Y (d1\<lparr>cmd := (cmd d1)\<lparr>cmd_error := err\<rparr>\<rparr>) 4096) (\<lambda>out.
    (case out of None \<Rightarrow> Inr st1 | Some bs \<Rightarrow> xfer_rt X RTEMGRD_CTLPORT bs st1))"
  using emitted_parses [OF assms(1,2,3,5)] assms(4,6)
  by (simp add: process_ctlport_def taken_def carried_def)

lemma reply_printed:
  assumes "libs_ok Y" "\<And>n. heap Y n" "Rtemgr_Wire.data_ok d" "val_s (cmd d) = 0"
    and "rtemgr_data_emit Y d sz = Inr (Some bs)"
  shows "reply_callback Y (length bs) bs =
    and_then (if interfaces d = [] then Inr [] else reply_text (carried Y d)) (\<lambda>out. Inr (out, True))"
proof -
  have "0 \<le> nr_intf (carried Y d)" using assms(3) by (simp add: Rtemgr_Wire.data_ok_def)
  with emitted_parses [OF assms(1,2,3,5)] assms(4) show ?thesis
    by (simp add: reply_callback_def taken_def cleanup_interfaces carried_def)
qed

lemma fits_strncpy: "NUL \<notin> set s \<Longrightarrow> length s < n \<Longrightarrow> fits_array n (strncpy n s)"
  by (auto simp: fits_array_def)

lemma new_intf_ok: "intf_ok new_intf"
proof -
  have "replicate n NUL = strncpy n []" for n by (simp add: strncpy_def)
  moreover have "fits_array 16 (strncpy 16 [])" "fits_array 128 (strncpy 128 [])" by (simp_all add: fits_strncpy)
  ultimately show ?thesis by (simp add: intf_ok_def new_intf_def is_int_def)
qed

lemma packet_ok:
  assumes "is_int act" "\<forall>n \<in> set names. NUL \<notin> set n \<and> length n < 16" "int (length names) < 2 ^ 31"
  shows "Rtemgr_Wire.data_ok (packet act names)"
  using assms new_intf_ok
  by (auto simp: Rtemgr_Wire.data_ok_def packet_def no_cmd_def value_ok_def intf_ok_def is_int_def fits_strncpy)

definition listing_text :: "daemon \<Rightarrow> string" where
  "listing_text st =
     (let as = concat (map dom_ifaces (domains st))
      in if as = [] then [] else list_head @ concat (map (shown_iface st) as))"

lemma list_all2_related: "list_all2 P xs ys \<Longrightarrow> \<forall>y \<in> set ys. \<exists>x \<in> set xs. P x y"
  by (induction rule: list_all2_induct) auto

text \<open>The list command looks at the interfaces only, not at the library below them.\<close>

text \<open>The reply to \<open>list\<close>: no value, no error, and a report of each interface, in order.\<close>

definition list_reply :: "libs \<Rightarrow> daemon \<Rightarrow> rtemgr_data \<Rightarrow> bool" where
  "list_reply Y st d \<longleftrightarrow> Rtemgr_Wire.data_ok d \<and>
     cmd d = (cmd (carried Y (packet RTECMD_LIST [[]])))\<lparr>cmd_error := 0\<rparr> \<and>
     list_all2 (reports st) (concat (map (\<lambda>dm. map (Pair dm) (dom_ifaces dm)) (domains st))) (interfaces d)"

lemma list_ignores_rt:
  assumes "do_rtecmd_list Y d st = Inr (r, d', st)"
  shows "do_rtecmd_list Y d (st\<lparr>rt := g\<rparr>) = Inr (r, d', st\<lparr>rt := g\<rparr>)"
proof -
  have same: "ifaces (st\<lparr>rt := g\<rparr>) = ifaces st" by simp
  have "collect_iface Y (st\<lparr>rt := g\<rparr>) = collect_iface Y st" by (intro ext) (simp only: collect_iface_def same)
  then have "collect_ifaces Y (st\<lparr>rt := g\<rparr>) dm as s = collect_ifaces Y st dm as s" for dm as s
    by (induction as arbitrary: s) (auto intro: and_then_cong)
  then have "domain_collect_ifaces Y (st\<lparr>rt := g\<rparr>) = domain_collect_ifaces Y st"
    by (simp add: domain_collect_ifaces_def fun_eq_iff)
  with assms show ?thesis
    by (auto simp: do_rtecmd_list_def and_then_eq_Inr split: option.splits)
qed

lemma list_exchange:
  assumes libs: "libs_ok Y" "\<And>n. heap Y n" and st: "printable st"
    and req: "rtemgr_data_emit Y (packet RTECMD_LIST [[]]) 4096 = Inr (Some req)"
  shows "\<exists>d. list_reply Y st d \<and> (\<forall>g. process_ctlport X Y F (length req) req (st\<lparr>rt := g\<rparr>) =
      and_then (rtemgr_data_emit Y d 4096) (\<lambda>out.
        (case out of None \<Rightarrow> Inr (st\<lparr>rt := g\<rparr>) | Some bs \<Rightarrow> xfer_rt X RTEMGRD_CTLPORT bs (st\<lparr>rt := g\<rparr>)))) \<and>
    (\<forall>bs. rtemgr_data_emit Y d 4096 = Inr (Some bs) \<longrightarrow>
      reply_callback Y (length bs) bs = Inr (listing_text st, True))"
proof -
  let ?as = "concat (map (\<lambda>dm. map (Pair dm) (dom_ifaces dm)) (domains st))"
  define d0 where "d0 = carried Y (packet RTECMD_LIST [[]])"
  define d1 where "d1 = d0\<lparr>cmd := (cmd d0)\<lparr>cmd_error := -1\<rparr>\<rparr>"
  have ok: "Rtemgr_Wire.data_ok (packet RTECMD_LIST [[]])" by (rule packet_ok) (simp_all add: is_int_def)
  have nr: "0 \<le> nr_intf d1" "nr_intf d1 = int (length (interfaces d1))"
    by (simp_all add: d1_def d0_def packet_def)
  have st': "listable st" using st by (simp add: printable_def)
  obtain fs where fs: "do_rtecmd_list Y d1 st = Inr (0, d1\<lparr>nr_intf := int (length fs), interfaces := fs\<rparr>, st)"
      "list_all2 (reports st) ?as fs" using listing [OF libs(2) nr st'] by blast
  define d where "d = d1\<lparr>nr_intf := int (length fs), interfaces := fs, cmd := (cmd d1)\<lparr>cmd_error := 0\<rparr>\<rparr>"
  have act: "action (cmd d0) = RTECMD_LIST" "val_s (cmd d0) = 0" by (simp_all add: d0_def packet_def no_cmd_def)
  then have run: "run_command X Y F (length req) req d1 (st\<lparr>rt := g\<rparr>) =
      Inr (0, d1\<lparr>nr_intf := int (length fs), interfaces := fs\<rparr>, st\<lparr>rt := g\<rparr>)" for g
    using list_ignores_rt [OF fs(1)] by (simp add: run_command_def d1_def)
  have process: "process_ctlport X Y F (length req) req (st\<lparr>rt := g\<rparr>) = and_then (rtemgr_data_emit Y d 4096) (\<lambda>out.
        (case out of None \<Rightarrow> Inr (st\<lparr>rt := g\<rparr>) | Some bs \<Rightarrow> xfer_rt X RTEMGRD_CTLPORT bs (st\<lparr>rt := g\<rparr>)))" for g
    using process_packet [OF libs ok _ req run [unfolded d1_def d0_def]]
    by (simp add: d_def d1_def d0_def packet_def no_cmd_def)
  have len: "length fs = length (concat (map dom_ifaces (domains st)))"
    using list_all2_lengthD [OF fs(2)] by (simp add: length_concat comp_def)
  have "intf_ok f" if "f \<in> set fs" for f
    using list_all2_related [OF fs(2)] that st by (fastforce simp: reports_def intf_ok_def printable_def ran_def)
  then have dok: "Rtemgr_Wire.data_ok d"
    using len st act by (auto simp: Rtemgr_Wire.data_ok_def d_def d1_def value_ok_def is_int_def printable_def)
  have "list_lines fs = Inr (concat (map (shown_iface st \<circ> snd) ?as))"
    by (rule list_lines_reports [OF st' fs(2)]) auto
  also have "map (shown_iface st \<circ> snd) ?as = map (shown_iface st) (concat (map dom_ifaces (domains st)))"
    by (simp add: map_concat comp_def)
  finally have lines: "list_lines fs = Inr (concat (map (shown_iface st) (concat (map dom_ifaces (domains st)))))" .
  have empty: "concat (map dom_ifaces (domains st)) = [] \<longleftrightarrow> fs = []"
    using len by (metis length_0_conv)
  have "reply_callback Y (length bs) bs = Inr (listing_text st, True)"
    if "rtemgr_data_emit Y d 4096 = Inr (Some bs)" for bs
    using reply_printed [OF libs dok _ that] act lines
    by (simp add: d_def d1_def reply_text_def listing_text_def Let_def empty del: concat_eq_Nil_conv)
  moreover have "list_reply Y st d"
    using dok fs(2) act by (simp add: list_reply_def d_def d1_def d0_def)
  ultimately show ?thesis using process by blast
qed

text \<open>
  C2: what \<open>rtemgr list\<close> prints. The packet of the client makes the daemon send a reply for which,
  if it fits into the daemon's buffer (a report of each interface, in order, and no error), the
  client prints the headings and one line for each interface that the daemon has, except the
  control interface, in the order of opening: its name, bus and path, each cut to its column, and
  two stars if it is managed, or the name of its partner, or two dashes.
\<close>

theorem list_end_to_end:
  assumes libs: "libs_ok Y" "\<And>n. heap Y n" and st: "printable st"
    and req: "rtemgr_data_emit Y (packet RTECMD_LIST [[]]) 4096 = Inr (Some req)"
  shows "\<exists>d. list_reply Y st d \<and> process_ctlport X Y F (length req) req st =
      and_then (rtemgr_data_emit Y d 4096) (\<lambda>out.
        (case out of None \<Rightarrow> Inr st | Some bs \<Rightarrow> xfer_rt X RTEMGRD_CTLPORT bs st)) \<and>
    (\<forall>bs. rtemgr_data_emit Y d 4096 = Inr (Some bs) \<longrightarrow>
      reply_callback Y (length bs) bs = Inr (listing_text st, True))"
proof -
  from list_exchange [OF assms, of X F] obtain d where "list_reply Y st d" and d: "\<forall>g. process_ctlport X Y F (length req) req (st\<lparr>rt := g\<rparr>) =
      and_then (rtemgr_data_emit Y d 4096) (\<lambda>out.
        (case out of None \<Rightarrow> Inr (st\<lparr>rt := g\<rparr>) | Some bs \<Rightarrow> xfer_rt X RTEMGRD_CTLPORT bs (st\<lparr>rt := g\<rparr>)))"
    "\<forall>bs. rtemgr_data_emit Y d 4096 = Inr (Some bs) \<longrightarrow> reply_callback Y (length bs) bs = Inr (listing_text st, True)"
    by blast
  have "st\<lparr>rt := rt st\<rparr> = st" by simp
  with d(1) [THEN spec, of "rt st"] d(2) \<open>list_reply Y st d\<close> show ?thesis by (intro exI [of _ d]) simp
qed

subsection \<open>Routing\<close>

definition linked :: "addr \<Rightarrow> addr \<Rightarrow> daemon \<Rightarrow> daemon" where
  "linked a b st = st\<lparr>ifaces := (ifaces st)
     (a := map_option (\<lambda>i. i\<lparr>i_partner := Some b\<rparr>) (ifaces st a),
      b := map_option (\<lambda>i. i\<lparr>i_partner := Some a\<rparr>) (ifaces st b))\<rparr>"

lemma trigger_nothing:
  assumes "ifaces st a = Some i" "i_pending i = []"
  shows "iface_trigger X Y a st = Inr st"
proof -
  have "st\<lparr>ifaces := (ifaces st)(a \<mapsto> i\<lparr>i_pending := []\<rparr>)\<rparr> = st"
    using assms by (cases i) (simp add: fun_upd_idem)
  with assms show ?thesis by (simp add: iface_trigger_def set_iface_def drain_loop.simps rteipc_msg_drain_def msg_length_def)
qed

text \<open>
  C6: what \<open>rtemgr route\<close> does. For the names of two interfaces that are not managed and have
  nothing pending, the packet of the client makes each the partner of the other and nothing
  else, the client prints that they are bound, and from then on what arrives at one of them is
  sent, unchanged, to the other.
\<close>

theorem route_end_to_end:
  assumes libs: "libs_ok Y" "\<And>n. heap Y n"
    and names: "NUL \<notin> set n" "length n < 16" "NUL \<notin> set m" "length m < 16"
    and req: "rtemgr_data_emit Y (packet RTECMD_ROUTE [n, m]) 4096 = Inr (Some req)"
    and found: "lookup (new_intf\<lparr>if_name := strncpy 16 n\<rparr>) st = Inr (Some a)"
      "lookup (new_intf\<lparr>if_name := strncpy 16 m\<rparr>) st = Inr (Some b)" "a \<noteq> b"
    and ab: "ifaces st a = Some i" "ifaces st b = Some j" "i_managed i = 0" "i_managed j = 0"
      "i_pending i = []" "i_pending j = []" "read_str (i_name j) = Inr m" "i_handler i = Some Raw_Handler"
  shows "\<exists>d. process_ctlport X Y F (length req) req st =
      and_then (rtemgr_data_emit Y d 4096) (\<lambda>out.
        (case out of None \<Rightarrow> Inr (linked a b st) | Some bs \<Rightarrow> xfer_rt X RTEMGRD_CTLPORT bs (linked a b st))) \<and>
    (\<forall>bs. rtemgr_data_emit Y d 4096 = Inr (Some bs) \<longrightarrow>
      reply_callback Y (length bs) bs =
        Inr (''Successfully bound '' @ [CHR 0x27] @ n @ [CHR 0x27] @ '' and '' @ [CHR 0x27] @ m @ [CHR 0x27] @
          ''.'' @ [CHR 0x0A], True)) \<and>
    (\<forall>msg s. run_handler X Y a (length msg) msg (linked a b st\<lparr>rt := s\<rparr>) =
      xfer_rt X m msg (linked a b st\<lparr>rt := s\<rparr>))"
proof -
  define d0 where "d0 = carried Y (packet RTECMD_ROUTE [n, m])"
  define d1 where "d1 = d0\<lparr>cmd := (cmd d0)\<lparr>cmd_error := -1\<rparr>\<rparr>"
  define d where "d = d1\<lparr>cmd := (cmd d1)\<lparr>cmd_error := 0\<rparr>\<rparr>"
  have ok: "Rtemgr_Wire.data_ok (packet RTECMD_ROUTE [n, m])"
    using names by (intro packet_ok) (simp_all add: is_int_def)
  have intfs: "interfaces d1 = [new_intf\<lparr>if_name := strncpy 16 n\<rparr>, new_intf\<lparr>if_name := strncpy 16 m\<rparr>]" "nr_intf d1 = 2"
      "action (cmd d1) = RTECMD_ROUTE" by (simp_all add: d1_def d0_def packet_def no_cmd_def)
  let ?st1 = "st\<lparr>ifaces := (ifaces st)(a \<mapsto> i\<lparr>i_partner := Some b\<rparr>)\<rparr>"
  have "set_route X Y a b st = Inr ?st1" "set_route X Y b a ?st1 = Inr (linked a b st)"
    using ab found(3) by (simp_all add: set_route_def set_iface_def linked_def trigger_nothing)
  then have "run_command X Y F (length req) req d1 st = Inr (0, d1, linked a b st)"
    using found intfs by (simp add: run_command_def do_rtecmd_route_def)
  then have process: "process_ctlport X Y F (length req) req st = and_then (rtemgr_data_emit Y d 4096) (\<lambda>out.
        (case out of None \<Rightarrow> Inr (linked a b st) | Some bs \<Rightarrow> xfer_rt X RTEMGRD_CTLPORT bs (linked a b st)))"
    using process_packet [OF libs ok _ req, of X F st 0 d1 "linked a b st"]
    by (simp add: d_def d1_def d0_def packet_def no_cmd_def)
  have "Rtemgr_Wire.data_ok d"
    using ok by (simp add: Rtemgr_Wire.data_ok_def d_def d1_def d0_def carried_def packet_def no_cmd_def value_ok_def is_int_def)
  moreover have "reply_text (carried Y d) =
      Inr (''Successfully bound '' @ [CHR 0x27] @ n @ [CHR 0x27] @ '' and '' @ [CHR 0x27] @ m @ [CHR 0x27] @
          ''.'' @ [CHR 0x0A])"
    using intfs names by (simp add: reply_text_def d_def quoted_def read_strncpy)
  ultimately have reply: "reply_callback Y (length bs) bs =
        Inr (''Successfully bound '' @ [CHR 0x27] @ n @ [CHR 0x27] @ '' and '' @ [CHR 0x27] @ m @ [CHR 0x27] @
          ''.'' @ [CHR 0x0A], True)" if "rtemgr_data_emit Y d 4096 = Inr (Some bs)" for bs
    using reply_printed [OF libs, of d] that intfs by (simp add: d_def d1_def d0_def packet_def no_cmd_def)
  have "run_handler X Y a (length msg) msg (linked a b st\<lparr>rt := s\<rparr>) = xfer_rt X m msg (linked a b st\<lparr>rt := s\<rparr>)" for msg s
    using ab found(3) by (simp add: run_handler_def iface_raw_handler_def linked_def taken_def)
  with process reply show ?thesis by (intro exI [of _ d]) auto
qed

subsection \<open>Transferring\<close>

lemma emit_trimmed:
  assumes "val_v (cmd d) = Some (bs @ xs)" "unat (val_s (cmd d)) = length bs"
  shows "rtemgr_data_emit Y (d\<lparr>cmd := (cmd d)\<lparr>val_v := Some bs\<rparr>\<rparr>) sz = rtemgr_data_emit Y d sz"
proof -
  let ?c = "(cmd d)\<lparr>val_v := Some bs\<rparr>"
  have "emit_action Y sz ?c = emit_action Y sz (cmd d)" "emit_extra Y sz ?c = emit_extra Y sz (cmd d)"
      "emit_count Y sz (d\<lparr>cmd := ?c\<rparr>) = emit_count Y sz d"
    by (simp_all add: emit_action_def action_events_def emit_extra_def emit_count_def)
  moreover have "emit_value Y sz ?c = emit_value Y sz (cmd d)"
    using assms by (intro ext) (simp add: emit_value_def encode_base64_def value_room_def)
  ultimately show ?thesis by (simp add: rtemgr_data_emit_def)
qed

text \<open>The packet of \<open>xfer\<close> with a name and a value; the value keeps its terminator in the client.\<close>

definition xfer_packet :: "string \<Rightarrow> byte list \<Rightarrow> nat \<Rightarrow> rtemgr_data" where
  "xfer_packet n v len = (packet RTECMD_XFER [n])\<lparr>cmd :=
     no_cmd\<lparr>action := RTECMD_XFER, val_v := Some v, val_s := of_nat len\<rparr>\<rparr>"

lemma xfer_words:
  assumes "subcmd_opt_check Y R (get_rtemgr_action Y R ''xfer'') [(CHR ''w'', s)] [n] = Inr (Some d)" and "n \<noteq> []"
  shows "d = xfer_packet n (bytes_of s @ [0]) (length s)"
proof -
  have "get_rtemgr_action Y R ''xfer'' = (RTECMD_XFER, Some (xfer_parser R))"
    by (simp add: get_rtemgr_action_def rtemgr_actions_def)
  moreover have "(int EP_I2C :: int) \<noteq> -1" by simp
  ultimately show ?thesis
    using assms the_text_word [OF assms(2), of R]
    by (auto simp: subcmd_opt_check_def first_interface no_suboptions take_option_def take_value_def copy_text_def
        parse_opts.simps xfer_parser_def packet_def xfer_packet_def new_intf_def no_cmd_def or_fail_eq_Some
        and_then_eq_Inr dest!: make_arg_word split: if_splits option.splits)
qed

text \<open>
  What the daemon does with the characters that are to be sent to an interface: a relay, a serial
  line or an attribute gets them as one message; for a GPIO line or a bus they are decoded into a
  block of their length and read as a C string, which has no end there; no other interface gets
  anything.
\<close>

definition transferred :: "outside \<Rightarrow> string \<Rightarrow> string \<Rightarrow> daemon \<Rightarrow> iface option \<Rightarrow> daemon outcome" where
  "transferred X n s st dest =
     (case dest of
        None \<Rightarrow> Inr st
      | Some q \<Rightarrow>
          if i_bus q \<in> {int EP_IPC, int EP_INET, int EP_TTY, int EP_SYSFS} then xfer_rt X n (bytes_of s) st
          else if i_bus q \<in> {int EP_GPIO, int EP_SPI, int EP_I2C} then Inl Out_Of_Bounds
          else Inr st)"

text \<open>
  C7: what \<open>rtemgr xfer\<close> does, from its command line. The packet that the client builds, if it
  builds one, makes the daemon send exactly the characters of the value to the interface of that
  name, if there is one and it is an IPC, INET, serial or sysfs interface that is not managed, and
  then send the packet itself back; for this the client prints that the data has been transferred,
  whether or not there is such an interface. For a GPIO, SPI or I2C interface the daemon reads
  beyond the value.
\<close>

theorem xfer_end_to_end:
  assumes libs: "libs_ok Y" "\<And>k. heap Y k" and n: "n \<noteq> []" "NUL \<notin> set n" "length n < 16"
    and s: "s \<noteq> []" "NUL \<notin> set s" "length s < 2 ^ 32"
    and client: "subcmd_opt_check Y R (get_rtemgr_action Y R ''xfer'') [(CHR ''w'', s)] [n] = Inr (Some d)"
      "rtemgr_data_emit Y d 4096 = Inr (Some req)"
    and found: "lookup (new_intf\<lparr>if_name := strncpy 16 n\<rparr>) st = Inr r"
    and dest: "\<And>p. r = Some p \<Longrightarrow> \<exists>q. ifaces st p = Some q \<and> read_str (i_name q) = Inr n \<and> i_managed q = 0"
  shows "process_ctlport X Y F (length req) req st =
      and_then (transferred X n s st (Option.bind r (ifaces st))) (xfer_rt X RTEMGRD_CTLPORT req) \<and>
    reply_callback Y (length req) req =
      Inr (''Data successfully transfered to '' @ [CHR 0x27] @ n @ [CHR 0x27] @ ''.'' @ [CHR 0x0A], True)"
proof
  let ?d = "xfer_packet n (bytes_of s) (length s)"
  have len: "unat (of_nat (length s) :: 64 word) = length s" using s(3) by (simp add: unat_of_nat)
  then have pos: "(of_nat (length s) :: 64 word) \<noteq> 0" using s(1) by (metis unat_0 length_0_conv)
  have req: "rtemgr_data_emit Y ?d 4096 = Inr (Some req)"
    using emit_trimmed [of "xfer_packet n (bytes_of s @ [0]) (length s)" "bytes_of s" "[0]" Y 4096] len
      client(2) [unfolded xfer_words [OF client(1) n(1)]]
    by (simp add: xfer_packet_def no_cmd_def)
  have "Rtemgr_Wire.data_ok (packet RTECMD_XFER [n])" by (rule packet_ok) (use n in \<open>simp_all add: is_int_def\<close>)
  then have ok: "Rtemgr_Wire.data_ok ?d"
    using len s(3) by (simp add: Rtemgr_Wire.data_ok_def xfer_packet_def packet_def no_cmd_def value_ok_def is_int_def)
  have parsed: "rtemgr_data_parse Y req = Inr (Some ?d)"
    using emitted_parses [OF libs ok req] pos by (simp add: xfer_packet_def)
  have sent: "iface_managed_handler X Y self (length req) req st = transferred X n s st (Option.bind r (ifaces st))" for self
  proof (cases r)
    case None
    with parsed found show ?thesis
      by (simp add: iface_managed_handler_def taken_def xfer_packet_def packet_def transferred_def)
  next
    case (Some p)
    with dest obtain q where "ifaces st p = Some q" "read_str (i_name q) = Inr n" "i_managed q = 0" by blast
    with parsed found Some pos len bytes_no_nul [OF s(2)] show ?thesis
      by (auto simp: iface_managed_handler_def taken_def xfer_packet_def packet_def transferred_def to_spi_or_i2c_def)
  qed
  have echo: "?d\<lparr>cmd := (cmd ?d)\<lparr>cmd_error := -1\<rparr>\<rparr>\<lparr>cmd := (cmd ?d)\<lparr>cmd_error := 0\<rparr>\<rparr> = ?d"
    by (simp add: xfer_packet_def no_cmd_def)
  have act: "action (cmd ?d) = RTECMD_XFER" by (simp add: xfer_packet_def)
  show "process_ctlport X Y F (length req) req st =
      and_then (transferred X n s st (Option.bind r (ifaces st))) (xfer_rt X RTEMGRD_CTLPORT req)"
    using parsed sent act req echo
    by (auto simp: process_ctlport_def taken_def run_command_def and_then_assoc intro!: and_then_cong)
  show "reply_callback Y (length req) req =
      Inr (''Data successfully transfered to '' @ [CHR 0x27] @ n @ [CHR 0x27] @ ''.'' @ [CHR 0x0A], True)"
    using parsed act n
    by (simp add: reply_callback_def taken_def cleanup_interfaces xfer_packet_def packet_def reply_text_def report_def
        quoted_def read_strncpy no_cmd_def)
qed

subsection \<open>The commands on a sample daemon\<close>

lemma sample_request:
  assumes "is_int act" "\<forall>n \<in> set names. NUL \<notin> set n \<and> length n < 16" "int (length names) < 2 ^ 31"
  obtains req where "rtemgr_data_emit sample_libs (packet act names) 4096 = Inr (Some req)"
  using sample_emitted [OF packet_ok [OF assms]] by (auto simp: packet_def no_cmd_def value_room_def)

lemma sample_printable: "printable sample_daemon"
  using sample_listable
  by (auto simp: printable_def sample_daemon_def sample_iface_def is_int_def ran_def split: if_splits)

lemma list_reply_emitted:
  assumes "list_reply sample_libs st d"
  obtains bs where "rtemgr_data_emit sample_libs d 4096 = Inr (Some bs)"
  using assms sample_emitted [of d 4096] by (auto simp: list_reply_def packet_def no_cmd_def value_room_def estimated_def)

theorem list_end_to_end_witness:
  "\<exists>req bs. rtemgr_data_emit sample_libs (packet RTECMD_LIST [[]]) 4096 = Inr (Some req) \<and>
     process_ctlport sample_outside sample_libs (\<lambda>_. None) (length req) req sample_daemon =
       xfer_rt sample_outside RTEMGRD_CTLPORT bs sample_daemon \<and>
     reply_callback sample_libs (length bs) bs = Inr (listing_text sample_daemon, True) \<and>
     length (listing_text sample_daemon) = 4 * 78"
proof -
  obtain req where req: "rtemgr_data_emit sample_libs (packet RTECMD_LIST [[]]) 4096 = Inr (Some req)"
    by (rule sample_request [of RTECMD_LIST "[[]]"]) (simp_all add: is_int_def)
  have heap: "heap sample_libs n" for n by (simp add: sample_libs_def)
  from list_end_to_end [OF libs_ok_sample heap sample_printable req, of sample_outside "\<lambda>_. None"]
  obtain d where d: "list_reply sample_libs sample_daemon d"
      "process_ctlport sample_outside sample_libs (\<lambda>_. None) (length req) req sample_daemon =
        and_then (rtemgr_data_emit sample_libs d 4096) (\<lambda>out.
          (case out of None \<Rightarrow> Inr sample_daemon
           | Some bs \<Rightarrow> xfer_rt sample_outside RTEMGRD_CTLPORT bs sample_daemon))"
      "\<forall>bs. rtemgr_data_emit sample_libs d 4096 = Inr (Some bs) \<longrightarrow>
        reply_callback sample_libs (length bs) bs = Inr (listing_text sample_daemon, True)" by blast
  obtain bs where "rtemgr_data_emit sample_libs d 4096 = Inr (Some bs)" using d(1) by (rule list_reply_emitted)
  moreover have "length (listing_text sample_daemon) = 4 * 78" by code_simp
  ultimately show ?thesis using req d(2,3) by auto
qed

theorem route_end_to_end_witness:
  "\<exists>req d. rtemgr_data_emit sample_libs (packet RTECMD_ROUTE [''a'', ''c'']) 4096 = Inr (Some req) \<and>
     process_ctlport sample_outside sample_libs (\<lambda>_. None) (length req) req sample_daemon =
       and_then (rtemgr_data_emit sample_libs d 4096) (\<lambda>out.
        (case out of None \<Rightarrow> Inr (linked 1 3 sample_daemon)
         | Some bs \<Rightarrow> xfer_rt sample_outside RTEMGRD_CTLPORT bs (linked 1 3 sample_daemon)))"
proof -
  obtain req where req: "rtemgr_data_emit sample_libs (packet RTECMD_ROUTE [''a'', ''c'']) 4096 = Inr (Some req)"
    by (rule sample_request [of RTECMD_ROUTE "[''a'', ''c'']"]) (simp_all add: is_int_def)
  have heap: "heap sample_libs n" for n by (simp add: sample_libs_def)
  have names: "NUL \<notin> set ''a''" "length ''a'' < 16" "NUL \<notin> set ''c''" "length ''c'' < 16" by simp_all
  have found: "lookup (new_intf\<lparr>if_name := strncpy 16 ''a''\<rparr>) sample_daemon = Inr (Some 1)"
      "lookup (new_intf\<lparr>if_name := strncpy 16 ''c''\<rparr>) sample_daemon = Inr (Some 3)" "(1 :: nat) \<noteq> 3"
    by (simp_all add: lookup_def iface_lookup_by_name_def domain_lookup_by_id_def sample_daemon_def sample_iface_def
        new_intf_def read_strncpy)
  have ab: "ifaces sample_daemon 1 = Some (sample_iface CHR ''a'')" "ifaces sample_daemon 3 = Some (sample_iface CHR ''c'')"
    by (simp_all add: sample_daemon_def)
  have i: "i_managed (sample_iface c) = 0" "i_pending (sample_iface c) = []"
      "i_handler (sample_iface c) = Some Raw_Handler" for c by (simp_all add: sample_iface_def)
  have "read_str (i_name (sample_iface CHR ''c'')) = Inr ''c''" by (simp add: sample_iface_def read_strncpy)
  from route_end_to_end [OF libs_ok_sample heap names req found ab i(1,1,2,2) this i(3), of sample_outside "\<lambda>_. None"] req
  show ?thesis by blast
qed

theorem xfer_end_to_end_witness:
  "\<exists>d req. subcmd_opt_check sample_libs \<lparr>room = (\<lambda>n. 24), zeroed = True\<rparr>
       (get_rtemgr_action sample_libs \<lparr>room = (\<lambda>n. 24), zeroed = True\<rparr> ''xfer'') [(CHR ''w'', ''hi'')] [''b''] = Inr (Some d) \<and>
     rtemgr_data_emit sample_libs d 4096 = Inr (Some req) \<and>
     process_ctlport sample_outside sample_libs (\<lambda>_. None) (length req) req sample_bound =
       and_then (xfer_rt sample_outside ''b'' (bytes_of ''hi'') sample_bound) (xfer_rt sample_outside RTEMGRD_CTLPORT req)"
proof -
  let ?d = "xfer_packet ''b'' (bytes_of ''hi'') 2" and ?c = "xfer_packet ''b'' (bytes_of ''hi'' @ [0]) 2"
  let ?R = "\<lparr>room = (\<lambda>n. 24), zeroed = True\<rparr>"
  have heap: "heap sample_libs k" for k by (simp add: sample_libs_def)
  have "Rtemgr_Wire.data_ok (packet RTECMD_XFER [''b''])" by (rule packet_ok) (simp_all add: is_int_def)
  then have "Rtemgr_Wire.data_ok ?d"
    by (simp add: Rtemgr_Wire.data_ok_def xfer_packet_def packet_def no_cmd_def value_ok_def is_int_def)
  from sample_emitted [OF this, of 4096] obtain req where "rtemgr_data_emit sample_libs ?d 4096 = Inr (Some req)"
    by (auto simp: xfer_packet_def no_cmd_def value_room_def estimated_def)
  then have req: "rtemgr_data_emit sample_libs ?c 4096 = Inr (Some req)"
    using emit_trimmed [of ?c "bytes_of ''hi''" "[0]" sample_libs 4096] by (simp add: xfer_packet_def no_cmd_def)
  have c: "subcmd_opt_check sample_libs ?R (get_rtemgr_action sample_libs ?R ''xfer'') [(CHR ''w'', ''hi'')] [''b''] =
      Inr (Some ?c)" by code_simp
  have name: "''b'' \<noteq> []" "NUL \<notin> set ''b''" "length ''b'' < 16" "''hi'' \<noteq> []" "NUL \<notin> set ''hi''" "length ''hi'' < 2 ^ 32"
    by simp_all
  have "target 0 ''b'' = new_intf\<lparr>if_name := strncpy 16 ''b''\<rparr>" by (simp add: target_def new_intf_def)
  with sample_target(1) have found: "lookup (new_intf\<lparr>if_name := strncpy 16 ''b''\<rparr>) sample_bound = Inr (Some 2)" by simp
  have "\<exists>q. ifaces sample_bound p = Some q \<and> read_str (i_name q) = Inr ''b'' \<and> i_managed q = 0" if "Some 2 = Some p" for p
    using that sample_target(2,3) by (simp add: sample_iface_def)
  from xfer_end_to_end [OF libs_ok_sample heap name c req found this, of sample_outside "\<lambda>_. None"] sample_target(2)
  have "process_ctlport sample_outside sample_libs (\<lambda>_. None) (length req) req sample_bound =
      and_then (xfer_rt sample_outside ''b'' (bytes_of ''hi'') sample_bound) (xfer_rt sample_outside RTEMGRD_CTLPORT req)"
    by (simp add: transferred_def sample_iface_def)
  with c req show ?thesis by blast
qed

end
