(* ===== verification/Rtemgr_Remote.thy ===== *)
theory Rtemgr_Remote
  imports Rtemgr_Session
begin

section \<open>A command over the control socket\<close>

text \<open>
  The same, with everything in between: the connection of the client, the IPC endpoint of the
  daemon's control interface, and the loopback endpoint that it is bound to.
\<close>

text \<open>The daemon's callback handles the messages that arrive, whole and in order.\<close>

lemma daemon_feed:
  assumes "mem X = (\<lambda>_. True)" "\<forall>m \<in> set ms. sendable m" "concat chunks = concat (map frame ms)"
  shows "feed (daemon_on_data X Y F p) st [] chunks =
    and_then (each (\<lambda>m. loop_message X Y F p (length m) m) ms st) (\<lambda>st'. Inr (st', []))"
  using feed_batch [OF assms(2,3)] assms(1) by (simp add: daemon_on_data_def [abs_def])

definition control_ready :: "daemon \<Rightarrow> loop \<Rightarrow> bev \<Rightarrow> bool" where
  "control_ready st lo w \<longleftrightarrow> lookup_lo RTEMGRD_CTLPORT (rt st) = Some lo \<and>
     find_loop (lo_addr lo) (rt st) = Inr lo \<and> lo_cb lo \<noteq> None \<and>
     (\<exists>c. cores (rt st) (lo_self lo) = Some c \<and> ep_bev c = Some w)"

definition client_ready :: "client \<Rightarrow> cn \<Rightarrow> int \<Rightarrow> nat \<Rightarrow> bool" where
  "client_ready C s key b \<longleftrightarrow> \<not> ctx_locked s \<and> keeps_lock C \<and> cl_mem C = (\<lambda>_. True) \<and>
     (\<exists>a c. dtbl_get (ctx_tbl s) key = Some a \<and> ctxs s a = Some c \<and> cx_bev c = Some b)"

lemma control_ready_calls [simp]:
  "control_ready (st\<lparr>rt := (rt st)\<lparr>lev_calls := h\<rparr>\<rparr>) lo w = control_ready st lo w"
  by (simp add: control_ready_def lookup_lo_def find_loop_def)

lemma control_message:
  assumes "control_ready st lo w"
  shows "loop_message X Y F (lo_addr lo) len msg st = process_ctlport X Y F len msg st"
  using assms lookup_lo_Some [of RTEMGRD_CTLPORT "rt st" lo]
  by (auto simp: control_ready_def loop_message_def default_domain_handler_def)

lemma control_reply:
  assumes "control_ready st lo w"
  shows "xfer_rt X RTEMGRD_CTLPORT bs st = Inr (st\<lparr>rt := lev_call (Bev_Write w (frame bs)) (rt st)\<rparr>)"
  using assms
  by (auto simp: control_ready_def xfer_rt_def rteipc_xfer_def lo_bev_def rteipc_buffer_def rteipc_evbuffer_def
      bufferevent_write_buffer_def)

lemma client_sends:
  assumes "client_ready C s key b"
  shows "rteipc_send C key bs s = Inr (sock_write C b (frame bs) s)"
  using assms by (auto simp: client_ready_def rteipc_send_def read_bev_def rteipc_buffer_def rteipc_evbuffer_def)

lemma client_gets:
  assumes "client_ready C s key b" "sendable bs" "concat chunks = frame bs"
  shows "feed (connect_read_cb C key) (cn_call c s) [] chunks =
    and_then (receive C key bs (cn_call c s)) (\<lambda>s'. Inr (s', []))"
proof -
  have "\<not> ctx_locked (cn_call c s)" using assms(1) by (simp add: client_ready_def cn_call_def)
  with client_feed [of C "cn_call c s" "[bs]" chunks key] assms
  show ?thesis by (cases "receive C key bs (cn_call c s)") (simp_all add: client_ready_def)
qed

text \<open>
  Bytes through the IPC endpoint \<open>dd\<close>, cut into whatever chunks: from the client to its partner,
  in a state in which \<open>run\<close> holds for every way to cut them again, and back to the client.
\<close>

definition passes_up ::
  "os \<Rightarrow> bev \<Rightarrow> ipc_data \<Rightarrow> rsys \<Rightarrow> byte list \<Rightarrow> (rsys \<Rightarrow> byte list list \<Rightarrow> bool) \<Rightarrow> bool" where
  "passes_up E x dd g bytes run \<longleftrightarrow>
     (\<forall>chunks chunks'. concat chunks = bytes \<and> concat chunks' = bytes \<longrightarrow>
       (\<exists>g1. ipc_run E x (map Client_Sends chunks) (dd, [], g) = (dd, [], g1) \<and>
          to_partner x (lev_calls g1) = to_partner x (lev_calls g) @ bytes \<and> run g1 chunks'))"

definition passes_down :: "os \<Rightarrow> bev \<Rightarrow> ipc_data \<Rightarrow> rsys \<Rightarrow> byte list \<Rightarrow> bool" where
  "passes_down E x dd g bytes \<longleftrightarrow>
     (\<forall>chunks. concat chunks = bytes \<longrightarrow>
       (\<exists>g1. ipc_run E x (map Partner_Sends chunks) (dd, [], g) = (dd, [], g1) \<and>
          to_clients (os_calls g1) = to_clients (os_calls g) @ bytes))"

text \<open>The client's callback runs once, on the message \<open>m\<close>, however \<open>bytes\<close> are cut.\<close>

definition client_hears :: "client \<Rightarrow> int \<Rightarrow> cn \<Rightarrow> byte list \<Rightarrow> byte list \<Rightarrow> bool" where
  "client_hears C key s bytes m \<longleftrightarrow>
     (\<forall>chunks. concat chunks = bytes \<longrightarrow>
       feed (connect_read_cb C key) s [] chunks = and_then (receive C key m s) (\<lambda>s2. Inr (s2, [])))"

lemma passes_upI:
  assumes "ipc_cli dd = Some cl" "\<And>h chunks. concat chunks = bytes \<Longrightarrow> run (g\<lparr>lev_calls := h\<rparr>) chunks"
  shows "passes_up E x dd g bytes run"
  using assms by (auto simp: passes_up_def ipc_run_sends to_partner_writes)

lemma passes_downI: "ipc_cli dd = Some cl \<Longrightarrow> passes_down E x dd g bytes"
  using ipc_run_downstream by (fastforce simp: passes_down_def)

text \<open>
  C5: \<open>rtemgr list\<close> over the socket. What the client writes, cut into chunks by the
  socket and again by the buffers of the endpoints, makes the daemon handle one packet and write
  one message, if the reply fits into its buffers; this comes back through the endpoint to the
  client, whatever the chunks, whose callback runs once, on a message that it prints as the table
  of the daemon's interfaces. Nothing but the log of writes of the daemon has changed.
\<close>

theorem list_over_ipc:
  assumes libs: "libs_ok Y" "\<And>n. heap Y n" and st: "printable st" "control_ready st lo w" "mem X = (\<lambda>_. True)"
    and req: "rtemgr_data_emit Y (packet RTECMD_LIST [[]]) 4096 = Inr (Some req)" "sendable req"
    and client: "client_ready C s key b" and server: "ipc_cli dd = Some cl"
  shows "\<exists>d r s1 bytes. list_reply Y st d \<and>
    rteipc_send C key req s = Inr (r, s1) \<and> cn_calls s1 = Sock_Write b bytes # cn_calls s \<and>
    (\<forall>out. rtemgr_data_emit Y d 4096 = Inr (Some out) \<and> sendable out \<longrightarrow>
      passes_up E x dd (rt st) bytes (\<lambda>g chunks.
        \<exists>reply g2. g2 = g\<lparr>lev_calls := Bev_Write w reply # lev_calls g\<rparr> \<and>
          feed (daemon_on_data X Y F (lo_addr lo)) (st\<lparr>rt := g\<rparr>) [] chunks = Inr (st\<lparr>rt := g2\<rparr>, []) \<and>
          passes_down E x dd g2 reply \<and> client_hears C key s1 reply out) \<and>
      reply_callback Y (length out) out = Inr (listing_text st, True))"
proof -
  from list_exchange [OF libs st(1) req(1), of X F] obtain d where
    d: "list_reply Y st d" and process: "process_ctlport X Y F (length req) req (st\<lparr>rt := g\<rparr>) =
      and_then (rtemgr_data_emit Y d 4096) (\<lambda>out.
        (case out of None \<Rightarrow> Inr (st\<lparr>rt := g\<rparr>) | Some bs \<Rightarrow> xfer_rt X RTEMGRD_CTLPORT bs (st\<lparr>rt := g\<rparr>)))"
    and reply: "rtemgr_data_emit Y d 4096 = Inr (Some bs) \<Longrightarrow> reply_callback Y (length bs) bs = Inr (listing_text st, True)"
    for g bs by blast
  define s1 where "s1 = cn_call (Sock_Write b (frame req)) s"
  have send: "rteipc_send C key req s = Inr (sock_status C (cn_calls s) b (frame req), s1)"
      "cn_calls s1 = Sock_Write b (frame req) # cn_calls s"
    using client_sends [OF client] by (simp_all add: sock_write_def s1_def cn_call_def)
  have daemon: "feed (daemon_on_data X Y F (lo_addr lo)) (st\<lparr>rt := (rt st)\<lparr>lev_calls := h\<rparr>\<rparr>) [] chunks =
      Inr (st\<lparr>rt := (rt st)\<lparr>lev_calls := Bev_Write w (frame out) # h\<rparr>\<rparr>, [])"
    if "rtemgr_data_emit Y d 4096 = Inr (Some out)" "concat chunks = frame req" for out chunks h
  proof -
    have ready: "control_ready (st\<lparr>rt := (rt st)\<lparr>lev_calls := h\<rparr>\<rparr>) lo w" using st(2) by simp
    have "loop_message X Y F (lo_addr lo) (length req) req (st\<lparr>rt := (rt st)\<lparr>lev_calls := h\<rparr>\<rparr>) =
        Inr (st\<lparr>rt := (rt st)\<lparr>lev_calls := Bev_Write w (frame out) # h\<rparr>\<rparr>)"
      using control_message [OF ready] control_reply [OF ready] process that(1) by (simp add: lev_call_def)
    with daemon_feed [OF st(3), of "[req]" chunks] req(2) that(2) show ?thesis by simp
  qed
  have gets: "client_hears C key s1 (frame out) out" if "sendable out" for out
    using client_gets [OF client that] by (simp add: s1_def client_hears_def)
  show ?thesis
    using d send reply daemon gets
    by (intro exI [of _ d] exI [of _ s1] exI [of _ "frame req"] exI [of _ "sock_status C (cn_calls s) b (frame req)"]
        allI impI conjI passes_upI [OF server] exI [of _ "frame _"] exI) (auto intro: passes_downI [OF server])
qed

subsection \<open>A sample session\<close>

text \<open>A daemon that has its control interface, but no other.\<close>

definition sample_control :: daemon where
  "sample_control = sample_daemon\<lparr>ifaces := Map.empty, domains := [], rt := idle_sys\<lparr>
     lo_list := [\<lparr>lo_addr = 9, lo_self = 0, lo_name = RTEMGRD_CTLPORT, lo_cb = Some 0, lo_arg = 2\<rparr>],
     cores := [0 \<mapsto> \<lparr>core_id = 0, partner_id = 1, ep_type = EP_LOOP, ep_base = None, ep_bev = Some 5,
       ep_data = Some (Loop_Priv 9)\<rparr>]\<rparr>\<rparr>"

definition sample_server :: ipc_data where
  "sample_server = \<lparr>ipc_mem = 0, ipc_el = 1, ipc_cli = Some 4, ipc_path = None, ipc_abstract = True\<rparr>"

lemma scalar_length: "length (concat (map (\<lambda>b. [1, b]) (bytes_of s))) = 2 * length s"
  by (induction s) (simp_all add: bytes_of_def)

lemma c_string_nuls: "c_string (replicate n NUL) = []"
  by (cases n) (simp_all add: c_string_def)

lemma sample_list_request:
  obtains req where "rtemgr_data_emit sample_libs (packet RTECMD_LIST [[]]) 4096 = Inr (Some req)" "sendable req"
proof -
  obtain req where req: "rtemgr_data_emit sample_libs (packet RTECMD_LIST [[]]) 4096 = Inr (Some req)"
    by (rule sample_request [of RTECMD_LIST "[[]]"]) (simp_all add: is_int_def)
  have "sendable (sample_text (data_events sample_libs (packet RTECMD_LIST [[]])))"
    by (simp add: sendable_def scalar_length event_tags_def strncpy_def data_events_def packet_events_def packet_def
        no_cmd_def value_text_def sample_libs_def intf_events_def cmd_events_def new_intf_def show_d_def show_base.simps
        c_string_nuls)
  with emitted_data [OF req] have "sendable req" by (simp add: sample_libs_def)
  with req show thesis by (rule that)
qed

lemma sample_list_reply:
  assumes "list_reply sample_libs sample_control d"
  obtains out where "rtemgr_data_emit sample_libs d 4096 = Inr (Some out)" "sendable out"
proof -
  from assms have d: "nr_intf d = 0" "interfaces d = []" "cmd d = (cmd (carried sample_libs (packet RTECMD_LIST [[]])))\<lparr>cmd_error := 0\<rparr>"
    by (auto simp: list_reply_def sample_control_def Rtemgr_Wire.data_ok_def)
  obtain out where out: "rtemgr_data_emit sample_libs d 4096 = Inr (Some out)"
    using assms by (rule list_reply_emitted)
  have "sendable (sample_text (data_events sample_libs d))"
    by (simp add: d(1,2,3) carried_def sendable_def scalar_length event_tags_def data_events_def packet_events_def packet_def
        no_cmd_def value_text_def sample_libs_def cmd_events_def show_d_def show_base.simps)
  with emitted_data [OF out] have "sendable out" by (simp add: sample_libs_def)
  with out show thesis by (rule that)
qed

text \<open>The session with this daemon: the client prints nothing.\<close>

theorem list_over_ipc_witness:
  "\<exists>req out r s1 bytes. rtemgr_data_emit sample_libs (packet RTECMD_LIST [[]]) 4096 = Inr (Some req) \<and>
     rteipc_send echo_client 0 req open_cn = Inr (r, s1) \<and> cn_calls s1 = Sock_Write 3 bytes # cn_calls open_cn \<and>
     passes_up counting_os 6 sample_server (rt sample_control) bytes (\<lambda>g chunks.
       \<exists>reply g2. g2 = g\<lparr>lev_calls := Bev_Write 5 reply # lev_calls g\<rparr> \<and>
         feed (daemon_on_data sample_outside sample_libs (\<lambda>_. None) 9) (sample_control\<lparr>rt := g\<rparr>) [] chunks =
           Inr (sample_control\<lparr>rt := g2\<rparr>, []) \<and>
         passes_down counting_os 6 sample_server g2 reply \<and> client_hears echo_client 0 s1 reply out) \<and>
     reply_callback sample_libs (length out) out = Inr ([], True)"
proof -
  let ?lo = "\<lparr>lo_addr = 9, lo_self = 0, lo_name = RTEMGRD_CTLPORT, lo_cb = Some 0, lo_arg = 2\<rparr>"
  obtain req where req: "rtemgr_data_emit sample_libs (packet RTECMD_LIST [[]]) 4096 = Inr (Some req)" "sendable req"
    by (rule sample_list_request)
  have heap: "heap sample_libs n" for n by (simp add: sample_libs_def)
  have st: "printable sample_control" "listing_text sample_control = []"
    by (simp_all add: printable_def listable_def sample_control_def listing_text_def)
  have lo: "control_ready sample_control ?lo 5"
    by (simp add: control_ready_def sample_control_def lookup_lo_def find_loop_def)
  have mem: "mem sample_outside = (\<lambda>_. True)" by (simp add: sample_outside_def)
  have cl: "client_ready echo_client open_cn 0 3"
    using open_cn_facts keeps_lock_echo by (auto simp: client_ready_def echo_client_def)
  have server: "ipc_cli sample_server = Some 4" by (simp add: sample_server_def)
  from list_over_ipc [OF libs_ok_sample heap st(1) lo mem req cl server, where F = "\<lambda>_. None" and E = counting_os and x = 6]
  obtain d r s1 bytes where d: "list_reply sample_libs sample_control d"
    and sent: "rteipc_send echo_client 0 req open_cn = Inr (r, s1)" "cn_calls s1 = Sock_Write 3 bytes # cn_calls open_cn"
    and all: "\<forall>out. rtemgr_data_emit sample_libs d 4096 = Inr (Some out) \<and> sendable out \<longrightarrow>
      passes_up counting_os 6 sample_server (rt sample_control) bytes (\<lambda>g chunks.
        \<exists>reply g2. g2 = g\<lparr>lev_calls := Bev_Write 5 reply # lev_calls g\<rparr> \<and>
          feed (daemon_on_data sample_outside sample_libs (\<lambda>_. None) (lo_addr ?lo)) (sample_control\<lparr>rt := g\<rparr>) [] chunks =
            Inr (sample_control\<lparr>rt := g2\<rparr>, []) \<and>
          passes_down counting_os 6 sample_server g2 reply \<and> client_hears echo_client 0 s1 reply out) \<and>
      reply_callback sample_libs (length out) out = Inr (listing_text sample_control, True)" by blast
  from d obtain out where "rtemgr_data_emit sample_libs d 4096 = Inr (Some out)" "sendable out"
    by (rule sample_list_reply)
  with all req(1) sent st(2) show ?thesis by (intro exI [of _ req] exI [of _ out] exI [of _ r] exI [of _ s1] exI [of _ bytes]) simp
qed

end
