(* ===== verification/Demo.thy ===== *)
theory Demo
  imports Ep_Api Numbers
begin

section \<open>The programs for devices under src/demo\<close>

text \<open>
  \<open>sample_i2c\<close>, \<open>sample_spi\<close>, \<open>sample_sysfs\<close> and \<open>sample_tty\<close>: each opens the loop \<open>lo\<close> and the
  device of a URI, binds them, sends requests to the loop and prints what comes back. The state
  is the library, what has been printed, and the argument of \<open>event_base_loopbreak\<close> once it has
  been called. A program ends by printing its usage, by reporting that it cannot bind the
  device, or after the event loop; \<open>run\<close> is what the callbacks do while the loop runs. The order
  in which C evaluates the two arguments of \<open>rteipc_bind\<close> is unspecified: \<open>lo_first\<close>. A pointer
  is a number, NULL is 0. \<open>getopt\<close> is not modelled: the options with their arguments, and the
  first word behind them, are what it delivers.
\<close>

record demo =
  dm_lib :: rsys
  dm_out :: string
  dm_break :: "nat option"

datatype demo_end = Usage | Not_Bound | Finished

definition print :: "string \<Rightarrow> demo \<Rightarrow> demo" where
  "print s st = st\<lparr>dm_out := dm_out st @ s\<rparr>"

definition loopbreak :: "nat \<Rightarrow> demo \<Rightarrow> demo" where
  "loopbreak eb st = (if eb = 0 then st else st\<lparr>dm_break := Some eb\<rparr>)"

definition as_ptr :: "nat option \<Rightarrow> nat" where
  "as_ptr b = (case b of None \<Rightarrow> 0 | Some n \<Rightarrow> Suc n)"

text \<open>\<open>event_base_new\<close> returns \<open>new\<close>.\<close>

definition event_base_new :: "nat option \<Rightarrow> demo \<Rightarrow> demo" where
  "event_base_new new st =
     st\<lparr>dm_lib := (dm_lib st)\<lparr>live_bases := live_bases (dm_lib st) \<union> set_option new\<rparr>\<rparr>"

text \<open>\<open>other\<close> is what \<open>event_base_new\<close> returns inside \<open>rteipc_init(NULL)\<close>.\<close>

definition demo_init :: "nat option \<Rightarrow> nat option \<Rightarrow> demo \<Rightarrow> demo" where
  "demo_init new other st = st\<lparr>dm_lib := rteipc_init new other (dm_lib st)\<rparr>"

definition open_and_bind :: "outside \<Rightarrow> bool \<Rightarrow> string \<Rightarrow> demo \<Rightarrow> (int \<times> demo) outcome" where
  "open_and_bind X lo_first uri st =
     and_then
       (if lo_first then
          and_then (rteipc_open X ''lo'' (dm_lib st)) (\<lambda>(l, st1).
          and_then (rteipc_open X uri st1) (\<lambda>(d, st2). Inr (l, d, st2)))
        else
          and_then (rteipc_open X uri (dm_lib st)) (\<lambda>(d, st1).
          and_then (rteipc_open X ''lo'' st1) (\<lambda>(l, st2). Inr (l, d, st2)))) (\<lambda>(l, d, st2).
     and_then (rteipc_bind (levent X) l d st2) (\<lambda>(r, st3). Inr (r, st\<lparr>dm_lib := st3\<rparr>)))"

text \<open>A call of the library that returns a status, which the programs ignore.\<close>

definition ignoring :: "(rsys \<Rightarrow> (int \<times> rsys) outcome) \<Rightarrow> demo \<Rightarrow> demo outcome" where
  "ignoring f st = and_then (f (dm_lib st)) (\<lambda>(_, l). Inr (st\<lparr>dm_lib := l\<rparr>))"

definition loop_and_end ::
  "bool \<Rightarrow> (demo \<Rightarrow> demo outcome) \<Rightarrow> demo \<Rightarrow> (demo_end \<times> demo) outcome" where
  "loop_and_end tv run st =
     and_then (rteipc_dispatch tv (dm_lib st)) (\<lambda>l1.
     and_then (run (st\<lparr>dm_lib := l1\<rparr>)) (\<lambda>st1.
     and_then (rteipc_shutdown (dm_lib st1)) (\<lambda>l2. Inr (Finished, st1\<lparr>dm_lib := l2\<rparr>))))"

text \<open>
  \<open>uri == strstr(uri, scheme)\<close>: the first occurrence is in front.
\<close>

definition starts_with :: "string \<Rightarrow> string \<Rightarrow> bool" where
  "starts_with scheme uri \<longleftrightarrow> take (length scheme) uri = scheme"


subsection \<open>Bytes on the command line\<close>

text \<open>\<open>strtok\<close>: the next token, and what is behind the separator that ends it.\<close>

definition strtok :: "char \<Rightarrow> string \<Rightarrow> (string \<times> string) option" where
  "strtok sep s =
     (let t = dropWhile (\<lambda>c. c = sep) s
      in if t = [] then None
         else Some (takeWhile (\<lambda>c. c \<noteq> sep) t, drop 1 (dropWhile (\<lambda>c. c \<noteq> sep) t)))"

abbreviation (input) MAX_BYTES :: nat where "MAX_BYTES \<equiv> 32"

text \<open>The loop over the tokens, with room for so many bytes; the first token may be NULL.\<close>

fun tx_loop :: "nat \<Rightarrow> string \<Rightarrow> string \<Rightarrow> byte list" where
  "tx_loop 0 hex rest = []"
| "tx_loop (Suc n) hex rest =
     ucast (strtoul 16 hex) #
       (if n = 0 then []
        else (case strtok CHR '' '' rest of None \<Rightarrow> [] | Some (h, r) \<Rightarrow> tx_loop n h r))"

definition read_tx :: "string \<Rightarrow> byte list outcome" where
  "read_tx s =
     (case strtok CHR '' '' s of
        None \<Rightarrow> Inl Null_Deref
      | Some (h, r) \<Rightarrow> Inr (tx_loop MAX_BYTES h r))"

definition show_bytes :: "byte list \<Rightarrow> string" where
  "show_bytes bs = concat (map (\<lambda>b. '' 0x'' @ show_02x b) bs)"

definition newline :: string where
  "newline = [CHR 0x0A]"


subsection \<open>Callbacks\<close>

type_synonym demo_cb = "string \<Rightarrow> byte list \<Rightarrow> nat \<Rightarrow> nat \<Rightarrow> demo \<Rightarrow> demo outcome"

text \<open>What \<open>loop_on_data\<close> runs when the callback of the program is registered.\<close>

definition demo_message :: "demo_cb \<Rightarrow> nat \<Rightarrow> nat \<Rightarrow> byte list \<Rightarrow> demo \<Rightarrow> demo outcome" where
  "demo_message cb p len msg st =
     and_then (find_loop p (dm_lib st)) (\<lambda>lo.
     if lo_cb lo = None then Inr st else cb (lo_name lo) msg len (lo_arg lo) st)"

definition demo_on_data ::
  "(nat \<Rightarrow> bool) \<Rightarrow> demo_cb \<Rightarrow> nat \<Rightarrow> demo \<Rightarrow> byte list \<Rightarrow> (demo \<times> byte list) outcome" where
  "demo_on_data M cb p st inp = drain_loop M (demo_message cb p) st inp"

definition read_bytes :: demo_cb where
  "read_bytes name msg len arg st =
     (if length msg < len then Inl Out_Of_Bounds
      else Inr (loopbreak arg
        (print (''read : ['' @ show_bytes (take len msg) @ '' ]'' @ newline) st)))"

text \<open>
  \<open>printf("%.*s", len, data)\<close>: the precision is an \<open>int\<close>, and a negative one counts as none.
\<close>

definition shown_text :: "nat \<Rightarrow> byte list \<Rightarrow> string outcome" where
  "shown_text len msg =
     (if length msg < len then Inl Out_Of_Bounds
      else if 2 ^ 31 \<le> len then read_str (text_of msg)
      else Inr (c_string (text_of (take len msg))))"

definition read_sysfs :: demo_cb where
  "read_sysfs name msg len arg st =
     and_then (shown_text len msg) (\<lambda>s. Inr (loopbreak arg (print (s @ newline) st)))"

definition read_tty :: demo_cb where
  "read_tty name msg len arg st = and_then (shown_text len msg) (\<lambda>s. Inr (print s st))"


subsection \<open>sample_i2c\<close>

record i2c_args =
  ia_addr :: "16 word"
  ia_rsize :: "16 word"
  ia_buf :: "string option"

definition i2c_option :: "(nat \<Rightarrow> bool) \<Rightarrow> char \<times> string \<Rightarrow> i2c_args \<Rightarrow> i2c_args option" where
  "i2c_option M opt a =
     (let (c, optarg) = opt in
      if c = CHR ''a'' then Some (a\<lparr>ia_addr := ucast (strtoul 16 optarg)\<rparr>)
      else if c = CHR ''r'' then
        (let r = word_of_int (fst (strtol10 optarg))
         in Some (a\<lparr>ia_rsize := if r > of_nat MAX_BYTES then of_nat MAX_BYTES else r\<rparr>))
      else if c = CHR ''w'' then
        Some (a\<lparr>ia_buf := if M (length optarg + 1) then Some optarg else None\<rparr>)
      else None)"

fun i2c_options :: "(nat \<Rightarrow> bool) \<Rightarrow> (char \<times> string) list \<Rightarrow> i2c_args \<Rightarrow> i2c_args option" where
  "i2c_options M [] a = Some a"
| "i2c_options M (opt # opts) a = Option.bind (i2c_option M opt a) (i2c_options M opts)"

text \<open>From the bound endpoints to the event loop.\<close>

definition i2c_request_and_wait :: "outside \<Rightarrow> nat \<Rightarrow> i2c_args \<Rightarrow> demo \<Rightarrow> demo outcome" where
  "i2c_request_and_wait X eb a st =
     and_then (case ia_buf a of None \<Rightarrow> Inr [] | Some s \<Rightarrow> read_tx s) (\<lambda>tx.
     and_then (ignoring
       (rteipc_i2c_xfer (levent X) ''lo'' (ia_addr a) (Some tx) (of_nat (length tx)) (ia_rsize a))
       (if ia_buf a = None then st else print (''write: ['' @ show_bytes tx @ '' ]'' @ newline) st)) (\<lambda>st1.
     ignoring (\<lambda>l. Inr (rteipc_xfer_setcb ''lo'' (Some 0) eb l)) st1))"

definition sample_i2c ::
  "outside \<Rightarrow> nat option \<Rightarrow> nat option \<Rightarrow> bool \<Rightarrow> (demo \<Rightarrow> demo outcome) \<Rightarrow> (char \<times> string) list \<Rightarrow>
   string option \<Rightarrow> demo \<Rightarrow> (demo_end \<times> demo) outcome" where
  "sample_i2c X new other lo_first run opts uri st0 =
     (let st = event_base_new new st0 in
      case i2c_options (mem X) opts \<lparr>ia_addr = 0, ia_rsize = 0, ia_buf = None\<rparr> of
        None \<Rightarrow> Inr (Usage, st)
      | Some a \<Rightarrow>
          (case uri of
             None \<Rightarrow> Inr (Usage, st)
           | Some u \<Rightarrow>
               if \<not> starts_with ''i2c://'' u \<or> ia_addr a = 0 \<or> (ia_buf a = None \<and> ia_rsize a = 0)
               then Inr (Usage, st)
               else
                 and_then (open_and_bind X lo_first u (demo_init new other st)) (\<lambda>(r, st1).
                 if r \<noteq> 0 then Inr (Not_Bound, st1)
                 else
                   and_then (i2c_request_and_wait X (as_ptr new) a st1)
                     (loop_and_end (ia_rsize a = 0) run))))"


subsection \<open>sample_spi\<close>

definition spi_request_and_wait :: "outside \<Rightarrow> nat \<Rightarrow> string \<Rightarrow> demo \<Rightarrow> demo outcome" where
  "spi_request_and_wait X eb text st =
     and_then (read_tx text) (\<lambda>tx.
     and_then (ignoring
       (rteipc_spi_xfer (levent X) ''lo'' (Some tx) (of_nat (length tx)) True)
       (print (''write: ['' @ show_bytes tx @ '' ]'' @ newline) st)) (\<lambda>st1.
     ignoring (\<lambda>l. Inr (rteipc_xfer_setcb ''lo'' (Some 0) eb l)) st1))"

definition sample_spi ::
  "outside \<Rightarrow> nat option \<Rightarrow> nat option \<Rightarrow> bool \<Rightarrow> (demo \<Rightarrow> demo outcome) \<Rightarrow> string list \<Rightarrow> demo \<Rightarrow>
   (demo_end \<times> demo) outcome" where
  "sample_spi X new other lo_first run args st0 =
     (let st = event_base_new new st0 in
      case args of
        [uri, text] \<Rightarrow>
          if \<not> starts_with ''spi://'' uri then Inr (Usage, st)
          else
            and_then (open_and_bind X lo_first uri (demo_init new other st)) (\<lambda>(r, st1).
            if r \<noteq> 0 then Inr (Not_Bound, st1)
            else and_then (spi_request_and_wait X (as_ptr new) text st1) (loop_and_end False run))
      | _ \<Rightarrow> Inr (Usage, st))"


subsection \<open>sample_sysfs\<close>

definition sysfs_request_and_wait ::
  "outside \<Rightarrow> nat \<Rightarrow> string \<Rightarrow> string option \<Rightarrow> demo \<Rightarrow> demo outcome" where
  "sysfs_request_and_wait X eb attr value st =
     and_then
       (case value of
          None \<Rightarrow> Inr st
        | Some v \<Rightarrow> ignoring (rteipc_sysfs_xfer (levent X) ''lo'' (Some attr) (Some v)) st) (\<lambda>st1.
     and_then (ignoring (rteipc_sysfs_xfer (levent X) ''lo'' (Some attr) None) st1) (\<lambda>st2.
     ignoring (\<lambda>l. Inr (rteipc_xfer_setcb ''lo'' (Some 0) eb l)) st2))"

definition sample_sysfs ::
  "outside \<Rightarrow> nat option \<Rightarrow> nat option \<Rightarrow> bool \<Rightarrow> (demo \<Rightarrow> demo outcome) \<Rightarrow> string list \<Rightarrow> demo \<Rightarrow>
   (demo_end \<times> demo) outcome" where
  "sample_sysfs X new other lo_first run args st0 =
     (let st = event_base_new new st0 in
      case args of
        uri # attr # rest \<Rightarrow>
          if 1 < length rest \<or> \<not> starts_with ''sysfs://'' uri then Inr (Usage, st)
          else
            and_then (open_and_bind X lo_first uri (demo_init new other st)) (\<lambda>(r, st1).
            if r \<noteq> 0 then Inr (Not_Bound, st1)
            else
              and_then (sysfs_request_and_wait X (as_ptr new) attr
                  (case rest of [] \<Rightarrow> None | v # _ \<Rightarrow> Some v) st1)
                (loop_and_end False run))
      | _ \<Rightarrow> Inr (Usage, st))"


subsection \<open>sample_tty\<close>

text \<open>
  The callback of the event on the standard input: \<open>got\<close> is what \<open>read\<close> delivers, at most 256
  bytes, none at the end of the input, or \<open>None\<close> for -1. This becomes a length of 2^64 - 1.
\<close>

definition write_tty :: "lev \<Rightarrow> byte list option \<Rightarrow> demo \<Rightarrow> demo outcome" where
  "write_tty L got st =
     (case got of
        Some bs \<Rightarrow> ignoring (rteipc_xfer L ''lo'' (take 256 bs)) st
      | None \<Rightarrow> (if lookup_lo ''lo'' (dm_lib st) = None then Inr st else Inl Out_Of_Bounds))"

definition sample_tty ::
  "outside \<Rightarrow> nat option \<Rightarrow> nat option \<Rightarrow> bool \<Rightarrow> (demo \<Rightarrow> demo outcome) \<Rightarrow> string list \<Rightarrow> demo \<Rightarrow>
   (demo_end \<times> demo) outcome" where
  "sample_tty X new other lo_first run args st0 =
     (let st = event_base_new new st0 in
      case args of
        [uri] \<Rightarrow>
          if \<not> starts_with ''tty://'' uri then Inr (Usage, st)
          else
            and_then (open_and_bind X lo_first uri (demo_init new other st)) (\<lambda>(r, st1).
            if r \<noteq> 0 then Inr (Not_Bound, st1)
            else
              and_then (ignoring (\<lambda>l. Inr (rteipc_xfer_setcb ''lo'' (Some 0) 0 l)) st1)
                (loop_and_end False run))
      | _ \<Rightarrow> Inr (Usage, st))"

end
