(* ===== verification/Demo_Session.thy ===== *)
theory Demo_Session
  imports Demo Rtemgr_Codec
begin

section \<open>What the programs under src/demo do\<close>

text \<open>
  Whatever the order of the two opens, a program that gets past \<open>rteipc_bind\<close> has its loop and its
  device bound and nothing else; the event loop between them; \<open>sample_i2c\<close> from the command line
  to its output; and what \<open>sample_tty\<close> does at the end of its input.
\<close>


subsection \<open>The loop and the device, bound\<close>

definition fresh_lib :: "rsys \<Rightarrow> bool" where
  "fresh_lib l \<longleftrightarrow> (\<exists>b bs. l = idle_sys\<lparr>base := b, live_bases := bs\<rparr>)"

lemma sys_inv_bases: "sys_inv E (l\<lparr>base := b, live_bases := bs\<rparr>) = sys_inv E l"
proof -
  have "view (l\<lparr>base := b, live_bases := bs\<rparr>) = view l" by (intro ext) (simp add: view_def)
  then show ?thesis
    by (simp add: sys_inv_def core_inv_def find_endpoint_def bound_to_def Ep_Safety.data_ok_def loops_ok_def owns_def)
qed

lemma fresh_libD:
  assumes "fresh_lib l"
  shows "sys_inv E l" "length (registered (ep_tbl l)) = 0" "capacity (ep_tbl l) = 128"
    "lev_calls l = []" "lo_list l = []" "os_calls l = []" "base_calls l = []" "cores l = Map.empty"
proof -
  obtain b bs where l: "l = idle_sys\<lparr>base := b, live_bases := bs\<rparr>" using assms by (auto simp: fresh_lib_def)
  show "sys_inv E l" by (simp only: l sys_inv_bases idle_sys_inv)
qed (use assms in \<open>auto simp: fresh_lib_def idle_sys_def registered_def capacity_def DTBL_INITIALIZER_def
  MAX_NR_EP_def\<close>)

definition bound_device :: "outside \<Rightarrow> string \<Rightarrow> rsys \<Rightarrow> loop \<Rightarrow> bev \<Rightarrow> addr \<Rightarrow> bev \<Rightarrow> ep_priv \<Rightarrow> bool" where
  "bound_device X uri l lo x b y d \<longleftrightarrow>
     loops_ok (osys X) l \<and> lookup_lo ''lo'' l = Some lo \<and> lo_cb lo = None \<and>
     (\<exists>c e. cores l (lo_self lo) = Some c \<and> ep_bev c = Some x \<and> find_endpoint l (partner_id c) = Some b \<and>
        cores l b = Some e \<and> ep_bev e = Some y \<and> ep_data e = Some d \<and>
        (\<exists>path ops l1 l2. uri_target uri = Inr (Some (ep_type e, path)) \<and> ep_ops_list (ep_type e) = Some ops \<and>
           ops_open (osys X) ops (ep_type e) b path l1 = Inr (0, Some d, l2))) \<and>
     x \<noteq> y \<and> to_partner x (lev_calls l) = [] \<and> to_partner y (lev_calls l) = []"

lemma bind_result:
  assumes "rteipc_bind L i j st = Inr (0, st')" "find_endpoint st i = Some a" "find_endpoint st j = Some b"
    and "cores st a = Some c" "cores st b = Some e" "ep_bev c = None" "ep_bev e = None"
  shows "\<exists>x y. pair_new L (lev_calls st) = Some (x, y) \<and> a \<noteq> b \<and>
    st' = st\<lparr>cores := (cores st)(a \<mapsto> c\<lparr>ep_bev := Some x, partner_id := core_id e\<rparr>,
                                b \<mapsto> e\<lparr>ep_bev := Some y, partner_id := core_id c\<rparr>),
             lev_calls := [Bev_Enable y, Bev_Enable x, Bev_Setcb y b, Bev_Setcb x a, Pair_New x y] @ lev_calls st\<rparr>"
proof -
  from assms have ab: "a \<noteq> b" and bind: "bind_endpoint L a b st = Inr (0, st')"
    by (auto simp: rteipc_bind_def split: if_splits)
  from bind assms(4-7) obtain x y where xy: "pair_new L (lev_calls st) = Some (x, y)"
    by (auto simp: bind_endpoint_def split: option.splits)
  with bind_free [OF assms(4,5) ab assms(6,7) xy] bind show ?thesis
    using ab by (intro exI [of _ x] exI [of _ y]) simp
qed

lemma bind_needs_both: "rteipc_bind L i j st = Inr (0, st') \<Longrightarrow> find_endpoint st i \<noteq> None \<and> find_endpoint st j \<noteq> None"
  by (auto simp: rteipc_bind_def split: option.splits)

text \<open>Two opens that both succeed; the second descriptor is not the first.\<close>

lemma open_descriptor:
  assumes "sys_inv (osys X) st" "environment_ok X" "length (registered (ep_tbl st)) < capacity (ep_tbl st)"
    and "rteipc_open X uri st = Inr (i, st')"
  shows "sys_inv (osys X) st'" "capacity (ep_tbl st') = capacity (ep_tbl st)"
    "length (registered (ep_tbl st')) \<le> length (registered (ep_tbl st)) + 1"
    "\<not> 0 \<le> i \<Longrightarrow> i = -1"
  using open_refines [OF assms(1) _ refl _ _ _ assms(3), of uri] assms(2,4)
  by (auto simp: environment_ok_def open_outcome_def)

lemma find_negative: "sys_inv E st \<Longrightarrow> find_endpoint st (-1) = None"
  using first_lap_get [OF core_inv_lap [OF sys_invD(1)], of E st] by (simp add: find_endpoint_def)

lemma two_opens:
  assumes X: "environment_ok X" and l: "fresh_lib l"
    and ops: "rteipc_open X u1 l = Inr (i, l1)" "rteipc_open X u2 l1 = Inr (j, l2)"
    and found: "find_endpoint l2 i \<noteq> None" "find_endpoint l2 j \<noteq> None"
  shows "\<exists>s a c t b e. opened_as X u1 l i l1 s a c \<and> opened_as X u2 l1 j l2 t b e \<and> sys_inv (osys X) l2 \<and>
    find_endpoint l2 i = Some a \<and> find_endpoint l2 j = Some b \<and> a \<noteq> b \<and> i \<noteq> j \<and>
    cores l2 a = Some c \<and> cores l2 b = Some e"
proof -
  note f = fresh_libD [OF l]
  have room: "length (registered (ep_tbl l)) < capacity (ep_tbl l)" by (simp add: f)
  note d1 = open_descriptor [OF f(1) X room ops(1)]
  have room1: "length (registered (ep_tbl l1)) < capacity (ep_tbl l1)" using d1(2,3) f(2,3) by simp
  note d2 = open_descriptor [OF d1(1) X room1 ops(2)]
  have i: "0 \<le> i" and j: "0 \<le> j" using found find_negative [OF d2(1)] d1(4) d2(4) by metis+
  obtain s a c where 1: "opened_as X u1 l i l1 s a c" using open_success [OF f(1) X room ops(1) i] by blast
  obtain t b e where 2: "opened_as X u2 l1 j l2 t b e" using open_success [OF d1(1) X room1 ops(2) j] by blast
  have "find_endpoint l1 i = Some a" using 1 by (simp add: opened_as_def)
  then have ij: "i < j"
    using first_lap_get [OF core_inv_lap [OF sys_invD(1) [OF d1(1)]], of i] 2 i
    by (auto simp: find_endpoint_def opened_as_def split: if_splits)
  have "cores l1 a = Some c" "cores l1 b = None" using 1 2 by (auto simp: opened_as_def)
  then have "a \<noteq> b" by auto
  with 1 2 d2(1) ij show ?thesis
    by (intro exI [of _ s] exI [of _ a] exI [of _ c] exI [of _ t] exI [of _ b] exI [of _ e])
      (simp add: opened_as_def)
qed

text \<open>The list of loops after both opens, in either order: it has the one loop.\<close>

lemma opened_loop:
  assumes "opened_as X ''lo'' l i l1 t a c"
  shows "\<exists>p. lo_list l1 = lo_list l @ [\<lparr>lo_addr = p, lo_self = a, lo_name = ''lo'', lo_cb = None, lo_arg = 0\<rparr>]"
proof -
  from assms obtain d and st2 :: rsys where st2: "lo_list st2 = lo_list l"
      "as_priv Loop_Priv (loop_open (osys X) a ''lo'' st2) =
        (0, Some d, st2\<lparr>os_calls := os_calls l1, lo_list := lo_list l1\<rparr>)"
    by (auto simp: opened_as_def loop_target [of "''lo''"] ep_ops_list_def ops_open_def)
  then obtain r p l2 where op: "loop_open (osys X) a ''lo'' st2 = (r, Some p, l2)" "lo_list l2 = lo_list l1"
    by (auto simp: as_priv_def split: prod.splits)
  then have "lo_list l2 = lo_list st2 @ [\<lparr>lo_addr = p, lo_self = a, lo_name = ''lo'', lo_cb = None, lo_arg = 0\<rparr>]"
    by (auto simp: loop_open_def sys_def split: if_splits option.splits)
  with op(2) st2(1) show ?thesis by (intro exI [of _ p]) simp
qed

lemma opened_device:
  assumes "environment_ok X" "opened_as X uri l i l1 t a c" "t \<noteq> EP_LOOP"
  shows "lo_list l1 = lo_list l"
proof -
  from assms(2) obtain path ops d st2 where ops: "ep_ops_list t = Some ops" "lo_list st2 = lo_list l"
    "ops_open (osys X) ops t a path st2 = Inr (0, Some d, st2\<lparr>os_calls := os_calls l1, lo_list := lo_list l1\<rparr>)"
    by (auto simp: opened_as_def)
  have "ops \<noteq> Loop_Ops" using ops(1) assms(3) by (auto simp: ep_ops_list_def split: if_splits)
  from ops_open_loops [OF _ ops(3) this] assms(1) ops(2) show ?thesis by (simp add: environment_ok_def)
qed

text \<open>Binding them: \<open>a\<close> is the endpoint of the loop, \<open>b\<close> the one of the device.\<close>

lemma bound_after_opens:
  assumes X: "environment_ok X" and inv: "sys_inv (osys X) l2"
    and run: "rteipc_bind (levent X) i j l2 = Inr (0, l3)"
    and ij: "find_endpoint l2 i = Some a" "find_endpoint l2 j = Some b" "cores l2 a = Some c" "cores l2 b = Some e"
      "core_id e = j"
    and free: "ep_bev c = None" "ep_bev e = None" "lev_calls l2 = []"
    and lo: "lo_list l2 = [\<lparr>lo_addr = p, lo_self = a, lo_name = ''lo'', lo_cb = None, lo_arg = 0\<rparr>]"
    and dev: "opened_as X uri l' j l'' t b e"
  shows "\<exists>lo x y d. bound_device X uri l3 lo x b y d \<and> base l3 = base l2 \<and> live_bases l3 = live_bases l2 \<and>
    base_calls l3 = base_calls l2"
proof -
  from bind_result [OF run ij(1-4) free(1,2)] obtain x y where
    xy: "pair_new (levent X) [] = Some (x, y)" "a \<noteq> b" and
    l3: "l3 = l2\<lparr>cores := (cores l2)(a \<mapsto> c\<lparr>ep_bev := Some x, partner_id := core_id e\<rparr>,
                                b \<mapsto> e\<lparr>ep_bev := Some y, partner_id := core_id c\<rparr>),
             lev_calls := [Bev_Enable y, Bev_Enable x, Bev_Setcb y b, Bev_Setcb x a, Pair_New x y]\<rparr>"
    using free(3) by auto
  have "x \<noteq> y" using lev_ok_pair_new [OF _ xy(1)] X by (simp add: environment_ok_def)
  from dev obtain path ops d l4 l5 where d: "ep_data e = Some d" "uri_target uri = Inr (Some (t, path))"
    "ep_ops_list t = Some ops" "ops_open (osys X) ops t b path l4 = Inr (0, Some d, l5)" "ep_type e = t"
    by (auto simp: opened_as_def)
  have "loops_ok (osys X) l2" by (rule data_ok_loops [OF sys_invD(2) [OF inv]])
  then have loops: "loops_ok (osys X) l3" by (simp add: l3 loops_ok_def)
  let ?lo = "\<lparr>lo_addr = p, lo_self = a, lo_name = ''lo'', lo_cb = None, lo_arg = 0\<rparr>"
  have "bound_device X uri l3 ?lo x b y d"
    unfolding bound_device_def
  proof (intro conjI exI)
    show "cores l3 (lo_self ?lo) = Some (c\<lparr>ep_bev := Some x, partner_id := core_id e\<rparr>)" using xy(2) by (simp add: l3)
    show "cores l3 b = Some (e\<lparr>ep_bev := Some y, partner_id := core_id c\<rparr>)" by (simp add: l3)
    show "find_endpoint l3 (partner_id (c\<lparr>ep_bev := Some x, partner_id := core_id e\<rparr>)) = Some b"
      using ij(2,5) by (simp add: l3 find_endpoint_def)
    show "ops_open (osys X) ops (ep_type (e\<lparr>ep_bev := Some y, partner_id := core_id c\<rparr>)) b path l4 = Inr (0, Some d, l5)"
      using d(4,5) by simp
  qed (use d loops \<open>x \<noteq> y\<close> in \<open>simp_all add: l3 lookup_lo_def lo\<close>)
  then show ?thesis by (intro exI [of _ ?lo] exI [of _ x] exI [of _ y] exI [of _ d]) (simp add: l3)
qed

text \<open>Whatever the order: the loop and the device are bound, and nothing else has happened.\<close>

lemma open_and_bind_result:
  assumes X: "environment_ok X" and st: "fresh_lib (dm_lib st)"
    and uri: "uri_target uri = Inr (Some (t, path))" "t \<noteq> EP_LOOP"
    and run: "open_and_bind X lo_first uri st = Inr (0, st')"
  shows "\<exists>l lo x b y d. st' = st\<lparr>dm_lib := l\<rparr> \<and> bound_device X uri l lo x b y d \<and>
    base l = base (dm_lib st) \<and> live_bases l = live_bases (dm_lib st) \<and> base_calls l = base_calls (dm_lib st)"
proof -
  have type: "s = t" if "opened_as X uri l' i l'' s a c" for l' i l'' s a c
    using that uri(1) by (auto simp: opened_as_def)
  have "\<exists>lo x b y d. bound_device X uri l3 lo x b y d \<and> base l3 = base (dm_lib st) \<and>
      live_bases l3 = live_bases (dm_lib st) \<and> base_calls l3 = base_calls (dm_lib st)"
    if ops: "rteipc_open X (if lo_first then ''lo'' else uri) (dm_lib st) = Inr (i, l1)"
      "rteipc_open X (if lo_first then uri else ''lo'') l1 = Inr (j, l2)"
      "rteipc_bind (levent X) (if lo_first then i else j) (if lo_first then j else i) l2 = Inr (0, l3)" for i j l1 l2 l3
  proof -
    have found: "find_endpoint l2 i \<noteq> None" "find_endpoint l2 j \<noteq> None"
      using bind_needs_both [OF ops(3)] by (auto split: if_splits)
    from two_opens [OF X st ops(1,2) found] obtain s a c t' b e where
      1: "opened_as X (if lo_first then ''lo'' else uri) (dm_lib st) i l1 s a c" and
      2: "opened_as X (if lo_first then uri else ''lo'') l1 j l2 t' b e" and
      l2: "sys_inv (osys X) l2" "find_endpoint l2 i = Some a" "find_endpoint l2 j = Some b"
        "cores l2 a = Some c" "cores l2 b = Some e" by blast
    have o1: "ep_bev c = None" "core_id c = i" "lev_calls l1 = []" "base l1 = base (dm_lib st)"
        "live_bases l1 = live_bases (dm_lib st)" "base_calls l1 = base_calls (dm_lib st)"
      using 1 fresh_libD(4) [OF st] by (simp_all add: opened_as_def)
    have o2: "ep_bev e = None" "core_id e = j" "lev_calls l2 = []" "base l2 = base l1"
        "live_bases l2 = live_bases l1" "base_calls l2 = base_calls l1"
      using 2 o1(3) by (simp_all add: opened_as_def)
    show ?thesis
    proof (cases lo_first)
      case True
      obtain p where "lo_list l1 = [\<lparr>lo_addr = p, lo_self = a, lo_name = ''lo'', lo_cb = None, lo_arg = 0\<rparr>]"
        using opened_loop [of X "dm_lib st" i l1 s a c] 1 True fresh_libD(5) [OF st] by auto
      moreover have "lo_list l2 = lo_list l1"
        using opened_device [OF X, of uri l1 j l2 t' b e] 2 True type uri(2) by simp
      ultimately show ?thesis
        using bound_after_opens [OF X l2(1), of i j l3 a b c e p uri l1 l2 t'] l2 o1 o2 2 ops(3) True by (simp, blast)
    next
      case False
      have "lo_list l1 = []"
        using opened_device [OF X, of uri "dm_lib st" i l1 s a c] 1 False type uri(2) fresh_libD(5) [OF st] by simp
      then obtain p where "lo_list l2 = [\<lparr>lo_addr = p, lo_self = b, lo_name = ''lo'', lo_cb = None, lo_arg = 0\<rparr>]"
        using opened_loop [of X l1 j l2 t' b e] 2 False by auto
      then show ?thesis
        using bound_after_opens [OF X l2(1), of j i l3 b a e c p uri "dm_lib st" l1 s] l2 o1 o2 1 ops(3) False by (simp, blast)
    qed
  qed
  note bound = this
  from run obtain i l1 j l2 l3 where ops: "rteipc_open X (if lo_first then ''lo'' else uri) (dm_lib st) = Inr (i, l1)"
      "rteipc_open X (if lo_first then uri else ''lo'') l1 = Inr (j, l2)"
      "rteipc_bind (levent X) (if lo_first then i else j) (if lo_first then j else i) l2 = Inr (0, l3)"
      "st' = st\<lparr>dm_lib := l3\<rparr>"
    by (cases lo_first) (auto simp: open_and_bind_def and_then_eq_Inr)
  from bound [OF ops(1-3)] ops(4) show ?thesis by blast
qed


subsection \<open>The event loop\<close>

text \<open>
  One round of libevent between the two ends of the pair: what has been written to the loop's
  end arrives at the device, cut into chunks in some way (\<open>parts\<close>), and what the device then has
  written arrives at the loop, likewise.
\<close>

definition event_loop ::
  "outside \<Rightarrow> demo_cb \<Rightarrow> (byte list \<Rightarrow> byte list list) \<Rightarrow> demo \<Rightarrow> demo outcome" where
  "event_loop X cb parts st =
     (case lookup_lo ''lo'' (dm_lib st) of
        None \<Rightarrow> Inr st
      | Some lo \<Rightarrow>
          and_then (deref (cores (dm_lib st)) (Some (lo_self lo))) (\<lambda>c.
          (case (ep_bev c, find_endpoint (dm_lib st) (partner_id c)) of
             (Some x, Some b) \<Rightarrow>
               and_then (feed (read_cb X b) (dm_lib st) [] (parts (to_partner x (lev_calls (dm_lib st))))) (\<lambda>(l, _).
               and_then (deref (cores l) (Some b)) (\<lambda>e.
               (case ep_bev e of
                  None \<Rightarrow> Inr (st\<lparr>dm_lib := l\<rparr>)
                | Some y \<Rightarrow>
                    and_then (feed (demo_on_data (mem X) cb (lo_addr lo)) (st\<lparr>dm_lib := l\<rparr>) []
                      (parts (to_partner y (lev_calls l)))) (\<lambda>(st1, _). Inr st1))))
           | _ \<Rightarrow> Inr st)))"

definition cuts :: "(byte list \<Rightarrow> byte list list) \<Rightarrow> bool" where
  "cuts parts \<longleftrightarrow> (\<forall>bs. concat (parts bs) = bs)"

lemma demo_feed:
  assumes "sendable m" "concat chunks = frame m" "find_loop p (dm_lib st) = Inr lo" "lo_cb lo \<noteq> None"
  shows "feed (demo_on_data (\<lambda>_. True) cb p) st [] chunks =
    and_then (cb (lo_name lo) m (length m) (lo_arg lo) st) (\<lambda>st'. Inr (st', []))"
  using feed_batch [of "[m]" chunks "demo_message cb p" st] assms
  by (cases "cb (lo_name lo) m (length m) (lo_arg lo) st") (simp_all add: demo_on_data_def [abs_def] demo_message_def)

text \<open>The callback of the device, as long as the device's endpoint stays what it is.\<close>

lemma read_cb_feed:
  assumes "cores l b = Some e" "ep_ops_list (ep_type e) = Some ops"
    and "\<And>l inp l' rest. ops_on_data X ops (ep_data e) (ep_bev e) l inp = Inr (l', rest) \<Longrightarrow> cores l' = cores l"
  shows "feed (read_cb X b) l buf chunks = feed (ops_on_data X ops (ep_data e) (ep_bev e)) l buf chunks"
  by (rule feed_agree [where I = "\<lambda>l. cores l b = Some e"]) (use assms in \<open>auto simp: read_cb_def\<close>)

text \<open>A program that has sent one request, for which the device writes one reply.\<close>

definition waits_for :: "demo \<Rightarrow> loop \<Rightarrow> bev \<Rightarrow> addr \<Rightarrow> bev \<Rightarrow> ep_priv ep_core \<Rightarrow> byte list \<Rightarrow> bool" where
  "waits_for st lo x b y e req \<longleftrightarrow>
     (let l = dm_lib st in
      lookup_lo ''lo'' l = Some lo \<and> distinct (map lo_addr (lo_list l)) \<and> lo_cb lo \<noteq> None \<and> x \<noteq> y \<and>
      (\<exists>c. cores l (lo_self lo) = Some c \<and> ep_bev c = Some x \<and> find_endpoint l (partner_id c) = Some b) \<and>
      cores l b = Some e \<and> ep_bev e = Some y \<and>
      to_partner x (lev_calls l) = req \<and> to_partner y (lev_calls l) = [])"

lemma one_reply:
  assumes wait: "waits_for st lo x b y e req" and parts: "cuts parts" and mem: "mem X = (\<lambda>_. True)"
    and dev: "feed (read_cb X b) (dm_lib st) [] (parts req) = Inr (lev_call (Bev_Write y (frame rx)) l1, [])"
      "cores l1 = cores (dm_lib st)" "lo_list l1 = lo_list (dm_lib st)" "lev_calls l1 = lev_calls (dm_lib st)"
    and rx: "sendable rx"
  shows "event_loop X cb parts st =
    cb ''lo'' rx (length rx) (lo_arg lo) (st\<lparr>dm_lib := lev_call (Bev_Write y (frame rx)) l1\<rparr>)"
proof -
  let ?l = "lev_call (Bev_Write y (frame rx)) l1"
  note w = wait [unfolded waits_for_def Let_def]
  have "lo \<in> set (lo_list (dm_lib st))" "lo_name lo = ''lo''" using lookup_lo_Some w by auto
  then have lo: "find_loop (lo_addr lo) ?l = Inr lo" "lo_name lo = ''lo''"
    using find_distinct [of lo_addr "lo_list (dm_lib st)" lo] w dev(3) by (auto simp: find_loop_def lev_call_def)
  have "feed (demo_on_data (\<lambda>_. True) cb (lo_addr lo)) (st\<lparr>dm_lib := ?l\<rparr>) [] (parts (frame rx)) =
      and_then (cb ''lo'' rx (length rx) (lo_arg lo) (st\<lparr>dm_lib := ?l\<rparr>)) (\<lambda>st'. Inr (st', []))"
    using demo_feed [OF rx, of "parts (frame rx)" "lo_addr lo" "st\<lparr>dm_lib := ?l\<rparr>" lo] lo w parts by (simp add: cuts_def)
  moreover have "to_partner y (lev_calls ?l) = frame rx" using w dev(4) by (simp add: lev_call_def)
  moreover have "cores ?l b = Some e" using w dev(2) by (simp add: lev_call_def)
  ultimately show ?thesis
    using w dev(1) mem by (auto simp: event_loop_def split: option.splits)
      (cases "cb ''lo'' rx (length rx) (lo_arg lo) (st\<lparr>dm_lib := ?l\<rparr>)"; simp)
qed

text \<open>From the bound endpoints to the event loop: one request, and the callback.\<close>

lemma lookup_set_loop:
  assumes "\<And>lo. lo_name (f lo) = lo_name lo"
  shows "lookup_lo n (set_loop p f l) = map_option (\<lambda>lo. if lo_addr lo = p then f lo else lo) (lookup_lo n l)"
  unfolding lookup_lo_def set_loop_def using assms by (simp add: find_map_cong)

lemma requested:
  assumes bound: "bound_device X uri (dm_lib st) lo x b y d"
    and send: "f (dm_lib st) = Inr (r, lev_call (Bev_Write x (frame buf)) (dm_lib st))"
  shows "\<exists>l lo' e path. and_then (ignoring f st) (ignoring (\<lambda>l. Inr (rteipc_xfer_setcb ''lo'' (Some 0) eb l))) =
      Inr (st\<lparr>dm_lib := l\<rparr>) \<and>
    waits_for (st\<lparr>dm_lib := l\<rparr>) lo' x b y e (frame buf) \<and> lo_arg lo' = eb \<and> ep_data e = Some d \<and>
    uri_target uri = Inr (Some (ep_type e, path)) \<and>
    (\<exists>ops l1 l2. ep_ops_list (ep_type e) = Some ops \<and> ops_open (osys X) ops (ep_type e) b path l1 = Inr (0, Some d, l2)) \<and>
    base l = base (dm_lib st) \<and> live_bases l = live_bases (dm_lib st) \<and> os_calls l = os_calls (dm_lib st)"
proof -
  let ?f = "\<lambda>lo. lo\<lparr>lo_cb := Some 0, lo_arg := eb\<rparr>"
  define l1 where "l1 = lev_call (Bev_Write x (frame buf)) (dm_lib st)"
  define l where "l = set_loop (lo_addr lo) ?f l1"
  from bound obtain c e path ops l2 l3 where
    lo: "loops_ok (osys X) (dm_lib st)" "lookup_lo ''lo'' (dm_lib st) = Some lo" and
    c: "cores (dm_lib st) (lo_self lo) = Some c" "ep_bev c = Some x" "find_endpoint (dm_lib st) (partner_id c) = Some b" and
    e: "cores (dm_lib st) b = Some e" "ep_bev e = Some y" "ep_data e = Some d" and
    dev: "uri_target uri = Inr (Some (ep_type e, path))" "ep_ops_list (ep_type e) = Some ops"
      "ops_open (osys X) ops (ep_type e) b path l2 = Inr (0, Some d, l3)" and
    xy: "x \<noteq> y" "to_partner x (lev_calls (dm_lib st)) = []" "to_partner y (lev_calls (dm_lib st)) = []"
    by (auto simp: bound_device_def)
  have l1: "lookup_lo ''lo'' l1 = Some lo" using lo(2) by (simp add: l1_def lookup_lo_def lev_call_def)
  have "(\<lambda>lo'. if lo_addr lo' = lo_addr lo then ?f lo' else lo') lo = ?f lo" by simp
  then have found: "lookup_lo ''lo'' l = Some (?f lo)" by (simp add: l_def lookup_set_loop l1)
  have "map lo_addr (lo_list l) = map lo_addr (lo_list (dm_lib st))"
    by (simp add: l_def set_loop_def l1_def lev_call_def comp_def)
  then have "distinct (map lo_addr (lo_list l))" using loops_okD(2) [OF lo(1)] by simp
  moreover have same: "cores l = cores (dm_lib st)" "ep_tbl l = ep_tbl (dm_lib st)" "base l = base (dm_lib st)"
      "live_bases l = live_bases (dm_lib st)" "os_calls l = os_calls (dm_lib st)"
      "lev_calls l = Bev_Write x (frame buf) # lev_calls (dm_lib st)"
    by (simp_all add: l_def set_loop_def l1_def lev_call_def)
  ultimately have "waits_for (st\<lparr>dm_lib := l\<rparr>) (?f lo) x b y e (frame buf)"
    using found c e xy by (simp add: waits_for_def find_endpoint_def)
  moreover have "and_then (ignoring f st) (ignoring (\<lambda>l. Inr (rteipc_xfer_setcb ''lo'' (Some 0) eb l))) = Inr (st\<lparr>dm_lib := l\<rparr>)"
    using send l1 by (simp add: ignoring_def rteipc_xfer_setcb_def flip: l1_def l_def)
  ultimately show ?thesis
    using dev e(3) same
    by (intro exI [of _ l] exI [of _ "?f lo"] exI [of _ e] exI [of _ path]) auto
qed

text \<open>The whole loop, when there is one reply; the program ends when its callback says so.\<close>

lemma loop_with_reply:
  assumes wait: "waits_for st lo x b y e req" and parts: "cuts parts" and mem: "mem X = (\<lambda>_. True)"
    and base: "base (dm_lib st) = Some eb" "eb \<in> live_bases (dm_lib st)"
    and dev: "\<And>h. feed (read_cb X b) ((dm_lib st)\<lparr>base_calls := h\<rparr>) [] (parts req) =
      Inr (lev_call (Bev_Write y (frame rx)) (note_call call ((dm_lib st)\<lparr>base_calls := h\<rparr>)), [])"
    and rx: "sendable rx"
    and cb: "\<And>s. cb ''lo'' rx (length rx) (lo_arg lo) s = Inr (s\<lparr>dm_out := dm_out s @ shown, dm_break := brk\<rparr>)"
  shows "\<exists>st'. loop_and_end tv (event_loop X cb parts) st = Inr (Finished, st') \<and>
    dm_out st' = dm_out st @ shown \<and> dm_break st' = brk \<and>
    os_calls (dm_lib st') = call # os_calls (dm_lib st)"
proof -
  define h where "h = Base_Dispatch eb # (if tv then [Base_Loopexit eb] else []) @ base_calls (dm_lib st)"
  let ?l = "(dm_lib st)\<lparr>base_calls := h\<rparr>"
  have dispatch: "rteipc_dispatch tv (dm_lib st) = Inr ?l"
    using base by (simp add: rteipc_dispatch_def use_base_def h_def)
  have "waits_for (st\<lparr>dm_lib := ?l\<rparr>) lo x b y e req"
    using wait by (simp add: waits_for_def lookup_lo_def find_endpoint_def Let_def)
  from one_reply [OF this parts mem, of rx "note_call call ?l" cb] dev [of h] rx cb
  have "event_loop X cb parts (st\<lparr>dm_lib := ?l\<rparr>) = Inr (st\<lparr>dm_lib := lev_call (Bev_Write y (frame rx)) (note_call call ?l),
      dm_out := dm_out st @ shown, dm_break := brk\<rparr>)"
    by (simp add: note_call_def)
  with dispatch base show ?thesis
    by (simp add: loop_and_end_def rteipc_shutdown_def use_base_def note_call_def lev_call_def)
qed


subsection \<open>Bytes on the command line\<close>

text \<open>
  What the programs read is what was meant: the first 32 of the bytes that were written out.
\<close>

lemma strtok_word:
  assumes "w \<noteq> []" "CHR '' '' \<notin> set w"
  shows "strtok CHR '' '' w = Some (w, [])" "strtok CHR '' '' (w @ CHR '' '' # r) = Some (w, r)"
proof -
  have "dropWhile (\<lambda>c. c = CHR '' '') (w @ v) = w @ v" for v using assms by (cases w) auto
  moreover have "takeWhile (\<lambda>c. c \<noteq> CHR '' '') (w @ CHR '' '' # r) = w"
    "dropWhile (\<lambda>c. c \<noteq> CHR '' '') (w @ CHR '' '' # r) = CHR '' '' # r"
    using assms(2) by (induction w) auto
  moreover have "takeWhile (\<lambda>c. c \<noteq> CHR '' '') w = w" "dropWhile (\<lambda>c. c \<noteq> CHR '' '') w = []"
    using assms(2) by (induction w) auto
  ultimately show "strtok CHR '' '' w = Some (w, [])" "strtok CHR '' '' (w @ CHR '' '' # r) = Some (w, r)"
    using assms(1) by (simp_all add: strtok_def dropWhile_eq_Nil_conv [THEN iffD2])
qed

lemma strtok_hex_text:
  "strtok CHR '' '' (butlast (hex_text (b # bs))) = Some (hex_word b, butlast (hex_text bs))"
  using strtok_word [OF hex_word_facts(2,1)]
  by (cases bs) (simp_all only: butlast_hex_text [of b], simp_all add: hex_text_def)

lemma tx_loop_hex: "tx_loop (Suc n) (hex_word b) (butlast (hex_text bs)) = take (Suc n) (b # bs)"
proof (induction bs arbitrary: n b)
  case Nil
  then show ?case by (simp add: strtoul_hex_word strtok_def hex_text_def)
next
  case (Cons c cs)
  then show ?case by (cases n) (simp_all add: strtoul_hex_word strtok_hex_text)
qed

lemma read_tx_hex: "bs \<noteq> [] \<Longrightarrow> read_tx (butlast (hex_text bs)) = Inr (take 32 bs)"
  using tx_loop_hex [of 31] by (cases bs) (simp_all add: read_tx_def strtok_hex_text numeral_eq_Suc)


subsection \<open>sample_i2c\<close>

lemma length_tx_loop: "length (tx_loop n h r) \<le> n"
  by (induction n h r rule: tx_loop.induct) (auto split: option.split)

lemma length_read_tx: "read_tx s = Inr tx \<Longrightarrow> length tx \<le> 32"
  using length_tx_loop by (auto simp: read_tx_def split: option.splits)

lemma return_rx_cores: "cores (return_rx L b rx ms st) = cores st"
  by (induction L b rx ms st rule: return_rx.induct)
    (auto simp: answer_to_def rteipc_buffer_def rteipc_evbuffer_def bufferevent_write_buffer_def lev_call_def
      split: option.splits)

lemma i2c_handle_cores:
  assumes "i2c_handle M E L data b n m s = Inr s'"
  shows "cores (snd s') = cores (snd s)"
  using assms
  by (cases s) (auto simp: i2c_handle_def Let_def i2c_free_msg_def and_then_eq_Inr sys_def note_call_def
    return_rx_cores split: if_splits)

lemma i2c_on_data_cores:
  assumes "i2c_on_data M E L data b st inp = Inr (st', rest)"
  shows "cores st' = cores st"
proof -
  from assms obtain s' where "drain_loop M (i2c_handle M E L data b) (Null, st) inp = Inr (s', rest)" "st' = snd s'"
    by (auto simp: i2c_on_data_def and_then_eq_Inr)
  with drain_loop_keeps [of M "i2c_handle M E L data b" "(Null, st)" inp s' rest "\<lambda>s. cores (snd s)"] i2c_handle_cores
  show ?thesis by fastforce
qed

lemma demo_start:
  assumes "fresh_lib (dm_lib st)" "base (dm_lib st) = None"
    and "st0 = demo_init (Some eb) other (event_base_new (Some eb) st)"
  shows "fresh_lib (dm_lib st0)" "base (dm_lib st0) = Some eb" "eb \<in> live_bases (dm_lib st0)"
    "dm_out st0 = dm_out st"
  using assms by (auto simp: demo_init_def event_base_new_def rteipc_init_def fresh_lib_def idle_sys_def
    intro!: exI [of _ "Some eb"])

text \<open>The bound I2C device: what it was opened as, and what it makes of a request that reads.\<close>

lemma i2c_opened:
  assumes "uri_target uri = Inr (Some (EP_I2C, path))" "uri_target uri = Inr (Some (t, path'))"
    and "ep_ops_list t = Some ops" "ops_open E ops t b path' l = Inr (0, Some d, l')"
  shows "t = EP_I2C \<and> (\<exists>data. d = I2c_Priv data)"
proof -
  have "t = EP_I2C" "ops = I2c_Ops" using assms(1-3) by (auto simp: ep_ops_list_def)
  with assms(4) show ?thesis by (auto simp: ops_open_def as_priv_def split: prod.splits)
qed

lemma i2c_device_reads:
  fixes tx :: "byte list"
  defines "req \<equiv> \<lambda>addr rlen. frame (i2c_request (addr, tx, rlen))"
  assumes wait: "waits_for st lo x b y e r" and e: "ep_type e = EP_I2C" "ep_data e = Some (I2c_Priv data)"
    and X: "mem X = (\<lambda>_. True)" and req: "length tx < 2 ^ 16" "rlen \<noteq> 0" "concat chunks = req addr rlen"
    and bus: "call = Sys_Ioctl (i2c_fd data) (I2C_RDWR (bus_messages addr tx rlen))"
      "0 \<le> os_int (osys X) (os_calls (dm_lib st)) call"
  shows "feed (read_cb X b) ((dm_lib st)\<lparr>base_calls := h\<rparr>) [] chunks =
    Inr (lev_call (Bev_Write y (frame (bus_reply (osys X) (os_calls (dm_lib st)) call rlen)))
      (note_call call ((dm_lib st)\<lparr>base_calls := h\<rparr>)), [])"
proof -
  have b: "cores (dm_lib st) b = Some e" "ep_bev e = Some y" using wait by (simp_all add: waits_for_def Let_def)
  have on_data: "ops_on_data X I2c_Ops (Some (I2c_Priv data)) (Some y) =
      i2c_on_data (\<lambda>_. True) (osys X) (levent X) data (Some y)"
    using X by (intro ext) (simp add: ops_on_data_def)
  have "feed (read_cb X b) ((dm_lib st)\<lparr>base_calls := h\<rparr>) [] chunks =
      feed (ops_on_data X I2c_Ops (ep_data e) (ep_bev e)) ((dm_lib st)\<lparr>base_calls := h\<rparr>) [] chunks"
    by (rule read_cb_feed) (use b e i2c_on_data_cores in \<open>auto simp: on_data ep_ops_list_def\<close>)
  then show ?thesis
    using i2c_one_read [OF req(1,2) _ bus(1), of chunks "osys X" "(dm_lib st)\<lparr>base_calls := h\<rparr>" "levent X" y] req(3) bus(2)
    by (simp add: b(2) e(2) on_data req_def del: i2c_request.simps)
qed

text \<open>The request, and the answer to it.\<close>

lemma i2c_asked:
  fixes st :: demo and a :: i2c_args
  defines "req \<equiv> \<lambda>tx. frame (i2c_request (ia_addr a, tx, ia_rsize a))"
  assumes target: "uri_target uri = Inr (Some (EP_I2C, path))" and bound: "bound_device X uri (dm_lib st) lo x b y d"
    and tx: "(case ia_buf a of None \<Rightarrow> Inr [] | Some s \<Rightarrow> read_tx s) = Inr tx"
  shows "\<exists>st' lo' e data. i2c_request_and_wait X eb a st = Inr st' \<and>
    waits_for st' lo' x b y e (req tx) \<and> lo_arg lo' = eb \<and> ep_type e = EP_I2C \<and> ep_data e = Some (I2c_Priv data) \<and>
    dm_out st' = dm_out st @ (if ia_buf a = None then [] else ''write: ['' @ show_bytes tx @ '' ]'' @ newline) \<and>
    base (dm_lib st') = base (dm_lib st) \<and> live_bases (dm_lib st') = live_bases (dm_lib st) \<and>
    os_calls (dm_lib st') = os_calls (dm_lib st)"
proof -
  let ?send = "rteipc_i2c_xfer (levent X) ''lo'' (ia_addr a) (Some tx) (of_nat (length tx)) (ia_rsize a) :: rsys \<Rightarrow> _"
  let ?out = "if ia_buf a = None then [] else ''write: ['' @ show_bytes tx @ '' ]'' @ newline"
  define st2 where "st2 = print ?out st"
  have st2: "dm_lib st2 = dm_lib st" "dm_out st2 = dm_out st @ ?out" by (simp_all add: st2_def print_def)
  from bound obtain c where lo: "lookup_lo ''lo'' (dm_lib st) = Some lo" "cores (dm_lib st) (lo_self lo) = Some c" "ep_bev c = Some x"
    by (auto simp: bound_device_def)
  have "length tx < 2 ^ 16" using length_read_tx tx by (fastforce split: option.splits)
  then have sent: "?send (dm_lib st2) = Inr (write_status (levent X) (lev_calls (dm_lib st)) x (req tx),
      lev_call (Bev_Write x (req tx)) (dm_lib st2))"
    using xfer_requests [OF lo] by (simp add: bufferevent_write_buffer_def st2(1) req_def)
  from requested [of X uri st2 lo x b y d ?send _ "i2c_request (ia_addr a, tx, ia_rsize a)" eb, OF _ sent [unfolded req_def]] bound
  obtain l lo' e where
    asked: "and_then (ignoring ?send st2) (ignoring (\<lambda>l. Inr (rteipc_xfer_setcb ''lo'' (Some 0) eb l))) =
      Inr (st2\<lparr>dm_lib := l\<rparr>)" and
    wait: "waits_for (st2\<lparr>dm_lib := l\<rparr>) lo' x b y e (req tx)" "lo_arg lo' = eb" "ep_data e = Some d" and
    type: "ep_type e = EP_I2C \<and> (\<exists>data. d = I2c_Priv data)" and
    l: "base l = base (dm_lib st)" "live_bases l = live_bases (dm_lib st)" "os_calls l = os_calls (dm_lib st)"
    using i2c_opened [OF target] by (auto simp: st2(1) req_def)
  have "(if ia_buf a = None then st else print (''write: ['' @ show_bytes tx @ '' ]'' @ newline) st) = st2"
    by (simp add: st2_def print_def)
  with asked tx have "i2c_request_and_wait X eb a st = Inr (st2\<lparr>dm_lib := l\<rparr>)" by (simp add: i2c_request_and_wait_def)
  with wait type l st2(2) show ?thesis
    by (intro exI [of _ "st2\<lparr>dm_lib := l\<rparr>"] exI [of _ lo'] exI [of _ e]) auto
qed

lemma i2c_answered:
  fixes st :: demo and tx :: "byte list"
  assumes wait: "waits_for st lo x b y e (frame (i2c_request (addr, tx, rlen)))" "lo_arg lo = Suc eb" "ep_type e = EP_I2C"
      "ep_data e = Some (I2c_Priv data)"
    and X: "mem X = (\<lambda>_. True)" "cuts parts" and req: "length tx < 2 ^ 16" "rlen \<noteq> 0"
    and base: "base (dm_lib st) = Some eb" "eb \<in> live_bases (dm_lib st)"
    and call: "call = Sys_Ioctl (i2c_fd data) (I2C_RDWR (bus_messages addr tx rlen))"
      "0 \<le> os_int (osys X) (os_calls (dm_lib st)) call"
    and rx: "rx = bus_reply (osys X) (os_calls (dm_lib st)) call rlen"
  shows "\<exists>st'. loop_and_end False (event_loop X read_bytes parts) st = Inr (Finished, st') \<and>
    dm_out st' = dm_out st @ ''read : ['' @ show_bytes rx @ '' ]'' @ newline \<and> dm_break st' = Some (Suc eb) \<and>
    os_calls (dm_lib st') = call # os_calls (dm_lib st)"
proof (rule loop_with_reply [OF wait(1) X(2,1) base])
  have "concat (parts bs) = bs" for bs using X(2) by (simp add: cuts_def)
  then show "feed (read_cb X b) ((dm_lib st)\<lparr>base_calls := h\<rparr>) [] (parts (frame (i2c_request (addr, tx, rlen)))) =
      Inr (lev_call (Bev_Write y (frame rx)) (note_call call ((dm_lib st)\<lparr>base_calls := h\<rparr>)), [])" for h
    unfolding rx by (intro i2c_device_reads [OF wait(1,3,4) X(1) req _ call]) simp
  show "sendable rx" unfolding rx by (rule bus_reply_sendable [OF req(2)])
  show "read_bytes ''lo'' rx (length rx) (lo_arg lo) s = Inr (s\<lparr>dm_out := dm_out s @ ''read : ['' @ show_bytes rx @ '' ]'' @ newline,
      dm_break := Some (Suc eb)\<rparr>)" for s
    by (simp add: read_bytes_def wait(2) loopbreak_def print_def)
qed

text \<open>
  C17: \<open>sample_i2c\<close> as a whole. Given the address, the bytes to write, if any, and the number of
  bytes to read, the program makes, after it has bound the device, exactly one transfer, which
  is the one that was asked for, prints what it writes and then the bytes that the bus delivers,
  and ends; in whatever order its endpoints are opened, and however the bytes between them are
  cut.
\<close>

theorem sample_i2c_reads:
  assumes X: "environment_ok X" "mem X = (\<lambda>_. True)" and parts: "cuts parts"
    and st: "fresh_lib (dm_lib st)" "base (dm_lib st) = None"
    and opts: "i2c_options (mem X) opts \<lparr>ia_addr = 0, ia_rsize = 0, ia_buf = None\<rparr> = Some a"
      "ia_addr a \<noteq> 0" "ia_rsize a \<noteq> 0" "(case ia_buf a of None \<Rightarrow> Inr [] | Some s \<Rightarrow> read_tx s) = Inr tx"
    and path: "0 < length path" "length path < 100" "CHR 0x0A \<notin> set path"
    and bind: "open_and_bind X lo_first (''i2c://'' @ path)
        (demo_init (Some eb) other (event_base_new (Some eb) st)) = Inr (0, st1)"
    and bus: "\<And>h fd msgs. 0 \<le> os_int (osys X) h (Sys_Ioctl fd (I2C_RDWR msgs))"
  shows "\<exists>st' fd xfer rx.
    sample_i2c X (Some eb) other lo_first (event_loop X read_bytes parts) opts (Some (''i2c://'' @ path)) st =
      Inr (Finished, st') \<and>
    xfer = Sys_Ioctl fd (I2C_RDWR (bus_messages (ia_addr a) tx (ia_rsize a))) \<and>
    os_calls (dm_lib st') = xfer # os_calls (dm_lib st1) \<and>
    rx = bus_reply (osys X) (os_calls (dm_lib st1)) xfer (ia_rsize a) \<and>
    dm_out st' = dm_out st @ (if ia_buf a = None then [] else ''write: ['' @ show_bytes tx @ '' ]'' @ newline) @
      ''read : ['' @ show_bytes rx @ '' ]'' @ newline \<and>
    dm_break st' = Some (Suc eb)"
proof -
  let ?uri = "''i2c://'' @ path"
  have target: "uri_target ?uri = Inr (Some (EP_I2C, path))"
    using uri_target_protocol [of "''i2c''" path] path by (simp add: protocol_type_def)
  note start = demo_start [OF st refl, of eb other]
  have "EP_I2C \<noteq> EP_LOOP" by simp
  from open_and_bind_result [OF X(1) start(1) target this bind] start obtain lo x b y d where
    st1: "dm_out st1 = dm_out st" "base (dm_lib st1) = Some eb" "eb \<in> live_bases (dm_lib st1)" and
    bound: "bound_device X ?uri (dm_lib st1) lo x b y d" by auto
  from i2c_asked [OF target bound opts(4), of "Suc eb"] obtain st2 lo' e data where
    asked: "i2c_request_and_wait X (Suc eb) a st1 = Inr st2" and
    wait: "waits_for st2 lo' x b y e (frame (i2c_request (ia_addr a, tx, ia_rsize a)))" "lo_arg lo' = Suc eb"
      "ep_type e = EP_I2C" "ep_data e = Some (I2c_Priv data)" and
    st2: "dm_out st2 = dm_out st @ (if ia_buf a = None then [] else ''write: ['' @ show_bytes tx @ '' ]'' @ newline)"
      "base (dm_lib st2) = Some eb" "eb \<in> live_bases (dm_lib st2)" "os_calls (dm_lib st2) = os_calls (dm_lib st1)"
    using st1 by auto
  have tx: "length tx < 2 ^ 16" using length_read_tx opts(4) by (fastforce split: option.splits)
  let ?xfer = "Sys_Ioctl (i2c_fd data) (I2C_RDWR (bus_messages (ia_addr a) tx (ia_rsize a)))"
  from i2c_answered [OF wait X(2) parts tx opts(3) st2(2,3) refl bus refl] obtain st' where
    ends: "loop_and_end False (event_loop X read_bytes parts) st2 = Inr (Finished, st')" "dm_break st' = Some (Suc eb)"
      "dm_out st' = dm_out st2 @ ''read : ['' @ show_bytes (bus_reply (osys X) (os_calls (dm_lib st1)) ?xfer (ia_rsize a)) @
        '' ]'' @ newline" "os_calls (dm_lib st') = ?xfer # os_calls (dm_lib st1)" by (auto simp: st2(4))
  have "sample_i2c X (Some eb) other lo_first (event_loop X read_bytes parts) opts (Some ?uri) st = Inr (Finished, st')"
    using opts bind asked ends(1) by (simp add: sample_i2c_def Let_def starts_with_def as_ptr_def)
  with ends st2(1) show ?thesis by (intro exI [of _ st'] exI [of _ "i2c_fd data"]) simp
qed

definition idle_demo :: demo where
  "idle_demo = \<lparr>dm_lib = idle_sys, dm_out = [], dm_break = None\<rparr>"

abbreviation (input) sample_opts :: "(char \<times> string) list" where
  "sample_opts \<equiv> [(CHR ''a'', ''0x20''), (CHR ''w'', ''0x01''), (CHR ''r'', ''1'')]"

lemma sample_opts_read: "i2c_options (\<lambda>_. True) sample_opts \<lparr>ia_addr = 0, ia_rsize = 0, ia_buf = None\<rparr> =
    Some \<lparr>ia_addr = 0x20, ia_rsize = 1, ia_buf = Some ''0x01''\<rparr>"
proof -
  have "strtoul 16 ''0x20'' = 0x20" "strtol10 ''1'' = (1, False)"
    by (simp_all add: strtoul_def strtol10_def scan_num_def scan_sign_def isspace_def base_and_digits_def
      hex_prefixed_def digit_in_def digit_def)
  then show ?thesis by (simp add: i2c_option_def)
qed

theorem sample_i2c_reads_witness:
  "\<exists>st'. sample_i2c sample_outside (Some 1) None True (event_loop sample_outside read_bytes (\<lambda>bs. [bs])) sample_opts
     (Some ''i2c:///'') idle_demo = Inr (Finished, st') \<and> dm_break st' = Some 2"
proof -
  have "(case open_and_bind sample_outside True ''i2c:///''
      (demo_init (Some 1) None (event_base_new (Some 1) idle_demo)) of Inr (r, _) \<Rightarrow> r | _ \<Rightarrow> 5) = 0"
    by code_simp
  then obtain st1 where st1: "open_and_bind sample_outside True (''i2c://'' @ ''/'')
      (demo_init (Some 1) None (event_base_new (Some 1) idle_demo)) = Inr (0, st1)"
    by (auto split: sum.splits prod.splits)
  have "fresh_lib (dm_lib idle_demo)" "base (dm_lib idle_demo) = None"
    by (auto simp: fresh_lib_def idle_demo_def idle_sys_def)
  moreover have "read_tx ''0x01'' = Inr [1]"
  proof -
    have "hex_text [1] = ''0x01 ''" by code_simp
    with read_tx_hex [of "[1]"] show ?thesis by simp
  qed
  moreover have "mem sample_outside = (\<lambda>_. True)" "osys sample_outside = counting_os" "cuts (\<lambda>bs. [bs])"
    by (simp_all add: sample_outside_def cuts_def)
  ultimately show ?thesis
    using sample_i2c_reads [OF sample_environment, of "\<lambda>bs. [bs]" idle_demo sample_opts _ "[1]" "''/''" True 1 None st1]
      st1 sample_opts_read by auto
qed

text \<open>
  Blanks only behind \<open>-w\<close>, once the device is bound: \<open>strtok\<close> returns NULL, which the
  program passes to \<open>strtoul\<close> before it looks at it.
\<close>

lemma blank_is_null: "(\<forall>c \<in> set s. c = CHR '' '') \<Longrightarrow> read_tx s = Inl Null_Deref"
  by (auto simp: read_tx_def strtok_def)

theorem sample_i2c_blank:
  assumes "i2c_options (mem X) opts \<lparr>ia_addr = 0, ia_rsize = 0, ia_buf = None\<rparr> = Some a"
    and "ia_addr a \<noteq> 0" "ia_buf a = Some s" "\<forall>c \<in> set s. c = CHR '' ''" "starts_with ''i2c://'' uri"
    and "open_and_bind X lo_first uri (demo_init new other (event_base_new new st)) = Inr (0, st1)"
  shows "sample_i2c X new other lo_first run opts (Some uri) st = Inl Null_Deref"
  using assms blank_is_null [OF assms(4)] by (simp add: sample_i2c_def Let_def i2c_request_and_wait_def)


subsection \<open>sample_tty\<close>

text \<open>
  The end of the standard input sends an empty message, behind which the device reads nothing
  any more; and a failed read sends 2^64 - 1 bytes.
\<close>

theorem tty_end_of_input:
  assumes "bound_device X uri (dm_lib st) lo x b y d"
  shows "write_tty (levent X) (Some []) st = Inr (st\<lparr>dm_lib := lev_call (Bev_Write x (frame [])) (dm_lib st)\<rparr>) \<and>
    to_partner x (lev_calls (lev_call (Bev_Write x (frame [])) (dm_lib st))) = frame [] \<and>
    (\<forall>M h s later. drain_loop M h s (frame [] @ later) = Inr (s, frame [] @ later)) \<and>
    write_tty (levent X) None st = Inl Out_Of_Bounds"
proof (intro conjI allI)
  from assms obtain c where "lookup_lo ''lo'' (dm_lib st) = Some lo" "cores (dm_lib st) (lo_self lo) = Some c"
      "ep_bev c = Some x" and x: "to_partner x (lev_calls (dm_lib st)) = []"
    by (auto simp: bound_device_def)
  then show "write_tty (levent X) (Some []) st = Inr (st\<lparr>dm_lib := lev_call (Bev_Write x (frame [])) (dm_lib st)\<rparr>)"
      "write_tty (levent X) None st = Inl Out_Of_Bounds"
    by (simp_all add: write_tty_def ignoring_def rteipc_xfer_def lo_bev_def rteipc_buffer_def rteipc_evbuffer_def
        bufferevent_write_buffer_def)
  show "to_partner x (lev_calls (lev_call (Bev_Write x (frame [])) (dm_lib st))) = frame []"
    using x by (simp add: lev_call_def)
qed (rule empty_message_blocks)

end
