(* ===== verification/Hello.thy ===== *)
theory Hello
  imports Demo Connect
begin

section \<open>The program hello (src/demo/hello.c)\<close>

text \<open>
  Two processes that send one message each and print the one they get, and a broker that binds
  the two endpoints they connect to. The state of a process is its connections, what it has
  printed and the argument of \<open>event_base_loopbreak\<close>; the broker is a \<open>demo\<close> state of the
  library. \<open>run\<close> is what the callbacks do while the event loop runs.
\<close>

record hello =
  hl_cn :: cn
  hl_out :: string
  hl_break :: "nat option"

text \<open>\<open>read_cb\<close> of the program, and what \<open>connect_read_cb\<close> does when it is the callback.\<close>

definition hello_read :: "nat \<Rightarrow> byte list \<Rightarrow> nat \<Rightarrow> hello \<Rightarrow> hello outcome" where
  "hello_read len msg arg st =
     and_then (shown_text len msg) (\<lambda>s.
     Inr (st\<lparr>hl_out := hl_out st @ s @ newline,
             hl_break := (if arg = 0 then hl_break st else Some arg)\<rparr>))"

definition hello_handle :: "int \<Rightarrow> nat \<Rightarrow> byte list \<Rightarrow> hello \<Rightarrow> hello outcome" where
  "hello_handle key len msg st =
     and_then (deref (ctxs (hl_cn st)) (dtbl_get (ctx_tbl (hl_cn st)) key)) (\<lambda>c.
     and_then (read_cbs c) (\<lambda>(rcb, _, arg, _).
     if rcb = None then Inr st else hello_read len msg arg st))"

definition hello_read_cb :: "client \<Rightarrow> int \<Rightarrow> hello \<Rightarrow> byte list \<Rightarrow> (hello \<times> byte list) outcome" where
  "hello_read_cb X key st inp =
     and_then (lock (hl_cn st)) (\<lambda>cn.
     and_then (drain_loop (cl_mem X) (hello_handle key) (st\<lparr>hl_cn := cn\<rparr>) inp) (\<lambda>(st1, rest).
     Inr (st1\<lparr>hl_cn := unlock (hl_cn st1)\<rparr>, rest)))"

text \<open>\<open>new\<close> is what \<open>event_base_new\<close> returns in \<open>process\<close>, \<open>other\<close> what it returns in \<open>rteipc_init\<close>.\<close>

definition hello_process ::
  "client \<Rightarrow> nat option \<Rightarrow> nat option \<Rightarrow> string \<Rightarrow> string \<Rightarrow> (int \<Rightarrow> hello \<Rightarrow> hello outcome) \<Rightarrow> hello \<Rightarrow>
   (demo_end \<times> hello) outcome" where
  "hello_process X new other uri msg run st =
     (let cn = hl_cn st;
          cn0 = rteipc_init new other (cn\<lparr>live_bases := live_bases cn \<union> set_option new\<rparr>) in
      and_then (rteipc_connect X uri cn0) (\<lambda>(ctx, cn1).
      if ctx < 0 then Inr (Not_Bound, st\<lparr>hl_cn := cn1\<rparr>)
      else
        and_then (rteipc_setcb ctx (Some 0) None (as_ptr new) 0 cn1) (\<lambda>(_, cn2).
        and_then (rteipc_send X ctx (bytes_of msg) cn2) (\<lambda>(_, cn3).
        and_then (rteipc_dispatch False cn3) (\<lambda>cn4.
        and_then (run ctx (st\<lparr>hl_cn := cn4\<rparr>)) (\<lambda>st1.
        and_then (rteipc_shutdown (hl_cn st1)) (\<lambda>cn5. Inr (Finished, st1\<lparr>hl_cn := cn5\<rparr>))))))))"

definition hello_broker ::
  "outside \<Rightarrow> nat option \<Rightarrow> string \<Rightarrow> string \<Rightarrow> (demo \<Rightarrow> demo outcome) \<Rightarrow> demo \<Rightarrow>
   (demo_end \<times> demo) outcome" where
  "hello_broker X new uri1 uri2 run st =
     (let st0 = print (''broker start!'' @ newline) st;
          lib = rteipc_init None new (dm_lib st0) in
      and_then (rteipc_open X uri1 lib) (\<lambda>(ep1, l1).
      and_then (rteipc_open X uri2 l1) (\<lambda>(ep2, l2).
      if ep1 < 0 \<or> ep2 < 0 then Inr (Not_Bound, st0\<lparr>dm_lib := l2\<rparr>)
      else
        and_then (ignoring (rteipc_bind (levent X) ep1 ep2) (st0\<lparr>dm_lib := l2\<rparr>))
          (loop_and_end False run))))"

datatype hello_mode = Broker string string | Process string string | Hello_Usage

text \<open>The words behind the name of the program.\<close>

definition hello_main :: "string list \<Rightarrow> hello_mode" where
  "hello_main args =
     (case args of
        [flag, a, b] \<Rightarrow>
          (if flag = ''-b'' then Broker a b else if flag = ''-p'' then Process a b else Hello_Usage)
      | _ \<Rightarrow> Hello_Usage)"


subsection \<open>One process\<close>

lemma shown_whole:
  assumes "NUL \<notin> set msg" "length msg < 2 ^ 31"
  shows "shown_text (length msg) (bytes_of msg) = Inr msg"
  using assms by (simp add: shown_text_def)

lemma hello_feed:
  assumes st: "\<not> ctx_locked (hl_cn st)" "dtbl_get (ctx_tbl (hl_cn st)) key = Some a"
      "ctxs (hl_cn st) a = Some c" "cx_cbs c = Some (Some cb, ecb, arg, flag)"
    and msg: "NUL \<notin> set msg" "msg \<noteq> []" "length msg < 2 ^ 31"
    and env: "cl_mem X = (\<lambda>_. True)" "concat chunks = frame (bytes_of msg)"
  shows "feed (hello_read_cb X key) st [] chunks =
    Inr (st\<lparr>hl_out := hl_out st @ msg @ newline, hl_break := (if arg = 0 then hl_break st else Some arg)\<rparr>, [])"
proof -
  let ?enter = "\<lambda>s. s\<lparr>hl_cn := (hl_cn s)\<lparr>ctx_locked := True\<rparr>\<rparr>"
  let ?leave = "\<lambda>s. s\<lparr>hl_cn := unlock (hl_cn s)\<rparr>"
  let ?one = "\<lambda>m s. and_then (hello_handle key (length m) m (?enter s)) (\<lambda>l. Inr (?leave l))"
  have keeps: "hl_cn s' = hl_cn s" if "hello_handle key n m s = Inr s'" for n m s s'
    using that by (auto simp: hello_handle_def hello_read_def and_then_eq_Inr split: if_splits)
  have "sendable (bytes_of msg)" using msg by (simp add: sendable_def)
  then have "feed (hello_read_cb X key) st [] chunks = and_then (each ?one [bytes_of msg] st) (\<lambda>s'. Inr (s', []))"
    by (intro feed_bracketed [where I = "\<lambda>s. \<not> ctx_locked (hl_cn s)" and L = "\<lambda>s. ctx_locked (hl_cn s)" and
          h = "hello_handle key" and enter = ?enter and leave = ?leave])
      (use st(1) env keeps in \<open>auto simp: hello_read_cb_def lock_def unlock_def\<close>)
  moreover have "?one (bytes_of msg) st = Inr (st\<lparr>hl_out := hl_out st @ msg @ newline,
      hl_break := (if arg = 0 then hl_break st else Some arg)\<rparr>)"
    using st shown_whole [OF msg(1,3)] by (simp add: hello_handle_def hello_read_def read_cbs_def unlock_def)
  ultimately show ?thesis by simp
qed

text \<open>A connection that will succeed, and a message that is a proper C string.\<close>

definition can_connect :: "client \<Rightarrow> string \<Rightarrow> nat \<Rightarrow> cn \<Rightarrow> bool" where
  "can_connect X uri b cn \<longleftrightarrow>
     (\<exists>path. uri_scan uri = Inr (''ipc'', path)) \<and> \<not> ctx_locked cn \<and> base cn = None \<and>
     sock_new X (cn_calls cn) = Some b \<and> os_ptr (cl_os X) (os_calls cn) (Malloc 40) \<noteq> None \<and>
     cl_mem X = (\<lambda>_. True) \<and> (\<forall>h sa n. sock_connect X h b sa n = (0, [])) \<and>
     first_lap (ctx_tbl cn) \<and> length (registered (ctx_tbl cn)) < capacity (ctx_tbl cn)"

definition sentence :: "string \<Rightarrow> bool" where
  "sentence m \<longleftrightarrow> m \<noteq> [] \<and> NUL \<notin> set m \<and> length m < 2 ^ 31"

definition hears :: "nat \<Rightarrow> int \<Rightarrow> hello \<Rightarrow> bool" where
  "hears eb key st \<longleftrightarrow> \<not> ctx_locked (hl_cn st) \<and> base (hl_cn st) = Some eb \<and> eb \<in> live_bases (hl_cn st) \<and>
     (\<exists>a b. dtbl_get (ctx_tbl (hl_cn st)) key = Some a \<and>
        ctxs (hl_cn st) a = Some \<lparr>cx_bev = b, cx_cbs = Some (Some 0, None, Suc eb, 0)\<rparr>)"

lemma process_until_loop:
  assumes can: "can_connect X uri b (hl_cn st)"
  shows "\<exists>key st1 calls. hears eb key st1 \<and> hl_out st1 = hl_out st \<and>
    cn_calls (hl_cn st1) = Sock_Write b (frame (bytes_of msg)) # calls \<and>
    (\<forall>run. hello_process X (Some eb) other uri msg run st =
       and_then (run key st1) (\<lambda>s. and_then (rteipc_shutdown (hl_cn s)) (\<lambda>cn. Inr (Finished, s\<lparr>hl_cn := cn\<rparr>))))"
proof -
  let ?cn = "hl_cn st"
  define cn0 where "cn0 = rteipc_init (Some eb) other (?cn\<lparr>live_bases := insert eb (live_bases ?cn)\<rparr>)"
  have cn0: "cn0 = ?cn\<lparr>live_bases := insert eb (live_bases ?cn), base := Some eb\<rparr>"
    using can by (simp add: cn0_def rteipc_init_def can_connect_def)
  from can obtain path a where uri: "uri_scan uri = Inr (''ipc'', path)"
      and mem: "os_ptr (cl_os X) (os_calls cn0) (Malloc 40) = Some a" "cl_mem X = (\<lambda>_. True)"
      and sock: "\<not> ctx_locked cn0" "sock_new X (cn_calls cn0) = Some b"
      and ok: "\<And>h sa n. sock_connect X h b sa n = (0, [])"
      and room: "first_lap (ctx_tbl cn0)" "length (registered (ctx_tbl cn0)) < capacity (ctx_tbl cn0)"
    by (auto simp: can_connect_def cn0)
  define key where "key = int (length (registered (ctx_tbl cn0)))"
  obtain tbl sa n where tbl: "first_lap tbl" "registered tbl = registered (ctx_tbl cn0) @ [a]"
      and run: "rteipc_connect X uri cn0 = Inr (key, cn_call (Sock_Connect b sa n) (registered_cn a b key tbl cn0))"
    using connect_ipc [OF uri sock mem room] ok by (auto simp: key_def)
  have get: "dtbl_get tbl key = Some a" "\<not> key < 0"
    using first_lap_get [OF tbl(1), of key] tbl(2) by (simp_all add: key_def)
  define cn1 where "cn1 = cn_call (Sock_Connect b sa n) (registered_cn a b key tbl cn0)"
  define cn2 where "cn2 = cn1\<lparr>ctxs := (ctxs cn0)(a \<mapsto> \<lparr>cx_bev = Some b, cx_cbs = Some (Some 0, None, Suc eb, 0)\<rparr>)\<rparr>"
  define cn3 where "cn3 = cn_call (Sock_Write b (frame (bytes_of msg))) cn2"
  define cn4 where "cn4 = cn3\<lparr>base_calls := Base_Dispatch eb # base_calls cn3\<rparr>"
  note state = cn1_def cn2_def cn3_def cn4_def registered_cn_def cn_defs
  have setcb: "rteipc_setcb key (Some 0) None (Suc eb) 0 cn1 = Inr (0, cn2)"
    using get by (simp add: rteipc_setcb_def state)
  have send: "rteipc_send X key (bytes_of msg) cn2 = Inr (sock_status X (cn_calls cn2) b (frame (bytes_of msg)), cn3)"
    using get by (simp add: rteipc_send_def state rteipc_buffer_def rteipc_evbuffer_def sock_write_def)
  have "rteipc_dispatch False cn3 = Inr cn4"
    by (simp add: state base_op_defs cn0)
  then have "hello_process X (Some eb) other uri msg run st =
      and_then (run key (st\<lparr>hl_cn := cn4\<rparr>)) (\<lambda>s. and_then (rteipc_shutdown (hl_cn s)) (\<lambda>cn. Inr (Finished, s\<lparr>hl_cn := cn\<rparr>)))" for run
    using run get(2) setcb send by (simp add: hello_process_def Let_def as_ptr_def flip: cn0_def cn1_def)
  moreover have "hears eb key (st\<lparr>hl_cn := cn4\<rparr>)" using get(1) by (simp add: hears_def state cn0)
  moreover have "cn_calls cn4 = Sock_Write b (frame (bytes_of msg)) # cn_calls cn2" by (simp add: cn4_def cn3_def cn_call_def)
  ultimately show ?thesis by (intro exI [of _ key] exI [of _ "st\<lparr>hl_cn := cn4\<rparr>"] exI [of _ "cn_calls cn2"]) simp
qed

text \<open>The event loop of a process to which \<open>chunks\<close> come from the socket.\<close>

definition hello_loop :: "client \<Rightarrow> byte list list \<Rightarrow> int \<Rightarrow> hello \<Rightarrow> hello outcome" where
  "hello_loop X chunks key st = and_then (feed (hello_read_cb X key) st [] chunks) (\<lambda>(st1, _). Inr st1)"

lemma process_prints:
  assumes can: "can_connect X uri b (hl_cn st)" and m: "sentence m" and chunks: "concat chunks = frame (bytes_of m)"
  shows "\<exists>st'. hello_process X (Some eb) other uri msg (hello_loop X chunks) st = Inr (Finished, st') \<and>
    hl_out st' = hl_out st @ m @ newline \<and> hl_break st' = Some (Suc eb)"
proof -
  obtain key st1 where st1: "hears eb key st1" "hl_out st1 = hl_out st" and
    run: "\<And>run. hello_process X (Some eb) other uri msg run st =
       and_then (run key st1) (\<lambda>s. and_then (rteipc_shutdown (hl_cn s)) (\<lambda>cn. Inr (Finished, s\<lparr>hl_cn := cn\<rparr>)))"
    using process_until_loop [OF can, of eb msg other] by auto
  have mem: "cl_mem X = (\<lambda>_. True)" using can by (simp add: can_connect_def)
  from st1(1) obtain a c where "\<not> ctx_locked (hl_cn st1)" "dtbl_get (ctx_tbl (hl_cn st1)) key = Some a"
      "ctxs (hl_cn st1) a = Some c" "cx_cbs c = Some (Some 0, None, Suc eb, 0)"
    by (auto simp: hears_def)
  from hello_feed [OF this _ _ _ mem chunks] m
  have "hello_loop X chunks key st1 = Inr (st1\<lparr>hl_out := hl_out st1 @ m @ newline, hl_break := Some (Suc eb)\<rparr>)"
    by (simp add: hello_loop_def sentence_def)
  with run [of "hello_loop X chunks"] st1 show ?thesis by (simp add: hears_def base_op_defs)
qed


subsection \<open>Two processes and a broker\<close>

text \<open>What comes for an IPC endpoint before it has a client waits for the client.\<close>

lemma ipc_run_append: "ipc_run E y (es @ es') s = ipc_run E y es' (ipc_run E y es s)"
  by (induction es arbitrary: s) simp_all

lemma ipc_run_waiting:
  "ipc_cli d = None \<Longrightarrow> ipc_run E y (map Partner_Sends cs) (d, pend, st) = (d, pend @ concat cs, st)"
  by (induction cs arbitrary: pend) (simp_all add: ipc_on_data_def)

lemma ipc_late_client:
  assumes d: "ipc_cli d = None" "accepting (ipc_el d) (os_calls st)" and new: "\<And>h. os_ptr E h (Cli_New fd) \<noteq> None"
  shows "\<exists>d' st'. ipc_run E y (map Partner_Sends early @ Client_Connects fd # map Partner_Sends late) (d, [], st) =
      (d', [], st') \<and> to_clients (os_calls st') = to_clients (os_calls st) @ concat (early @ late)"
proof -
  obtain c where c: "os_ptr E (os_calls st) (Cli_New fd) = Some c" using new by blast
  obtain st2 where st2: "ipc_listen_cb E (Some y) fd d (concat early) st = (d\<lparr>ipc_cli := Some c\<rparr>, [], st2)"
      "to_clients (os_calls st2) = to_clients (os_calls st) @ concat early"
    using c by (cases "concat early = []") (simp_all add: ipc_callback_defs Let_def del: concat_eq_Nil_conv)
  then have "ipc_run E y (map Partner_Sends early @ Client_Connects fd # map Partner_Sends late) (d, [], st) =
      ipc_run E y (map Partner_Sends late) (d\<lparr>ipc_cli := Some c\<rparr>, [], st2)"
    using d by (simp add: ipc_run_append ipc_run_waiting)
  moreover obtain st3 where "ipc_run E y (map Partner_Sends late) (d\<lparr>ipc_cli := Some c\<rparr>, [], st2) = (d\<lparr>ipc_cli := Some c\<rparr>, [], st3)"
      "to_clients (os_calls st3) = to_clients (os_calls st2) @ concat late"
    using ipc_run_downstream [of "d\<lparr>ipc_cli := Some c\<rparr>" c E y late st2] by auto
  ultimately show ?thesis using st2(2) by simp
qed

text \<open>
  C18: \<open>hello\<close>, as its comment shows it. What a process connected to one endpoint of the broker
  writes, passes through the two bound endpoints, cut in any way, and reaches a process on the
  other one also if this connects only later: the accept callback hands over what has been waiting,
  all of it if nothing comes after the connection. The process prints exactly the message and ends.
\<close>

theorem hello_exchange:
  assumes A: "can_connect XA uriA bA (hl_cn A)" and B: "can_connect XB uriB bB (hl_cn B)"
    and m: "sentence m" "bytes = frame (bytes_of m)"
    and broker: "ipc_cli d1 = Some cl" "ipc_cli d2 = None" "accepting (ipc_el d2) (os_calls sv)"
      "\<And>h. os_ptr E h (Cli_New fd) \<noteq> None"
  shows "\<exists>keyA A1 calls.
    (\<forall>run. hello_process XA (Some ea) other uriA m run A = and_then (run keyA A1)
       (\<lambda>s. and_then (rteipc_shutdown (hl_cn s)) (\<lambda>cn. Inr (Finished, s\<lparr>hl_cn := cn\<rparr>)))) \<and>
    cn_calls (hl_cn A1) = Sock_Write bA bytes # calls \<and>
    (\<forall>ins early late. concat ins = bytes \<and> concat (early @ late) = bytes \<longrightarrow>
       (\<exists>sv1 d2' sv2. ipc_run E x (map Client_Sends ins) (d1, [], sv) = (d1, [], sv1) \<and>
          to_partner x (lev_calls sv1) = to_partner x (lev_calls sv) @ bytes \<and>
          ipc_run E y (map Partner_Sends early @ Client_Connects fd # map Partner_Sends late) (d2, [], sv1) =
            (d2', [], sv2) \<and>
          to_clients (os_calls sv2) = to_clients (os_calls sv) @ bytes)) \<and>
    (\<forall>outs. concat outs = bytes \<longrightarrow>
       (\<exists>B'. hello_process XB (Some eb) other' uriB msg (hello_loop XB outs) B = Inr (Finished, B') \<and>
          hl_out B' = hl_out B @ m @ newline \<and> hl_break B' = Some (Suc eb)))"
proof -
  have relay: "\<exists>sv1 d2' sv2. ipc_run E x (map Client_Sends ins) (d1, [], sv) = (d1, [], sv1) \<and>
      to_partner x (lev_calls sv1) = to_partner x (lev_calls sv) @ bytes \<and>
      ipc_run E y (map Partner_Sends early @ Client_Connects fd # map Partner_Sends late) (d2, [], sv1) =
        (d2', [], sv2) \<and> to_clients (os_calls sv2) = to_clients (os_calls sv) @ bytes"
    if cuts: "concat ins = bytes" "concat (early @ late) = bytes" for ins early late
  proof -
    obtain sv1 where sv1: "ipc_run E x (map Client_Sends ins) (d1, [], sv) = (d1, [], sv1)"
        "to_partner x (lev_calls sv1) = to_partner x (lev_calls sv) @ bytes" "os_calls sv1 = os_calls sv"
      using ipc_run_upstream [of d1 E x ins "[]" sv] broker(1) cuts(1) by auto
    with ipc_late_client [of d2 sv1 E fd y early late] broker(2-4) cuts(2) show ?thesis by metis
  qed
  obtain keyA A1 calls where "cn_calls (hl_cn A1) = Sock_Write bA bytes # calls"
    "\<forall>run. hello_process XA (Some ea) other uriA m run A =
       and_then (run keyA A1) (\<lambda>s. and_then (rteipc_shutdown (hl_cn s)) (\<lambda>cn. Inr (Finished, s\<lparr>hl_cn := cn\<rparr>)))"
    using process_until_loop [OF A, of ea m other] m(2) by auto
  with relay process_prints [OF B m(1), of _ eb other' msg] m(2) show ?thesis
    by (intro exI [of _ keyA] exI [of _ A1] exI [of _ calls]) blast
qed

definition idle_hello :: hello where
  "idle_hello = \<lparr>hl_cn = idle_cn\<lparr>base := None, live_bases := {}\<rparr>, hl_out = [], hl_break = None\<rparr>"

theorem hello_exchange_witness:
  "\<exists>B'. hello_process echo_client (Some 1) None ''ipc://@x'' ''foo''
     (hello_loop echo_client [frame (bytes_of ''bar'')]) idle_hello = Inr (Finished, B') \<and>
     hl_out B' = ''bar'' @ newline \<and> hl_break B' = Some 2"
proof -
  have can: "can_connect echo_client ''ipc://@x'' 0 (hl_cn idle_hello)"
    using idle_cn_facts by (simp add: can_connect_def idle_hello_def echo_scan echo_client_def idle_cn_def)
  let ?d = "\<lparr>ipc_mem = 0, ipc_el = 1, ipc_cli = Some 4, ipc_path = None, ipc_abstract = True\<rparr>"
  have "sentence ''bar''" "ipc_cli ?d = Some 4" "ipc_cli (?d\<lparr>ipc_cli := None\<rparr>) = None"
      "accepting (ipc_el (?d\<lparr>ipc_cli := None\<rparr>)) (os_calls (idle_rte :: unit rte))"
      "\<And>h. os_ptr counting_os h (Cli_New 9) \<noteq> None"
    by (simp_all add: sentence_def idle_rte_def)
  note facts = this
  from hello_exchange [OF can can facts(1) refl facts(2-5), of 1 None 5 6 1 None "''foo''"] show ?thesis
    by (elim exE conjE allE [where x = "[frame (bytes_of ''bar'')]"]) (simp add: idle_hello_def numeral_eq_Suc)
qed

end
