(* ===== verification/Spec2Isabelle.thy ===== *)
theory Spec2Isabelle
  imports Lists Rtemgr_Types Rtemgr_Paths Rtemgr_Remote Demo_Session Hello
begin

text \<open>
  Verification of rteipc, an event loop library that routes data between endpoints.

  The program. An \<^emph>\<open>endpoint\<close> (src/src/ep.h, src/src/ep_core.c) represents a process or a
  peripheral. \<open>rteipc_open\<close> makes one from a URI and hands out a descriptor from a descriptor
  table (src/src/table.c); \<open>rteipc_bind\<close> connects two of them by a libevent bufferevent pair;
  what one side writes, the read callback of the other side takes out of the stream, message
  by message (src/src/message.c), and turns into accesses of its device (src/src/ep/). Programs
  in other processes connect to an IPC endpoint (src/src/connect.c). On top of the library, a
  daemon (src/src/rtemgr/rtemgrd.c) manages named interfaces and routes between them; it is
  controlled by packets of YAML text (librtemgr.c) that the command line client rtemgr.c sends.

  How the theories correspond to the code.

  \<^item> \<open>Prelude\<close>: faults and outcomes, machine integers as bytes, C strings. A definition that
    models a C function returns \<open>Inr\<close> of its result and new state, or \<open>Inl\<close> of a \<open>fault\<close> where
    the code would use freed memory, read NULL, leave an array, fail an assertion, read an
    uninitialised variable or never come back.
  \<^item> \<open>Text\<close>: the parts of \<open>sscanf\<close>, \<open>strtol\<close>, \<open>strncpy\<close> and \<open>strstr\<close> that the code uses.
  \<^item> \<open>Lists\<close>: src/src/list.h and list.c, doubly linked nodes in a heap.
  \<^item> \<open>Table\<close>: src/src/table.h and table.c, the bitmap of descriptors at 64 bits a word and the
    list of entries.
  \<^item> \<open>Message\<close>: src/src/message.c, the framing and the receive loop all endpoints share.
  \<^item> \<open>Os\<close>: the system calls of the endpoints (memory, descriptors, ioctls, libgpiod, libudev,
    listeners) as a log of calls, and what they answer as an argument; which resources a log
    acquires and releases; the locale \<open>device\<close> of open and close.
  \<^item> \<open>Base\<close>: src/src/base.c, the thread's event base.
  \<^item> \<open>Ep_Core\<close>: src/src/ep.h and ep_core.c, endpoints in a heap, their registration and binding.
  \<^item> \<open>Endpoint\<close>: what the \<open>on_data\<close> callbacks share: the loop over drained messages, replies,
    and the locale \<open>service\<close> of a handler that serves requests.
  \<^item> \<open>Ep_I2c\<close>, \<open>Ep_Spi\<close>, \<open>Ep_Gpio\<close>, \<open>Ep_Sysfs\<close>, \<open>Ep_Tty\<close>, \<open>Ep_Ipc\<close>, \<open>Ep_Loop\<close>: one file of
    src/src/ep/ each, its private data, request handler, open, close and compatibility. What a
    request does to the device is specified beside the handler (\<open>bus_messages\<close>, \<open>spi_log\<close>); the
    IPC endpoint is a \<open>relay\<close>, whose accept callback flushes what waits to the new client.
  \<^item> \<open>Ep\<close>: src/src/ep.c, URIs, the operation tables and the public operations.
  \<^item> \<open>Ep_Safety\<close>: the invariant of the whole system that every public operation keeps.
  \<^item> \<open>Ep_Api\<close>: the abstract map of descriptors and the refinement.
  \<^item> \<open>Connect\<close>: src/src/connect.c, the contexts of a client behind their mutex: connecting, the
    callbacks of a connection, sending.
  \<^item> \<open>Numbers\<close>: \<open>printf\<close> and \<open>strtoul\<close> of integers, and that they undo each other.
  \<^item> \<open>Rtemgr_Data\<close>: src/src/rtemgr/rtemgr-common.h and the packets of librtemgr.c, emitted as a
    sequence of YAML events and parsed by a machine over events. \<open>Rtemgr_Wire\<close>: the events of a
    packet, the round trip, the size of the value's buffer in plain arithmetic (\<open>buffer_size\<close>), and
    where the code leaves its buffers. \<open>Rtemgr_Types\<close>: parsed packets
    have their declared types.
  \<^item> \<open>Rtemgr_Codec\<close>: the requests for managed interfaces (librtemgr.c) and the hexadecimal values
    that the daemon reads back.
  \<^item> \<open>Rtemgrd\<close>, \<open>Rtemgrd_Ctl\<close>: src/src/rtemgr/rtemgrd.c, the interfaces, domains and handlers of
    the daemon, and its commands, control port, start and end. \<open>Rtemgrd_Routes\<close>: the abstract
    network of named interfaces and partners, what each packet does to it (\<open>net_command\<close>) and what
    is answered, that the daemon refines it, and when partners are live. \<open>Rtemgrd_Traffic\<close>: what
    happens to the data. \<open>Rtemgrd_Control\<close>: listing, and the packets that break the daemon, among
    them the opening of a name that a loop already has.
  \<^item> \<open>Rtemgr_Cli\<close>, \<open>Rtemgr_Client\<close>: src/src/rtemgr/rtemgr.c, the argument blocks and the parsers of
    the subcommands; the options, the replies and the program. \<open>Rtemgr_Request\<close>: which packets a
    command line makes, whatever malloc returns, and what the client relies on to make them. \<open>Rtemgr_Paths\<close>: the options of a new endpoint reach its device.
    \<open>Rtemgr_Session\<close>: the commands list, route and xfer from the client through the daemon and back;
    \<open>Rtemgr_Remote\<close>: list over the control socket, with the connection, the IPC endpoint and the
    loopback endpoint in between.
  \<^item> \<open>Demo\<close>: the programs of src/demo that open a device, with their options, requests and callbacks.
    \<open>Demo_Session\<close>: their endpoints after the start, the event loop between them, \<open>sample_i2c\<close>
    from its command line to what it prints, and \<open>sample_tty\<close> at the end of its input.
    \<open>Hello\<close>: src/demo/hello.c, a process, the broker, and a message from one process to the other.
  \<^item> \<open>Spec2Isabelle\<close>: a client, an IPC endpoint and a device composed.

  Outside the model. libevent, the kernel, libgpiod and libudev are not under src/. What they
  answer is an argument of the definitions that call them, a function of the calls made so
  far, so that nothing is assumed but what a theorem names: \<open>os_ok\<close> (what is handed out is not
  held already), \<open>lev_ok\<close> (a new pair is fresh, and libevent knows who is whose partner). libyaml
  and libb64 are the record \<open>libs\<close>; \<open>libs_ok\<close> states that the parser lists the events that the
  emitter was given, and that decoding undoes encoding (the
  parser only for whole documents). \<open>getopt\<close>, \<open>getopt_long\<close>, \<open>localtime\<close> with
  \<open>strftime\<close>, and whether malloc returns zeroed or larger blocks (\<open>blocks\<close>) are arguments too.

  Bounds and termination. The receive loop \<open>drain_loop\<close> is a terminating function, since every
  drained message shortens the buffer. \<open>rteipc_msg_write\<close> and the flush loop of the serial
  endpoint end only if the kernel makes progress: they are partial functions into \<open>option\<close>,
  and that they return is proved under that assumption. No theorem uses fuel.

  Not modelled. Mutual exclusion in the library: every operation is one step; the mutex of the
  client contexts is modelled as a flag, so that locking it twice is a fault. Diagnostics printed
  to stderr, and usage texts. Blocks of packets that are only freed or leaked (\<open>rtemgr_data_free\<close>,
  \<open>rtemgr_put_dh\<close>). The headers rteipc.h, message.h and rtemgrcli.h, which declare functions. The
  registration of the event on the standard input in \<open>sample_tty\<close>, whose callback is \<open>write_tty\<close>.
\<close>


section \<open>A client, an IPC endpoint and a device\<close>

text \<open>The way of a request from the socket to the bus, and of its reply back to the socket.\<close>

lemma i2c_through_ipc:
  fixes sv :: "('d, 'z) rte_scheme"
  assumes req: "length tx < 2 ^ 16" "rlen \<noteq> 0" "ipc_cli d = Some cl"
    and bus: "xfer = Sys_Ioctl (i2c_fd data) (I2C_RDWR (bus_messages addr tx rlen))"
      "0 \<le> os_int E (os_calls sv) xfer"
    and chunks: "concat chunks = frame (i2c_request (addr, tx, rlen))" "concat chunks' = frame (i2c_request (addr, tx, rlen))"
    and reply: "reply = frame (bus_reply E (os_calls sv) xfer rlen)"
  shows "\<exists>sv1 sv2. ipc_run E x (map Client_Sends chunks) (d, [], sv) = (d, [], sv1) \<and>
    to_partner x (lev_calls sv1) = to_partner x (lev_calls sv) @ frame (i2c_request (addr, tx, rlen)) \<and>
    feed (i2c_on_data (\<lambda>_. True) E L data (Some y)) sv1 [] chunks' = Inr (sv2, []) \<and>
    os_calls sv2 = xfer # os_calls sv \<and> lev_calls sv2 = Bev_Write y reply # lev_calls sv1 \<and>
    (\<forall>chunks. concat chunks = reply \<longrightarrow>
       (\<exists>sv3. ipc_run E x (map Partner_Sends chunks) (d, [], sv2) = (d, [], sv3) \<and>
          to_clients (os_calls sv3) = to_clients (os_calls sv2) @ reply))"
proof -
  obtain sv1 where sv1: "ipc_run E x (map Client_Sends chunks) (d, [], sv) = (d, [], sv1)"
      "to_partner x (lev_calls sv1) = to_partner x (lev_calls sv) @ concat chunks" "os_calls sv1 = os_calls sv"
    using ipc_run_upstream [of d E x chunks "[]" sv] req(3) by auto
  define sv2 where "sv2 = lev_call (Bev_Write y reply) (note_call xfer sv1)"
  have "\<forall>chunks. concat chunks = reply \<longrightarrow>
     (\<exists>sv3. ipc_run E x (map Partner_Sends chunks) (d, [], sv2) = (d, [], sv3) \<and>
        to_clients (os_calls sv3) = to_clients (os_calls sv2) @ reply)"
    using ipc_run_downstream [OF req(3), of E x _ sv2] by metis
  moreover have "feed (i2c_on_data (\<lambda>_. True) E L data (Some y)) sv1 [] chunks' = Inr (sv2, [])"
    using i2c_one_read [OF req(1,2) chunks(2) bus(1), of E sv1 L y] bus(2) sv1(3) by (simp add: sv2_def reply)
  ultimately show ?thesis
    using sv1 chunks(1) by (intro exI [of _ sv1] exI [of _ sv2]) (simp add: sv2_def lev_call_def note_call_def)
qed

text \<open>
  C4: a client reaches an I2C device through an IPC endpoint. What \<open>rteipc_i2c_send\<close> writes to
  the socket, in whatever chunks it arrives, is what the IPC endpoint passes to the endpoint it
  is bound to; cut into whatever chunks again, it makes exactly the bus transfer that was asked
  for; the reply goes back through the IPC endpoint unchanged, and makes the client's read
  callback run once, on exactly the bytes that the bus delivered.
\<close>

theorem i2c_over_ipc:
  fixes sv :: "('d, 'z) rte_scheme"
  assumes cn: "dtbl_get (ctx_tbl st) key = Some a" "ctxs st a = Some c" "cx_bev c = Some b"
      "\<not> ctx_locked st"
    and client: "keeps_lock X" "cl_mem X = (\<lambda>_. True)"
    and req: "length tx < 2 ^ 16" "rlen \<noteq> 0" "ipc_cli d = Some cl"
    and bus: "xfer = Sys_Ioctl (i2c_fd data) (I2C_RDWR (bus_messages addr tx rlen))"
      "0 \<le> os_int E (os_calls sv) xfer"
  shows "\<exists>r st1 bytes reply.
    rteipc_i2c_send X key addr (Some tx) (of_nat (length tx)) rlen st = Inr (r, st1) \<and>
    cn_calls st1 = Sock_Write b bytes # cn_calls st \<and>
    (\<forall>chunks chunks'. concat chunks = bytes \<and> concat chunks' = bytes \<longrightarrow>
       (\<exists>sv1 sv2. ipc_run E x (map Client_Sends chunks) (d, [], sv) = (d, [], sv1) \<and>
          to_partner x (lev_calls sv1) = to_partner x (lev_calls sv) @ bytes \<and>
          feed (i2c_on_data (\<lambda>_. True) E L data (Some y)) sv1 [] chunks' = Inr (sv2, []) \<and>
          os_calls sv2 = xfer # os_calls sv \<and> lev_calls sv2 = Bev_Write y reply # lev_calls sv1 \<and>
          (\<forall>chunks. concat chunks = reply \<longrightarrow>
             (\<exists>sv3. ipc_run E x (map Partner_Sends chunks) (d, [], sv2) = (d, [], sv3) \<and>
                to_clients (os_calls sv3) = to_clients (os_calls sv2) @ reply)))) \<and>
    (\<forall>chunks. concat chunks = reply \<longrightarrow>
       feed (connect_read_cb X key) st1 [] chunks =
       and_then (receive X key (map (os_byte E (os_calls sv) xfer) [0..<unat rlen]) st1)
         (\<lambda>st2. Inr (st2, [])))"
proof -
  let ?rx = "bus_reply E (os_calls sv) xfer rlen"
  define st1 where "st1 = cn_call (Sock_Write b (frame (i2c_request (addr, tx, rlen)))) st"
  have send: "rteipc_i2c_send X key addr (Some tx) (of_nat (length tx)) rlen st =
      Inr (sock_status X (cn_calls st) b (frame (i2c_request (addr, tx, rlen))), st1)"
    using send_requests [OF cn(1-3) req(1)] by (simp add: sock_write_def st1_def)
  have "\<not> ctx_locked st1" using cn(4) by (simp add: st1_def cn_call_def)
  moreover have "\<forall>m \<in> set [?rx]. sendable m" using bus_reply_sendable [OF req(2)] by simp
  ultimately have receive:
    "feed (connect_read_cb X key) st1 [] chunks = and_then (receive X key ?rx st1) (\<lambda>st2. Inr (st2, []))"
    if "concat chunks = frame ?rx" for chunks
    using that client_feed [OF client(1) _ client(2), of st1 "[?rx]" chunks key]
    by (cases "receive X key ?rx st1") simp_all
  show ?thesis
  proof (intro exI conjI)
    show "rteipc_i2c_send X key addr (Some tx) (of_nat (length tx)) rlen st =
        Inr (sock_status X (cn_calls st) b (frame (i2c_request (addr, tx, rlen))), st1)" by (rule send)
    show "cn_calls st1 = Sock_Write b (frame (i2c_request (addr, tx, rlen))) # cn_calls st"
      by (simp add: st1_def cn_call_def)
  qed (intro allI impI, rule i2c_through_ipc [OF req bus _ _ refl],
      simp_all add: receive del: i2c_request.simps flip: bus_reply_def)
qed

theorem i2c_over_ipc_witness:
  "\<exists>r st1 bytes. rteipc_i2c_send echo_client 0 0x50 (Some [7]) (of_nat (length [7 :: byte])) 2 open_cn =
     Inr (r, st1) \<and> cn_calls st1 = Sock_Write 3 bytes # cn_calls open_cn"
proof -
  have echo: "cl_mem echo_client = (\<lambda>_. True)" by (simp add: echo_client_def)
  let ?x = "Sys_Ioctl (i2c_fd \<lparr>i2c_mem = 1, i2c_fd = 5\<rparr>) (I2C_RDWR (bus_messages 0x50 [7] 2))"
  have "length [7 :: byte] < 2 ^ 16" "(2 :: 16 word) \<noteq> 0"
      "ipc_cli \<lparr>ipc_mem = 0, ipc_el = 1, ipc_cli = Some 4, ipc_path = None, ipc_abstract = True\<rparr> = Some 4"
      "0 \<le> os_int counting_os (os_calls (idle_rte :: unit rte)) ?x"
    by simp_all
  note server = this
  have "cx_bev \<lparr>cx_bev = Some 3, cx_cbs = Some (Some 5, None, 0, 0)\<rparr> = Some (3 :: nat)" by simp
  from i2c_over_ipc [where L = counting_lev and x = 0 and y = 1, OF open_cn_facts(3,2) this open_cn_facts(1) keeps_lock_echo echo server(1-3) refl server(4)]
  show ?thesis
    by (elim exE conjE) (rule exI, rule exI, rule exI, rule conjI, assumption, assumption)
qed

end
